(* ===== verification/Disk_Quota.thy ===== *)
theory Disk_Quota
  imports Wings_Prelude
begin

text \<open>
  Disk accounting of one server: the quota wrapper of \<^verbatim>\<open>internal/ufs/fs_quota.go\<close> and the
  cached usage, reservations and disk walks of \<^verbatim>\<open>server/filesystem/disk_space.go\<close>. The file
  handle and the writers that use the accounting are in \<open>Disk_Writers\<close>.

  The kernel's answers (how many bytes a write stored, what a stat returned, which
  entries a directory walk delivered) are arguments of the definitions.
\<close>

section \<open>The quota (internal/ufs/fs_quota.go)\<close>

record quota =
  q_limit :: int
  q_usage :: int

definition NewQuota :: "int \<Rightarrow> quota" where
  "NewQuota lim = \<lparr>q_limit = lim, q_usage = 0\<rparr>"

definition quota_SetLimit :: "int \<Rightarrow> quota \<Rightarrow> int \<times> quota" where
  "quota_SetLimit newLimit q = (q_limit q, q\<lparr>q_limit := newLimit\<rparr>)"

definition quota_SetUsage :: "int \<Rightarrow> quota \<Rightarrow> int \<times> quota" where
  "quota_SetUsage newUsage q = (q_usage q, q\<lparr>q_usage := newUsage\<rparr>)"

text \<open>
  One attempt of the loop in \<^verbatim>\<open>Add\<close>: the value to store for the usage it has loaded, or
  \<open>None\<close> for the default case of the switch, which returns without storing.
\<close>

definition quota_add_next :: "int \<Rightarrow> int \<Rightarrow> int option" where
  "quota_add_next i usage =
     (if i > 0 then
        (if usage > wrap64 (max_i64 - i) then Some max_i64 else Some (wrap64 (usage + i)))
      else if i < 0 then
        (if i = min_i64 then Some 0
         else if usage \<le> wrap64 (- i) then Some 0
         else Some (wrap64 (usage + i)))
      else None)"

text \<open>
  The whole loop. The list holds what other goroutines store between the load and the
  compare-and-swap of each attempt, one value per attempt; once it is used up the
  attempt is undisturbed. The result is the returned value and the quota afterwards.
\<close>

fun quota_Add_loop :: "int list \<Rightarrow> int \<Rightarrow> quota \<Rightarrow> int \<times> quota" where
  "quota_Add_loop [] i q =
     (case quota_add_next i (q_usage q) of
        None \<Rightarrow> (q_usage q, q)
      | Some nxt \<Rightarrow> (nxt, q\<lparr>q_usage := nxt\<rparr>))"
| "quota_Add_loop (w # ws) i q =
     (case quota_add_next i (q_usage q) of
        None \<Rightarrow> (q_usage q, q)
      | Some nxt \<Rightarrow>
          (if w = q_usage q then (nxt, q\<lparr>q_usage := nxt\<rparr>)
           else quota_Add_loop ws i (q\<lparr>q_usage := w\<rparr>)))"

definition quota_Add :: "int \<Rightarrow> quota \<Rightarrow> int \<times> quota" where
  "quota_Add i q = quota_Add_loop [] i q"

definition CanFit :: "int \<Rightarrow> quota \<Rightarrow> bool" where
  "CanFit sz q =
     (if q_limit q = - 1 then False
      else if q_limit q = 0 then True
      else if q_usage q = - 1 then True
      else if sz \<le> 0 then True
      else if q_usage q \<ge> q_limit q then False
      else sz \<le> wrap64 (q_limit q - q_usage q))"

record file_info =
  fi_regular :: bool
  fi_nlink :: "nat option"
  fi_size :: int

definition freedBy :: "file_info \<Rightarrow> int" where
  "freedBy s =
     (if \<not> fi_regular s then 0
      else case fi_nlink s of
             Some n \<Rightarrow> if n > 1 then 0 else fi_size s
           | None \<Rightarrow> fi_size s)"

definition quota_Remove :: "'e + file_info \<Rightarrow> quota \<Rightarrow> 'e + quota" where
  "quota_Remove removeStat q =
     (case removeStat of
        Inl e \<Rightarrow> Inl e
      | Inr s \<Rightarrow> Inr (snd (quota_Add (wrap64 (- freedBy s)) q)))"

definition quota_unlinkat :: "int \<Rightarrow> 'e + file_info \<Rightarrow> quota \<Rightarrow> quota" where
  "quota_unlinkat flags lstatat q =
     (if flags = 0 then
        (case lstatat of
           Inl _ \<Rightarrow> q
         | Inr s \<Rightarrow> snd (quota_Add (wrap64 (- freedBy s)) q))
      else q)"

section \<open>Cached usage, reservations and walks (disk_space.go)\<close>

datatype fs_error = E_ISDIR | E_NODISK | E_BADPATH | E_DENYLIST | E_IO nat

record filesystem =
  unixFS :: quota
  reserved :: int
  walking :: bool
  walkReserved :: int
  lastLookupTime :: int
  lookupInProgress :: bool
  diskCheckInterval :: int

definition MaxDisk :: "filesystem \<Rightarrow> int" where
  "MaxDisk fs = q_limit (unixFS fs)"

definition SetDiskLimit :: "int \<Rightarrow> filesystem \<Rightarrow> filesystem" where
  "SetDiskLimit i fs = fs\<lparr>unixFS := snd (quota_SetLimit i (unixFS fs))\<rparr>"

definition CachedUsage :: "filesystem \<Rightarrow> int" where
  "CachedUsage fs = q_usage (unixFS fs)"

definition HasSpaceFor :: "int \<Rightarrow> filesystem \<Rightarrow> fs_error + unit" where
  "HasSpaceFor sz fs = (if \<not> CanFit sz (unixFS fs) then Inl E_NODISK else Inr ())"

definition fs_add :: "int \<Rightarrow> filesystem \<Rightarrow> filesystem" where
  "fs_add i fs = fs\<lparr>unixFS := snd (quota_Add i (unixFS fs))\<rparr>"

definition reserveDisk :: "int \<Rightarrow> filesystem \<Rightarrow> fs_error + filesystem" where
  "reserveDisk sz fs =
     (if sz \<le> 0 then Inr fs
      else case HasSpaceFor sz fs of
             Inl e \<Rightarrow> Inl e
           | Inr _ \<Rightarrow>
               (let fs = fs_add sz fs;
                    fs = fs\<lparr>reserved := wrap64 (reserved fs + sz)\<rparr>
                in if walking fs
                   then Inr (fs\<lparr>walkReserved := wrap64 (walkReserved fs + sz)\<rparr>)
                   else Inr fs))"

definition releaseDisk :: "int \<Rightarrow> int \<Rightarrow> filesystem \<Rightarrow> filesystem" where
  "releaseDisk res used fs =
     (let res = (if res < 0 then 0 else res);
          fs = fs\<lparr>reserved := wrap64 (reserved fs - res)\<rparr>;
          fs = (if walking fs
                then fs\<lparr>walkReserved := max (wrap64 (walkReserved fs - res)) 0\<rparr>
                else fs)
      in fs_add (wrap64 (used - res)) fs)"

definition adjustDisk :: "int \<Rightarrow> filesystem \<Rightarrow> int \<times> filesystem" where
  "adjustDisk sz fs =
     (if sz = 0 then (CachedUsage fs, fs)
      else (fst (quota_Add sz (unixFS fs)), fs_add sz fs))"

text \<open>
  \<^verbatim>\<open>walkDiskUsage\<close> holds \<^verbatim>\<open>mu\<close> only at its start and at its end; \<open>during\<close> is what other
  goroutines do to the filesystem while the directory is walked.
\<close>

definition walk_begin :: "filesystem \<Rightarrow> filesystem" where
  "walk_begin fs =
     fs\<lparr>lookupInProgress := True, walking := True, walkReserved := reserved fs\<rparr>"

definition walk_end :: "int \<Rightarrow> int \<Rightarrow> bool \<Rightarrow> filesystem \<Rightarrow> int \<times> filesystem" where
  "walk_end now sz failed fs =
     (let usage = wrap64 (sz + walkReserved fs);
          usage = (if failed then max usage (CachedUsage fs) else usage)
      in (usage,
          fs\<lparr>lastLookupTime := now,
             unixFS := snd (quota_SetUsage usage (unixFS fs)),
             walking := False,
             lookupInProgress := False\<rparr>))"

definition walkDiskUsage ::
  "int \<Rightarrow> (filesystem \<Rightarrow> filesystem) \<Rightarrow> int \<times> fs_error option \<Rightarrow> filesystem
   \<Rightarrow> (int \<times> fs_error option) \<times> filesystem" where
  "walkDiskUsage now during dirSize fs =
     (let (sz, err) = dirSize;
          (usage, fs') = walk_end now sz (err \<noteq> None) (during (walk_begin fs))
      in ((usage, err), fs'))"

definition lookup_fresh :: "int \<Rightarrow> filesystem \<Rightarrow> bool" where
  "lookup_fresh now fs \<longleftrightarrow> lastLookupTime fs > now + (1000000000 * diskCheckInterval fs * (- 1))"

definition refreshDiskUsage ::
  "int \<Rightarrow> (filesystem \<Rightarrow> filesystem) \<Rightarrow> int \<times> fs_error option \<Rightarrow> filesystem
   \<Rightarrow> (int \<times> fs_error option) \<times> filesystem" where
  "refreshDiskUsage now during dirSize fs =
     (if lookup_fresh now fs then ((CachedUsage fs, None), fs)
      else walkDiskUsage now during dirSize fs)"

definition updateCachedDiskUsage ::
  "int \<Rightarrow> (filesystem \<Rightarrow> filesystem) \<Rightarrow> int \<times> fs_error option \<Rightarrow> filesystem
   \<Rightarrow> (int \<times> fs_error option) \<times> filesystem" where
  "updateCachedDiskUsage now during dirSize fs = walkDiskUsage now during dirSize fs"

text \<open>
  The last component of the result says whether a background lookup was started; it
  runs \<open>refreshDiskUsage\<close> on its own goroutine.
\<close>

definition DiskUsage ::
  "int \<Rightarrow> (filesystem \<Rightarrow> filesystem) \<Rightarrow> int \<times> fs_error option \<Rightarrow> bool \<Rightarrow> filesystem
   \<Rightarrow> (int \<times> fs_error option) \<times> filesystem \<times> bool" where
  "DiskUsage now during dirSize allowStaleValue fs =
     (if diskCheckInterval fs = 0 then ((0, None), fs, False)
      else if \<not> lookup_fresh now fs then
        (if \<not> allowStaleValue then
           (let (r, fs') = refreshDiskUsage now during dirSize fs in (r, fs', False))
         else if \<not> lookupInProgress fs then
           ((CachedUsage fs, None), fs\<lparr>lookupInProgress := True\<rparr>, True)
         else ((CachedUsage fs, None), fs, False))
      else ((CachedUsage fs, None), fs, False))"

definition HasSpaceAvailable ::
  "int \<Rightarrow> (filesystem \<Rightarrow> filesystem) \<Rightarrow> int \<times> fs_error option \<Rightarrow> bool \<Rightarrow> filesystem
   \<Rightarrow> bool \<times> filesystem" where
  "HasSpaceAvailable now during dirSize allowStaleValue fs =
     (let ((sz, err), fs', bg) = DiskUsage now during dirSize allowStaleValue fs
      in if MaxDisk fs' = 0 then (True, fs') else (sz \<le> MaxDisk fs', fs'))"

definition HasSpaceErr ::
  "int \<Rightarrow> (filesystem \<Rightarrow> filesystem) \<Rightarrow> int \<times> fs_error option \<Rightarrow> bool \<Rightarrow> filesystem
   \<Rightarrow> (fs_error + unit) \<times> filesystem" where
  "HasSpaceErr now during dirSize allowStaleValue fs =
     (let (ok, fs') = HasSpaceAvailable now during dirSize allowStaleValue fs
      in (if \<not> ok then Inl E_NODISK else Inr (), fs'))"

section \<open>The ledger of outstanding reservations\<close>

text \<open>
  Writers run concurrently: each reserves space, writes, and releases its reservation
  once. The state of the ledger is the filesystem together with the multiset of the
  reservations that have not been released. A walk of the disk starts and ends
  anywhere in between, and deletions, limit changes and truncations change the quota
  itself at any time.
\<close>

record disk_sys =
  d_fs :: filesystem
  d_active :: "int multiset"

inductive disk_step :: "disk_sys \<Rightarrow> disk_sys \<Rightarrow> bool" where
  ds_reserve: "n > 0 \<Longrightarrow> reserveDisk n (d_fs s) = Inr fs' \<Longrightarrow>
     disk_step s \<lparr>d_fs = fs', d_active = add_mset n (d_active s)\<rparr>"
| ds_release: "r \<in># d_active s \<Longrightarrow>
     disk_step s \<lparr>d_fs = releaseDisk r used (d_fs s), d_active = d_active s - {#r#}\<rparr>"
| ds_walk_begin: "\<not> walking (d_fs s) \<Longrightarrow>
     disk_step s \<lparr>d_fs = walk_begin (d_fs s), d_active = d_active s\<rparr>"
| ds_walk_end: "walking (d_fs s) \<Longrightarrow>
     disk_step s \<lparr>d_fs = snd (walk_end now sz failed (d_fs s)), d_active = d_active s\<rparr>"
| ds_quota: "disk_step s \<lparr>d_fs = (d_fs s)\<lparr>unixFS := q\<rparr>, d_active = d_active s\<rparr>"

inductive_cases disk_stepE: "disk_step s t"

text \<open>The bytes reserved at one time stay below \<open>2 ^ 63\<close>.\<close>

definition bounded_step :: "disk_sys \<Rightarrow> disk_sys \<Rightarrow> bool" where
  "bounded_step s t \<longleftrightarrow> disk_step s t \<and> sum_mset (d_active t) \<le> max_i64"

definition disk_init :: "disk_sys \<Rightarrow> bool" where
  "disk_init s \<longleftrightarrow> reserved (d_fs s) = 0 \<and> \<not> walking (d_fs s) \<and> d_active s = {#}"

definition ledger_inv :: "disk_sys \<Rightarrow> bool" where
  "ledger_inv s \<longleftrightarrow>
     reserved (d_fs s) = sum_mset (d_active s) \<and> (\<forall>r \<in># d_active s. 0 < r) \<and>
     (walking (d_fs s) \<longrightarrow> walkReserved (d_fs s) = reserved (d_fs s))"

section \<open>Lemmas on the quota\<close>

text \<open>
  Reference definition: \<^verbatim>\<open>Add\<close> adds with saturation, at the largest \<^verbatim>\<open>int64\<close> above and
  at zero below.
\<close>

definition sat_add :: "int \<Rightarrow> int \<Rightarrow> int" where
  "sat_add usage i =
     (if i > 0 then min max_i64 (usage + i) else if i < 0 then max 0 (usage + i) else usage)"

lemma quota_add_next_sat:
  assumes "in_i64 u" "in_i64 i" "i \<noteq> 0"
  shows "quota_add_next i u = Some (sat_add u i)"
proof (cases "i > 0")
  case True
  with assms have "in_i64 (max_i64 - i)" by (simp add: in_i64_def min_i64_def max_i64_def)
  moreover have "u \<le> max_i64 - i \<Longrightarrow> in_i64 (u + i)"
    using assms True by (simp add: in_i64_def min_i64_def max_i64_def)
  ultimately show ?thesis
    using True by (auto simp: quota_add_next_def sat_add_def wrap64_id)
next
  case False
  with assms have i: "i < 0" by simp
  show ?thesis
  proof (cases "i = min_i64")
    case True
    with assms i show ?thesis
      by (simp add: quota_add_next_def sat_add_def in_i64_def min_i64_def max_i64_def)
  next
    case False
    with assms i have "in_i64 (- i)" by (simp add: in_i64_def min_i64_def max_i64_def)
    moreover have "- i < u \<Longrightarrow> in_i64 (u + i)"
      using assms i by (simp add: in_i64_def min_i64_def max_i64_def)
    ultimately show ?thesis
      using i False by (auto simp: quota_add_next_def sat_add_def wrap64_id)
  qed
qed

lemma quota_Add_limit [simp]: "q_limit (snd (quota_Add_loop ws i q)) = q_limit q"
  by (induction ws i q rule: quota_Add_loop.induct) (auto split: option.splits)

lemma quota_Add_limit' [simp]: "q_limit (snd (quota_Add i q)) = q_limit q"
  by (simp add: quota_Add_def del: quota_Add_loop.simps)

lemma quota_add_next_0 [simp]: "quota_add_next 0 u = None"
  by (simp add: quota_add_next_def)

lemma quota_Add_usage:
  assumes "in_i64 (q_usage q)" "in_i64 i"
  shows "q_usage (snd (quota_Add i q)) = sat_add (q_usage q) i"
proof (cases "i = 0")
  case True
  then show ?thesis by (simp add: quota_Add_def sat_add_def)
next
  case False
  with assms show ?thesis by (simp add: quota_Add_def quota_add_next_sat)
qed

lemma fst_quota_Add [simp]: "fst (quota_Add i q) = q_usage (snd (quota_Add i q))"
  by (simp add: quota_Add_def split: option.splits)

lemma sat_add_in_i64 [simp]: "in_i64 u \<Longrightarrow> in_i64 i \<Longrightarrow> in_i64 (sat_add u i)"
  by (auto simp: sat_add_def in_i64_def min_i64_def max_i64_def)

lemma CanFit_bounded:
  assumes "CanFit n q" "n > 0" "q_limit q > 0" "0 \<le> q_usage q" "in_i64 (q_limit q)" "in_i64 (q_usage q)"
  shows "q_usage q + n \<le> q_limit q"
proof -
  from assms have "in_i64 (q_limit q - q_usage q)"
    by (simp add: in_i64_def min_i64_def max_i64_def)
  with assms show ?thesis by (auto simp: CanFit_def wrap64_id split: if_splits)
qed

section \<open>Lemmas on reservations\<close>

lemma fs_add_simps [simp]:
  "reserved (fs_add i fs) = reserved fs" "walking (fs_add i fs) = walking fs"
  "walkReserved (fs_add i fs) = walkReserved fs"
  "unixFS (fs_add i fs) = snd (quota_Add i (unixFS fs))"
  by (simp_all add: fs_add_def)

lemma HasSpaceFor_Inr_iff [res_iffs]: "HasSpaceFor n fs = Inr u \<longleftrightarrow> CanFit n (unixFS fs)"
  by (simp add: HasSpaceFor_def)

lemma reserveDisk_nonpos [simp]: "n \<le> 0 \<Longrightarrow> reserveDisk n fs = Inr fs"
  by (simp add: reserveDisk_def)

lemma reserveDisk_Inl_iff: "reserveDisk n fs = Inl e \<longleftrightarrow> n > 0 \<and> \<not> CanFit n (unixFS fs) \<and> e = E_NODISK"
  by (auto simp: reserveDisk_def HasSpaceFor_def Let_def)

lemma reserveDisk_InrD:
  assumes "reserveDisk n fs = Inr fs'" "n > 0"
  shows "CanFit n (unixFS fs)" "unixFS fs' = snd (quota_Add n (unixFS fs))"
    "reserved fs' = wrap64 (reserved fs + n)" "walking fs' = walking fs"
    "walkReserved fs' = (if walking fs then wrap64 (walkReserved fs + n) else walkReserved fs)"
  using assms by (auto simp: reserveDisk_def HasSpaceFor_def Let_def split: if_splits)

lemma releaseDisk_simps [simp]:
  "reserved (releaseDisk r u fs) = wrap64 (reserved fs - max r 0)"
  "walking (releaseDisk r u fs) = walking fs"
  "walkReserved (releaseDisk r u fs) =
     (if walking fs then max (wrap64 (walkReserved fs - max r 0)) 0 else walkReserved fs)"
  "unixFS (releaseDisk r u fs) = snd (quota_Add (wrap64 (u - max r 0)) (unixFS fs))"
  by (auto simp: releaseDisk_def Let_def max_def)

lemma walk_begin_simps [simp]:
  "reserved (walk_begin fs) = reserved fs" "walking (walk_begin fs)"
  "walkReserved (walk_begin fs) = reserved fs" "unixFS (walk_begin fs) = unixFS fs"
  by (simp_all add: walk_begin_def)

lemma walk_end_simps [simp]:
  "reserved (snd (walk_end now sz failed fs)) = reserved fs"
  "\<not> walking (snd (walk_end now sz failed fs))"
  by (simp_all add: walk_end_def Let_def)

lemma walk_end_usage:
  "q_usage (unixFS (snd (walk_end now sz failed fs))) =
     (let u = wrap64 (sz + walkReserved fs) in if failed then max u (CachedUsage fs) else u)"
  by (simp add: walk_end_def quota_SetUsage_def Let_def)

lemma sum_mset_pos_ge: "(\<forall>r \<in># M. 0 < r) \<Longrightarrow> x \<in># M \<Longrightarrow> (x::int) \<le> sum_mset M"
proof (induction M)
  case empty
  then show ?case by simp
next
  case (add y M)
  have "0 \<le> sum_mset M" using add.prems(1) by (induction M) auto
  moreover have "0 < y" using add.prems(1) by simp
  moreover have "x = y \<or> x \<le> sum_mset M" using add by auto
  ultimately show ?case by auto
qed

lemma sum_mset_nonneg_pos: "(\<forall>r \<in># M. 0 < r) \<Longrightarrow> 0 \<le> (sum_mset M :: int)"
  by (induction M) auto

lemma bounded_step_ledger_inv: "bounded_step s t \<Longrightarrow> ledger_inv s \<Longrightarrow> ledger_inv t"
  unfolding bounded_step_def
proof (elim conjE disk_stepE)
  fix n fs' assume inv: "ledger_inv s" and bound: "sum_mset (d_active t) \<le> max_i64"
    and n: "0 < n" and r: "reserveDisk n (d_fs s) = Inr fs'"
    and t: "t = \<lparr>d_fs = fs', d_active = add_mset n (d_active s)\<rparr>"
  have "in_i64 (sum_mset (d_active s) + n)"
    using inv bound n t sum_mset_nonneg_pos [of "d_active s"]
    by (simp add: ledger_inv_def in_i64_def min_i64_def)
  with inv n reserveDisk_InrD [OF r n] t show "ledger_inv t"
    by (simp add: ledger_inv_def wrap64_id)
next
  fix r used assume inv: "ledger_inv s" and r: "r \<in># d_active s"
    and bound: "sum_mset (d_active t) \<le> max_i64"
    and t: "t = \<lparr>d_fs = releaseDisk r used (d_fs s), d_active = d_active s - {#r#}\<rparr>"
  have pos: "0 < r" "r \<le> sum_mset (d_active s)"
    using inv r sum_mset_pos_ge [of "d_active s" r] by (auto simp: ledger_inv_def)
  have diff: "sum_mset (d_active s - {#r#}) = sum_mset (d_active s) - r"
    using r by (simp add: sum_mset_diff)
  have "in_i64 (sum_mset (d_active s) - r)"
    using pos bound t diff by (simp add: in_i64_def min_i64_def)
  with inv pos diff t show "ledger_inv t"
    by (auto simp: ledger_inv_def wrap64_id dest: in_diffD)
qed (auto simp: ledger_inv_def)

interpretation ledger: step_relation bounded_step ledger_inv
  by unfold_locales (rule bounded_step_ledger_inv)

lemma disk_init_inv: "disk_init s \<Longrightarrow> ledger_inv s"
  by (simp add: disk_init_def ledger_inv_def)

section \<open>Writers and deletions against the limit\<close>

text \<open>
  The calls writers and deletions make on the accounting, in any interleaving: a
  reservation that is granted or refused, the release of a reservation, and the removal
  of a file.
\<close>

datatype disk_event = EReserve int | ERelease int int | ERemove int "fs_error + file_info"

fun disk_event_step :: "filesystem \<Rightarrow> disk_event \<Rightarrow> filesystem" where
  "disk_event_step fs (EReserve n) = (case reserveDisk n fs of Inl _ \<Rightarrow> fs | Inr fs' \<Rightarrow> fs')"
| "disk_event_step fs (ERelease r used) = releaseDisk r used fs"
| "disk_event_step fs (ERemove flags st) = fs\<lparr>unixFS := quota_unlinkat flags st (unixFS fs)\<rparr>"

text \<open>A writer uses at most what it reserved; sizes of files are not negative.\<close>

fun disk_event_ok :: "filesystem \<Rightarrow> disk_event \<Rightarrow> bool" where
  "disk_event_ok fs (EReserve n) \<longleftrightarrow> in_i64 n"
| "disk_event_ok fs (ERelease r used) \<longleftrightarrow> 0 \<le> r \<and> in_i64 r \<and> used \<le> r \<and> in_i64 (used - r)"
| "disk_event_ok fs (ERemove flags st) \<longleftrightarrow>
     (case st of Inl _ \<Rightarrow> True | Inr i \<Rightarrow> 0 \<le> fi_size i \<and> in_i64 (fi_size i))"

definition within_limit :: "filesystem \<Rightarrow> bool" where
  "within_limit fs \<longleftrightarrow> in_i64 (MaxDisk fs) \<and> 0 < MaxDisk fs \<and> 0 \<le> CachedUsage fs \<and> CachedUsage fs \<le> MaxDisk fs"

lemma within_limit_usage_i64: "within_limit fs \<Longrightarrow> in_i64 (CachedUsage fs)"
  by (simp add: within_limit_def in_i64_def min_i64_def)

lemma quota_Add_nonpos_usage:
  assumes "in_i64 (q_usage q)" "0 \<le> q_usage q" "in_i64 i" "i \<le> 0"
  shows "0 \<le> q_usage (snd (quota_Add i q))" "q_usage (snd (quota_Add i q)) \<le> q_usage q"
  using assms by (auto simp: quota_Add_usage sat_add_def)

lemma within_limit_add_nonpos:
  assumes "within_limit fs" "in_i64 i" "i \<le> 0"
  shows "within_limit (fs\<lparr>unixFS := snd (quota_Add i (unixFS fs))\<rparr>)"
  using assms quota_Add_nonpos_usage [of "unixFS fs" i] within_limit_usage_i64 [OF assms(1)]
  by (simp add: within_limit_def MaxDisk_def CachedUsage_def)

lemma reserveDisk_usage:
  assumes "within_limit fs" "reserveDisk n fs = Inr fs'" "n > 0" "in_i64 n"
  shows "CachedUsage fs' = CachedUsage fs + n" "CachedUsage fs + n \<le> MaxDisk fs"
    "MaxDisk fs' = MaxDisk fs"
proof -
  note f = reserveDisk_InrD [OF assms(2,3)]
  have u: "in_i64 (q_usage (unixFS fs))"
    using within_limit_usage_i64 [OF assms(1)] by (simp add: CachedUsage_def)
  show le: "CachedUsage fs + n \<le> MaxDisk fs"
    using CanFit_bounded [OF f(1) assms(3)] assms(1) u
    by (simp add: within_limit_def MaxDisk_def CachedUsage_def)
  show "MaxDisk fs' = MaxDisk fs" by (simp add: MaxDisk_def f)
  have "q_usage (unixFS fs) + n \<le> max_i64"
    using le assms(1) by (simp add: within_limit_def in_i64_def MaxDisk_def CachedUsage_def)
  then show "CachedUsage fs' = CachedUsage fs + n"
    using u assms(3,4) by (simp add: CachedUsage_def f quota_Add_usage sat_add_def)
qed

lemma within_limit_event:
  assumes "within_limit fs" "disk_event_ok fs e"
  shows "within_limit (disk_event_step fs e)"
proof (cases e)
  case (EReserve n)
  show ?thesis
  proof (cases "reserveDisk n fs")
    case (Inl a)
    then show ?thesis using EReserve assms by simp
  next
    case (Inr fs')
    show ?thesis
    proof (cases "n > 0")
      case True
      with Inr EReserve assms reserveDisk_usage [OF assms(1) Inr True] show ?thesis
        by (simp add: within_limit_def)
    next
      case False
      with Inr EReserve assms show ?thesis by simp
    qed
  qed
next
  case (ERelease r used)
  have "unixFS (disk_event_step fs e) = snd (quota_Add (used - r) (unixFS fs))"
    using ERelease assms by (simp add: max_absorb1 wrap64_id)
  with within_limit_add_nonpos [OF assms(1), of "used - r"] ERelease assms(2) show ?thesis
    by (simp add: within_limit_def MaxDisk_def CachedUsage_def)
next
  case (ERemove flags st)
  have "in_i64 (- freedBy i)" "- freedBy i \<le> 0" if "st = Inr i" for i
    using that ERemove assms(2)
    by (auto simp: freedBy_def in_i64_def min_i64_def max_i64_def split: option.splits)
  with within_limit_add_nonpos [OF assms(1)] ERemove assms(1) show ?thesis
    by (auto simp: quota_unlinkat_def wrap64_id split: sum.splits)
qed

lemma MaxDisk_event [simp]: "MaxDisk (disk_event_step fs e) = MaxDisk fs"
  by (cases e)
    (auto simp: MaxDisk_def quota_unlinkat_def reserveDisk_def HasSpaceFor_def Let_def split: sum.splits)

interpretation writers: step_system disk_event_step disk_event_ok within_limit
  by unfold_locales (rule within_limit_event)

section \<open>The interface the writers rely on\<close>

text \<open>
  A writer sees the accounting through two calls: a reservation, and the release that
  replaces it by what was really used. Every writer of the next theory is verified
  against these laws.
\<close>

locale disk_account =
  fixes ok :: "'s \<Rightarrow> bool"
    and usage :: "'s \<Rightarrow> int"
    and outstanding :: "'s \<Rightarrow> int"
    and reserve :: "int \<Rightarrow> 's \<Rightarrow> 'e + 's"
    and release :: "int \<Rightarrow> int \<Rightarrow> 's \<Rightarrow> 's"
  assumes reserve_law: "ok s \<Longrightarrow> n > 0 \<Longrightarrow> in_i64 n \<Longrightarrow> reserve n s = Inr t \<Longrightarrow>
      ok t \<and> usage t = usage s + n \<and> outstanding t = wrap64 (outstanding s + n)"
    and reserve_none: "n \<le> 0 \<Longrightarrow> reserve n s = Inr s"
    and release_law: "ok s \<Longrightarrow> 0 \<le> r \<Longrightarrow> u \<le> r \<Longrightarrow> in_i64 (u - r) \<Longrightarrow> 0 \<le> usage s + u - r \<Longrightarrow>
      ok (release r u s) \<and> usage (release r u s) = usage s + u - r \<and>
      outstanding (release r u s) = wrap64 (outstanding s - r)"
begin

lemma reserve_release:
  assumes "ok s" "in_i64 n" "in_i64 (outstanding s)" "reserve n s = Inr t"
    "u \<le> max n 0" "in_i64 (u - max n 0)" "0 \<le> usage s + u"
  shows "ok (release (max n 0) u t)" "usage (release (max n 0) u t) = usage s + u"
    "outstanding (release (max n 0) u t) = outstanding s"
proof -
  have t: "ok t \<and> usage t = usage s + max n 0 \<and> wrap64 (outstanding t - max n 0) = outstanding s"
  proof (cases "n > 0")
    case True
    with reserve_law [OF assms(1) True assms(2,4)] assms(3) show ?thesis by (simp add: wrap64_id)
  next
    case False
    with assms reserve_none [of n s] show ?thesis by (simp add: wrap64_id)
  qed
  with release_law [of t "max n 0" u] assms(5-7)
  show "ok (release (max n 0) u t)" "usage (release (max n 0) u t) = usage s + u"
    "outstanding (release (max n 0) u t) = outstanding s" by simp_all
qed

end

lemma release_usage:
  assumes "within_limit fs" "0 \<le> r" "used \<le> r" "in_i64 (used - r)" "0 \<le> CachedUsage fs + used - r"
  shows "CachedUsage (releaseDisk r used fs) = CachedUsage fs + used - r"
  using assms within_limit_usage_i64 [OF assms(1)]
  by (simp add: CachedUsage_def max_absorb1 wrap64_id quota_Add_usage sat_add_def)

interpretation acct: disk_account within_limit CachedUsage reserved reserveDisk releaseDisk
proof
  fix fs fs' n assume a: "within_limit fs" "n > 0" "in_i64 n" "reserveDisk n fs = Inr fs'"
  have "within_limit fs'" using within_limit_event [of fs "EReserve n"] a by simp
  then show "within_limit fs' \<and> CachedUsage fs' = CachedUsage fs + n \<and> reserved fs' = wrap64 (reserved fs + n)"
    using reserveDisk_usage [OF a(1,4,2,3)] reserveDisk_InrD [OF a(4,2)] by simp
next
  fix fs :: filesystem and r u
  assume a: "within_limit fs" "0 \<le> r" "u \<le> r" "in_i64 (u - r)" "0 \<le> CachedUsage fs + u - r"
  note usage = release_usage [OF a]
  have "CachedUsage (releaseDisk r u fs) \<le> MaxDisk fs"
    using usage a by (simp add: within_limit_def)
  moreover have "MaxDisk (releaseDisk r u fs) = MaxDisk fs" by (simp add: MaxDisk_def)
  ultimately show "within_limit (releaseDisk r u fs) \<and> CachedUsage (releaseDisk r u fs) = CachedUsage fs + u - r \<and>
      reserved (releaseDisk r u fs) = wrap64 (reserved fs - r)"
    using usage a by (simp add: within_limit_def max_absorb1)
qed simp

section \<open>Properties\<close>

text \<open>
  C1. Concurrent writers cannot share the space that is left: from a usage within the
  limit, after any interleaving of reservations (granted or refused), releases of
  writers that used at most what they reserved, and removals of files, the tracked usage
  is still between zero and the limit, and the limit is unchanged.
\<close>

theorem writers_never_exceed_limit:
  assumes "within_limit fs" and "allowed_run disk_event_step disk_event_ok fs es"
  shows "0 \<le> CachedUsage (foldl disk_event_step fs es) \<and>
    CachedUsage (foldl disk_event_step fs es) \<le> MaxDisk fs \<and>
    MaxDisk (foldl disk_event_step fs es) = MaxDisk fs"
proof -
  have "MaxDisk (foldl disk_event_step fs es) = MaxDisk fs" for fs
    by (induction es arbitrary: fs) auto
  with writers.run_keeps [OF assms] show ?thesis by (simp add: within_limit_def)
qed

definition fs100 :: filesystem where
  "fs100 = \<lparr>unixFS = \<lparr>q_limit = 100, q_usage = 40\<rparr>, reserved = 0, walking = False,
            walkReserved = 0, lastLookupTime = 0, lookupInProgress = False, diskCheckInterval = 150\<rparr>"

theorem writers_never_exceed_limit_witness:
  "CachedUsage (foldl disk_event_step fs100
     [EReserve 50, EReserve 20, ERemove 0 (Inr \<lparr>fi_regular = True, fi_nlink = Some 1, fi_size = 15\<rparr>),
      EReserve 25, ERelease 50 30]) \<le> 100"
proof -
  have "within_limit fs100" by code_simp
  moreover have "allowed_run disk_event_step disk_event_ok fs100
     [EReserve 50, EReserve 20, ERemove 0 (Inr \<lparr>fi_regular = True, fi_nlink = Some 1, fi_size = 15\<rparr>),
      EReserve 25, ERelease 50 30]" by code_simp
  moreover have "MaxDisk fs100 = 100" by (simp add: fs100_def MaxDisk_def)
  ultimately show ?thesis using writers_never_exceed_limit by metis
qed

text \<open>
  C4. A walk of the disk counts the writes that are still in progress: in every state
  reachable from an idle filesystem by reservations, releases, walks and arbitrary
  changes of the quota, the end of a successful walk that measured \<open>sz\<close> bytes sets the
  usage to \<open>sz\<close> plus exactly the reservations that are outstanding at that moment, and
  the end of a failed walk never lowers the usage.
\<close>

theorem walk_counts_outstanding_writes:
  assumes "disk_init s0" and "rtranclp bounded_step s0 s" and "walking (d_fs s)"
    and "in_i64 (sz + sum_mset (d_active s))"
  shows "CachedUsage (snd (walk_end now sz False (d_fs s))) = sz + sum_mset (d_active s) \<and>
    CachedUsage (d_fs s) \<le> CachedUsage (snd (walk_end now sz True (d_fs s))) \<and>
    sz + sum_mset (d_active s) \<le> CachedUsage (snd (walk_end now sz True (d_fs s)))"
  using ledger.reach_keeps [OF assms(2) disk_init_inv [OF assms(1)]] assms(3,4)
  by (simp add: CachedUsage_def walk_end_usage ledger_inv_def wrap64_id)

theorem walk_counts_outstanding_writes_witness:
  "\<exists>s :: disk_sys. d_active s = {#30#} \<and> walking (d_fs s) \<and>
       CachedUsage (snd (walk_end 7 40 False (d_fs s))) = 70"
proof -
  let ?s0 = "\<lparr>d_fs = fs100, d_active = {#}\<rparr>"
  let ?s1 = "\<lparr>d_fs = walk_begin fs100, d_active = {#}\<rparr>"
  obtain fs2 where fs2: "reserveDisk 30 (walk_begin fs100) = Inr fs2"
    by (cases "reserveDisk 30 (walk_begin fs100)")
      (auto simp: reserveDisk_Inl_iff CanFit_def fs100_def wrap64_def)
  let ?s2 = "\<lparr>d_fs = fs2, d_active = {#30#}\<rparr>"
  have "bounded_step ?s0 ?s1"
    using ds_walk_begin [of ?s0] by (simp add: bounded_step_def max_i64_def fs100_def)
  moreover have "bounded_step ?s1 ?s2"
    using ds_reserve [of 30 ?s1 fs2] fs2 by (simp add: bounded_step_def max_i64_def)
  ultimately have reach: "rtranclp bounded_step ?s0 ?s2"
    by (meson converse_rtranclp_into_rtranclp rtranclp.rtrancl_refl)
  have init: "disk_init ?s0" by (simp add: disk_init_def fs100_def)
  have w: "walking (d_fs ?s2)" using reserveDisk_InrD(4) [OF fs2] by simp
  have "in_i64 (40 + sum_mset (d_active ?s2))" by (simp add: in_i64_def min_i64_def max_i64_def)
  from walk_counts_outstanding_writes [OF init reach w this, of 7] w show ?thesis
    by (intro exI [of _ ?s2]) simp
qed

text \<open>
  C25. The compare-and-swap loop of \<^verbatim>\<open>Add\<close> loses no update: whatever other goroutines store
  between its attempts (\<open>ws\<close>), it ends in an attempt \<open>k\<close> whose loaded value is still the
  stored value at the moment of the swap, every earlier attempt having been disturbed, and
  it stores the saturating sum of that value and \<open>i\<close>.
\<close>

theorem quota_Add_linearizable:
  assumes "i \<noteq> 0" "in_i64 i" "\<forall>u \<in> set (q_usage q # ws). in_i64 u"
  shows "\<exists>k \<le> length ws.
    (\<forall>j < k. ws ! j \<noteq> (q_usage q # ws) ! j) \<and> (k < length ws \<longrightarrow> ws ! k = (q_usage q # ws) ! k) \<and>
    quota_Add_loop ws i q =
      (sat_add ((q_usage q # ws) ! k) i, q\<lparr>q_usage := sat_add ((q_usage q # ws) ! k) i\<rparr>)"
  using assms
proof (induction ws arbitrary: q)
  case Nil
  then show ?case by (simp add: quota_add_next_sat)
next
  case (Cons w ws)
  show ?case
  proof (cases "w = q_usage q")
    case True
    with Cons.prems show ?thesis by (intro exI [of _ 0]) (simp add: quota_add_next_sat)
  next
    case False
    from Cons.IH [of "q\<lparr>q_usage := w\<rparr>"] Cons.prems obtain k where k: "k \<le> length ws"
      "\<forall>j < k. ws ! j \<noteq> (w # ws) ! j" "k < length ws \<longrightarrow> ws ! k = (w # ws) ! k"
      "quota_Add_loop ws i (q\<lparr>q_usage := w\<rparr>) =
         (sat_add ((w # ws) ! k) i, q\<lparr>q_usage := sat_add ((w # ws) ! k) i\<rparr>)"
      by auto
    have "(w # ws) ! j \<noteq> (q_usage q # w # ws) ! j" if "j < Suc k" for j
      using that k(2) False by (cases j) auto
    with k False Cons.prems show ?thesis
      by (intro exI [of _ "Suc k"]) (simp add: quota_add_next_sat)
  qed
qed

theorem quota_Add_linearizable_witness:
  "\<exists>k \<le> 3. (\<forall>j < k. [5, 7, 7] ! j \<noteq> [3, 5, 7, 7 :: int] ! j) \<and> (k < 3 \<longrightarrow> [5, 7, 7] ! k = [3, 5, 7, 7 :: int] ! k) \<and>
     fst (quota_Add_loop [5, 7, 7] (-6) \<lparr>q_limit = 9, q_usage = 3\<rparr>) = sat_add ([3, 5, 7, 7] ! k) (-6)"
proof -
  let ?q = "\<lparr>q_limit = 9, q_usage = 3\<rparr>"
  have i: "(-6 :: int) \<noteq> 0" "in_i64 (-6)" "\<forall>u \<in> set (q_usage ?q # [5, 7, 7]). in_i64 u"
    by (simp_all add: in_i64_def min_i64_def max_i64_def)
  let ?m = "q_usage ?q # [5, 7, 7]"
  from quota_Add_linearizable [OF i] obtain k where k: "k \<le> length [5, 7, 7 :: int]"
    "\<forall>j < k. [5, 7, 7] ! j \<noteq> ?m ! j" "k < length [5, 7, 7 :: int] \<longrightarrow> [5, 7, 7] ! k = ?m ! k"
    "quota_Add_loop [5, 7, 7] (-6) ?q = (sat_add (?m ! k) (-6), ?q\<lparr>q_usage := sat_add (?m ! k) (-6)\<rparr>)"
    by blast
  have "k < 3 \<longrightarrow> [5, 7, 7] ! k = ?m ! k" using k(3) by (simp add: numeral_3_eq_3)
  with k(1,2,4) show ?thesis by (intro exI [of _ k] conjI) simp_all
qed

end
