(* ===== verification/Go_Strings.thy ===== *)
theory Go_Strings
  imports Wings_Prelude
begin

text \<open>
  What the components use of Go's \<^verbatim>\<open>strings\<close>, \<^verbatim>\<open>path\<close>, \<^verbatim>\<open>io/fs\<close> and \<^verbatim>\<open>unicode/utf8\<close>
  packages. A Go string is the list of its bytes, a value of type \<open>string\<close>. The lemmas
  relate a path to the list of its components; they are what the sandbox, the file
  routes and the upload routes are verified with.
\<close>

section \<open>Splitting, joining and trimming\<close>

fun split_on :: "'a \<Rightarrow> 'a list \<Rightarrow> 'a list list" where
  "split_on c [] = [[]]"
| "split_on c (x # xs) =
     (if x = c then [] # split_on c xs
      else (case split_on c xs of [] \<Rightarrow> [[x]] | p # ps \<Rightarrow> (x # p) # ps))"

fun join_on :: "'a \<Rightarrow> 'a list list \<Rightarrow> 'a list" where
  "join_on c [] = []"
| "join_on c [p] = p"
| "join_on c (p # q # ps) = p @ c # join_on c (q # ps)"

definition TrimPrefix :: "'a list \<Rightarrow> 'a list \<Rightarrow> 'a list" where
  "TrimPrefix s p = (if prefix p s then drop (length p) s else s)"

definition TrimSuffix :: "'a list \<Rightarrow> 'a list \<Rightarrow> 'a list" where
  "TrimSuffix s p = (if suffix p s then take (length s - length p) s else s)"

definition TrimLeft :: "'a list \<Rightarrow> 'a \<Rightarrow> 'a list" where
  "TrimLeft s c = dropWhile (\<lambda>x. x = c) s"

definition TrimRight :: "'a list \<Rightarrow> 'a \<Rightarrow> 'a list" where
  "TrimRight s c = rev (dropWhile (\<lambda>x. x = c) (rev s))"

definition Trim :: "'a list \<Rightarrow> 'a \<Rightarrow> 'a list" where
  "Trim s c = TrimRight (TrimLeft s c) c"

lemma split_on_ne [simp]: "split_on c s \<noteq> []"
  by (cases s) (auto split: list.splits)

lemma split_on_notin: "p \<in> set (split_on c s) \<Longrightarrow> c \<notin> set p"
proof (induction s arbitrary: p)
  case (Cons x xs)
  then show ?case by (cases "split_on c xs") (auto split: if_splits)
qed simp

lemma join_split [simp]: "join_on c (split_on c s) = s"
proof (induction s)
  case (Cons x xs)
  then show ?case
    by (cases "split_on c xs"; cases "tl (split_on c xs)") auto
qed simp

lemma split_on_none: "c \<notin> set p \<Longrightarrow> split_on c p = [p]"
  by (induction p) auto

lemma split_on_append: "split_on c (a @ c # b) = split_on c a @ split_on c b"
  by (induction a) (auto split: list.splits)

lemma split_join: "ps \<noteq> [] \<Longrightarrow> \<forall>p \<in> set ps. c \<notin> set p \<Longrightarrow> split_on c (join_on c ps) = ps"
  by (induction c ps rule: join_on.induct) (auto simp: split_on_none split_on_append)

lemma join_on_append: "ps \<noteq> [] \<Longrightarrow> qs \<noteq> [] \<Longrightarrow> join_on c (ps @ qs) = join_on c ps @ c # join_on c qs"
proof (induction c ps rule: join_on.induct)
  case (2 c p)
  then show ?case by (cases qs) auto
qed auto

lemma TrimPrefix_append [simp]: "TrimPrefix (p @ s) p = s"
  by (simp add: TrimPrefix_def)

lemma TrimPrefix_not: "\<not> prefix p s \<Longrightarrow> TrimPrefix s p = s"
  by (simp add: TrimPrefix_def)

lemma set_TrimPrefix: "set (TrimPrefix s p) \<subseteq> set s"
  by (auto simp: TrimPrefix_def dest: in_set_dropD)

lemma TrimLeft_head: "TrimLeft s c = x # xs \<Longrightarrow> x \<noteq> c"
  by (auto simp: TrimLeft_def dropWhile_eq_Cons_conv)

section \<open>UTF-8\<close>

definition byte_of :: "char \<Rightarrow> nat" where
  "byte_of c = of_char c"

definition utf8_cont :: "nat \<Rightarrow> bool" where
  "utf8_cont b \<longleftrightarrow> 128 \<le> b \<and> b \<le> 191"

text \<open>\<^verbatim>\<open>utf8.Valid\<close>: no overlong form, no surrogate, nothing above U+10FFFF.\<close>

fun utf8_valid :: "nat list \<Rightarrow> bool" where
  "utf8_valid [] = True"
| "utf8_valid (b # bs) =
     (if b < 128 then utf8_valid bs
      else if 194 \<le> b \<and> b \<le> 223 then
        (case bs of b1 # bs' \<Rightarrow> utf8_cont b1 \<and> utf8_valid bs' | _ \<Rightarrow> False)
      else if 224 \<le> b \<and> b \<le> 239 then
        (case bs of
           b1 # b2 # bs' \<Rightarrow>
             utf8_cont b1 \<and> (b = 224 \<longrightarrow> 160 \<le> b1) \<and> (b = 237 \<longrightarrow> b1 \<le> 159) \<and> utf8_cont b2 \<and> utf8_valid bs'
         | _ \<Rightarrow> False)
      else if 240 \<le> b \<and> b \<le> 244 then
        (case bs of
           b1 # b2 # b3 # bs' \<Rightarrow>
             utf8_cont b1 \<and> (b = 240 \<longrightarrow> 144 \<le> b1) \<and> (b = 244 \<longrightarrow> b1 \<le> 143) \<and> utf8_cont b2 \<and> utf8_cont b3 \<and>
             utf8_valid bs'
         | _ \<Rightarrow> False)
      else False)"

text \<open>The width of the first rune; an invalid byte is one rune.\<close>

definition rune_width :: "nat list \<Rightarrow> nat" where
  "rune_width bs =
     (if utf8_valid (take 1 bs) then 1
      else if length bs \<ge> 2 \<and> utf8_valid (take 2 bs) then 2
      else if length bs \<ge> 3 \<and> utf8_valid (take 3 bs) then 3
      else if length bs \<ge> 4 \<and> utf8_valid (take 4 bs) then 4
      else 1)"

function rune_count :: "nat list \<Rightarrow> nat" where
  "rune_count bs = (if bs = [] then 0 else 1 + rune_count (drop (rune_width bs) bs))"
  by pat_completeness auto
termination by (relation "measure length") (auto simp: rune_width_def)

declare rune_count.simps [simp del]

text \<open>\<^verbatim>\<open>[]rune(s)\<close>: the decoded code points, with U+FFFD for a byte that starts no valid sequence.\<close>

definition rune_value :: "nat list \<Rightarrow> nat" where
  "rune_value bs =
     (case bs of
        [b] \<Rightarrow> if b < 128 then b else 65533
      | [b, b1] \<Rightarrow> (b - 192) * 64 + (b1 - 128)
      | [b, b1, b2] \<Rightarrow> (b - 224) * 4096 + (b1 - 128) * 64 + (b2 - 128)
      | [b, b1, b2, b3] \<Rightarrow> (b - 240) * 262144 + (b1 - 128) * 4096 + (b2 - 128) * 64 + (b3 - 128)
      | _ \<Rightarrow> 65533)"

function runes_bytes :: "nat list \<Rightarrow> nat list" where
  "runes_bytes bs = (if bs = [] then [] else rune_value (take (rune_width bs) bs) # runes_bytes (drop (rune_width bs) bs))"
  by pat_completeness auto
termination by (relation "measure length") (auto simp: rune_width_def)

declare runes_bytes.simps [simp del]

definition runes_of :: "string \<Rightarrow> nat list" where
  "runes_of s = runes_bytes (map byte_of s)"

text \<open>\<^verbatim>\<open>utf16.Encode\<close>: a surrogate pair above U+FFFF, U+FFFD for a code point that has no encoding.\<close>

fun utf16_units :: "nat \<Rightarrow> nat list" where
  "utf16_units r =
     (if r < 55296 \<or> 57344 \<le> r \<and> r < 65536 then [r]
      else if 65536 \<le> r \<and> r \<le> 1114111 then [55296 + (r - 65536) div 1024 mod 1024, 56320 + (r - 65536) mod 1024]
      else [65533])"

declare utf16_units.simps [simp del]

definition utf16_Encode :: "nat list \<Rightarrow> nat list" where
  "utf16_Encode rs = concat (map utf16_units rs)"

lemma runes_bytes_length: "length (runes_bytes bs) = rune_count bs"
  by (induction bs rule: runes_bytes.induct) (subst runes_bytes.simps, subst rune_count.simps, simp)

lemma utf8_valid_ascii:
  assumes "x < 128"
  shows "utf8_valid (a @ x # b) \<longleftrightarrow> utf8_valid a \<and> utf8_valid b"
proof (induction a rule: utf8_valid.induct)
  case 1
  then show ?case using assms by simp
next
  case (2 c bs)
  have x: "\<not> utf8_cont x" using assms by (simp add: utf8_cont_def)
  consider "c < 128" | "194 \<le> c" "c \<le> 223" | "224 \<le> c" "c \<le> 239" | "240 \<le> c" "c \<le> 244"
    | "128 \<le> c" "c < 194 \<or> 244 < c" by linarith
  then show ?case
  proof cases
    case 1
    with 2(1) show ?thesis by simp
  next
    case c: 2
    with 2(2) x show ?thesis by (cases bs) simp_all
  next
    case c: 3
    show ?thesis
    proof (cases bs)
      case Nil
      with c x show ?thesis by (cases b) simp_all
    next
      case (Cons b1 bs1)
      with c x 2(3) show ?thesis by (cases bs1) simp_all
    qed
  next
    case c: 4
    show ?thesis
    proof (cases bs)
      case Nil
      with c x show ?thesis by (cases b; cases "tl b") simp_all
    next
      case b1: (Cons b1 bs1)
      show ?thesis
      proof (cases bs1)
        case Nil
        with b1 c x show ?thesis by (cases b) simp_all
      next
        case (Cons b2 bs2)
        with b1 c x 2(4) show ?thesis by (cases bs2) simp_all
      qed
    qed
  next
    case 5
    then show ?thesis by auto
  qed
qed

definition ValidString :: "string \<Rightarrow> bool" where
  "ValidString s = utf8_valid (map byte_of s)"

section \<open>Case and white space\<close>

text \<open>
  \<^verbatim>\<open>strings.ToUpper\<close> as far as a comparison with ASCII constants can tell: ASCII letters, and
  the two characters outside ASCII whose upper case is an ASCII letter (U+017F and U+0131).
\<close>

definition ascii_upper :: "nat \<Rightarrow> nat" where
  "ascii_upper b = (if 97 \<le> b \<and> b \<le> 122 then b - 32 else b)"

fun go_ToUpper :: "nat list \<Rightarrow> nat list" where
  "go_ToUpper [] = []"
| "go_ToUpper [b] = [ascii_upper b]"
| "go_ToUpper (b # c # bs) =
     (if b = 197 \<and> c = 191 then 83 # go_ToUpper bs
      else if b = 196 \<and> c = 177 then 73 # go_ToUpper bs
      else ascii_upper b # go_ToUpper (c # bs))"

text \<open>
  \<^verbatim>\<open>strings.ToLower\<close> in the same sense; the characters outside ASCII with an ASCII lower case are
  U+0130 and U+212A.
\<close>

definition ascii_lower :: "nat \<Rightarrow> nat" where
  "ascii_lower b = (if 65 \<le> b \<and> b \<le> 90 then b + 32 else b)"

fun go_ToLower :: "nat list \<Rightarrow> nat list" where
  "go_ToLower [] = []"
| "go_ToLower (b # bs) =
     (case bs of
        c # cs \<Rightarrow>
          if b = 196 \<and> c = 176 then 105 # go_ToLower cs
          else (case cs of
                  e # es \<Rightarrow> if b = 226 \<and> c = 132 \<and> e = 170 then 107 # go_ToLower es else ascii_lower b # go_ToLower bs
                | [] \<Rightarrow> ascii_lower b # go_ToLower bs)
      | [] \<Rightarrow> [ascii_lower b])"

text \<open>The bytes of a string, rune by rune.\<close>

function rune_chunks :: "nat list \<Rightarrow> nat list list" where
  "rune_chunks bs = (if bs = [] then [] else take (rune_width bs) bs # rune_chunks (drop (rune_width bs) bs))"
  by pat_completeness auto
termination by (relation "measure length") (auto simp: rune_width_def)

declare rune_chunks.simps [simp del]

text \<open>\<^verbatim>\<open>unicode.IsSpace\<close>\<close>

definition IsSpace :: "nat \<Rightarrow> bool" where
  "IsSpace r = (9 \<le> r \<and> r \<le> 13 \<or> r = 32 \<or> r = 133 \<or> r = 160 \<or> r = 5760 \<or> 8192 \<le> r \<and> r \<le> 8202 \<or>
     r = 8232 \<or> r = 8233 \<or> r = 8239 \<or> r = 8287 \<or> r = 12288)"

definition trim_chunks :: "nat list list \<Rightarrow> nat list list" where
  "trim_chunks cs = rev (dropWhile (\<lambda>c. IsSpace (rune_value c)) (rev (dropWhile (\<lambda>c. IsSpace (rune_value c)) cs)))"

text \<open>\<^verbatim>\<open>strings.TrimSpace\<close> of a valid string\<close>

definition TrimSpace :: "string \<Rightarrow> string" where
  "TrimSpace s = map char_of (concat (trim_chunks (rune_chunks (map byte_of s))))"

lemma rune_chunks_simps [simp]:
  "rune_chunks [] = []"
  "b < 128 \<Longrightarrow> rune_chunks (b # bs) = [b] # rune_chunks bs"
  by (subst rune_chunks.simps, simp add: rune_width_def)+

lemma rune_chunks_ascii: "list_all (\<lambda>b. b < 128) bs \<Longrightarrow> rune_chunks bs = map (\<lambda>b. [b]) bs"
  by (induction bs) auto

lemma concat_rune_chunks: "concat (rune_chunks bs) = bs"
  by (induction bs rule: rune_chunks.induct) (subst rune_chunks.simps, simp)

lemma byte_char [simp]: "b < 256 \<Longrightarrow> byte_of (char_of b) = b" "char_of (byte_of c) = c" "byte_of c < 256"
  by (simp_all add: byte_of_def)

lemma trim_chunks_none:
  assumes "list_all (\<lambda>c. \<not> IsSpace (rune_value c)) cs"
  shows "trim_chunks cs = cs"
proof -
  have "dropWhile (\<lambda>c. IsSpace (rune_value c)) xs = xs" if "list_all (\<lambda>c. \<not> IsSpace (rune_value c)) xs" for xs
    using that by (cases xs) auto
  with assms show ?thesis by (simp add: trim_chunks_def list_all_rev)
qed

lemma TrimSpace_plain:
  assumes "list_all (\<lambda>c. 32 < byte_of c \<and> byte_of c < 128) s"
  shows "TrimSpace s = s"
proof -
  have "rune_chunks (map byte_of s) = map (\<lambda>b. [b]) (map byte_of s)"
    by (rule rune_chunks_ascii) (use assms in \<open>auto simp: list_all_iff\<close>)
  moreover have "trim_chunks (map (\<lambda>b. [b]) (map byte_of s)) = map (\<lambda>b. [b]) (map byte_of s)"
    by (rule trim_chunks_none) (use assms in \<open>auto simp: list_all_iff rune_value_def IsSpace_def\<close>)
  ultimately show ?thesis by (simp add: TrimSpace_def o_def concat_map_singleton)
qed

lemma go_ToUpper_plain: "list_all (\<lambda>b. b < 97) bs \<Longrightarrow> go_ToUpper bs = bs"
  by (induction bs rule: go_ToUpper.induct) (auto simp: ascii_upper_def)

text \<open>The bytes of a valid string are those of its runes.\<close>

definition rune_size :: "nat \<Rightarrow> nat" where
  "rune_size r = (if r < 128 then 1 else if r < 2048 then 2 else if r < 65536 then 3 else 4)"

lemma utf8_valid_cases:
  assumes v: "utf8_valid (b # bs)"
  obtains (one) "b < 128" "utf8_valid bs"
  | (two) b1 bs' where "bs = b1 # bs'" "194 \<le> b" "b \<le> 223" "utf8_cont b1" "utf8_valid bs'"
  | (three) b1 b2 bs' where "bs = b1 # b2 # bs'" "224 \<le> b" "b \<le> 239" "utf8_cont b1" "b = 224 \<longrightarrow> 160 \<le> b1" "b = 237 \<longrightarrow> b1 \<le> 159"
      "utf8_cont b2" "utf8_valid bs'"
  | (four) b1 b2 b3 bs' where "bs = b1 # b2 # b3 # bs'" "240 \<le> b" "b \<le> 244" "utf8_cont b1" "b = 240 \<longrightarrow> 144 \<le> b1" "b = 244 \<longrightarrow> b1 \<le> 143"
      "utf8_cont b2" "utf8_cont b3" "utf8_valid bs'"
proof (cases "b < 128")
  case True
  with v one show thesis by simp
next
  case n1: False
  show thesis
  proof (cases "194 \<le> b \<and> b \<le> 223")
    case True
    with v n1 two show thesis by (cases bs) simp_all
  next
    case n2: False
    show thesis
    proof (cases "224 \<le> b \<and> b \<le> 239")
      case True
      with v n1 n2 obtain b1 bs1 where b1: "bs = b1 # bs1" by (cases bs) simp_all
      with True v n1 n2 obtain b2 bs2 where "bs1 = b2 # bs2" by (cases bs1) simp_all
      with b1 True v n1 n2 three show thesis by simp
    next
      case n3: False
      with v n1 n2 have r: "240 \<le> b \<and> b \<le> 244" by (simp split: if_splits)
      with v n1 n2 n3 obtain b1 bs1 where b1: "bs = b1 # bs1" by (cases bs) simp_all
      with r v n1 n2 n3 obtain b2 bs2 where b2: "bs1 = b2 # bs2" by (cases bs1) simp_all
      with r b1 v n1 n2 n3 obtain b3 bs3 where "bs2 = b3 # bs3" by (cases bs2) simp_all
      with r b1 b2 v n1 n2 n3 four show thesis by simp
    qed
  qed
qed

lemma valid_rune:
  assumes "utf8_valid (b # bs)"
  shows "rune_size (rune_value (take (rune_width (b # bs)) (b # bs))) = rune_width (b # bs) \<and>
    utf8_valid (drop (rune_width (b # bs)) (b # bs)) \<and> rune_width (b # bs) \<le> length (b # bs)"
  using assms
proof (cases rule: utf8_valid_cases)
  case one
  then show ?thesis by (simp add: rune_width_def rune_value_def rune_size_def)
next
  case (two b1 bs')
  then have "rune_width (b # bs) = 2" by (simp add: rune_width_def)
  with two show ?thesis by (auto simp: rune_value_def rune_size_def utf8_cont_def)
next
  case (three b1 b2 bs')
  then have "rune_width (b # bs) = 3" by (simp add: rune_width_def)
  moreover have "2048 \<le> (b - 224) * 4096 + (b1 - 128) * 64 + (b2 - 128)"
    using three by (cases "b = 224") (auto simp: utf8_cont_def)
  moreover have "(b - 224) * 4096 + (b1 - 128) * 64 + (b2 - 128) < 65536" using three by (auto simp: utf8_cont_def)
  ultimately show ?thesis using three by (simp add: rune_value_def rune_size_def)
next
  case (four b1 b2 b3 bs')
  then have "rune_width (b # bs) = 4" by (simp add: rune_width_def)
  moreover have "65536 \<le> (b - 240) * 262144 + (b1 - 128) * 4096 + (b2 - 128) * 64 + (b3 - 128)"
    using four by (cases "b = 240") (auto simp: utf8_cont_def)
  ultimately show ?thesis using four by (simp add: rune_value_def rune_size_def)
qed

lemma sum_rune_size: "utf8_valid bs \<Longrightarrow> sum_list (map rune_size (runes_bytes bs)) = length bs"
proof (induction bs rule: runes_bytes.induct)
  case (1 bs)
  show ?case
  proof (cases bs)
    case Nil
    then show ?thesis by (simp add: runes_bytes.simps)
  next
    case (Cons b cs)
    from valid_rune 1(2) Cons have v: "rune_size (rune_value (take (rune_width bs) bs)) = rune_width bs"
      "utf8_valid (drop (rune_width bs) bs)" "rune_width bs \<le> length bs" by auto
    with 1(1) [OF _ v(2)] Cons show ?thesis by (subst runes_bytes.simps) simp
  qed
qed

section \<open>Slash-separated paths\<close>

abbreviation slash :: char where
  "slash \<equiv> CHR ''/''"

text \<open>
  \<^verbatim>\<open>path.Clean\<close>, which on Unix is also \<^verbatim>\<open>filepath.Clean\<close>: empty and \<open>.\<close> elements are
  dropped, \<open>..\<close> removes the element before it, and at the root it is dropped. The elements
  kept so far are held in reverse.
\<close>

definition clean_step :: "bool \<Rightarrow> string list \<Rightarrow> string \<Rightarrow> string list" where
  "clean_step rooted acc e =
     (if e = '''' \<or> e = ''.'' then acc
      else if e = ''..'' then
        (case acc of
           [] \<Rightarrow> if rooted then [] else [''..'']
         | x # xs \<Rightarrow> if x = ''..'' then ''..'' # acc else xs)
      else e # acc)"

definition clean_elems :: "bool \<Rightarrow> string list \<Rightarrow> string list" where
  "clean_elems rooted es = rev (foldl (clean_step rooted) [] es)"

definition path_Clean :: "string \<Rightarrow> string" where
  "path_Clean p =
     (if p = '''' then ''.''
      else
        let rooted = (hd p = slash);
            body = join_on slash (clean_elems rooted (split_on slash p))
        in if rooted then slash # body else if body = '''' then ''.'' else body)"

definition path_Join :: "string list \<Rightarrow> string" where
  "path_Join es =
     (let es' = filter (\<lambda>e. e \<noteq> '''') es
      in if es' = [] then '''' else path_Clean (join_on slash es'))"

definition IsAbs :: "string \<Rightarrow> bool" where
  "IsAbs p \<longleftrightarrow> p \<noteq> '''' \<and> hd p = slash"

text \<open>\<^verbatim>\<open>filepath.Split\<close>: the directory with its final slash, and the name after it.\<close>

definition path_Split :: "string \<Rightarrow> string \<times> string" where
  "path_Split p =
     (let base = rev (takeWhile (\<lambda>c. c \<noteq> slash) (rev p))
      in (take (length p - length base) p, base))"

definition path_Dir :: "string \<Rightarrow> string" where
  "path_Dir p = path_Clean (fst (path_Split p))"

text \<open>\<^verbatim>\<open>fs.ValidPath\<close>\<close>

definition ValidPath :: "string \<Rightarrow> bool" where
  "ValidPath name \<longleftrightarrow>
     ValidString name \<and>
     (name = ''.'' \<or> list_all (\<lambda>e. e \<noteq> '''' \<and> e \<noteq> ''.'' \<and> e \<noteq> ''..'') (split_on slash name))"

text \<open>An element that names an entry of a directory.\<close>

definition name_ok :: "string \<Rightarrow> bool" where
  "name_ok e \<longleftrightarrow> e \<noteq> '''' \<and> e \<noteq> ''.'' \<and> e \<noteq> ''..'' \<and> slash \<notin> set e"

lemma name_ok_no_slash: "name_ok e \<Longrightarrow> slash \<notin> set e"
  by (simp add: name_ok_def)

text \<open>Reference definition: walking the elements from a position given by its components.\<close>

fun resolve :: "string list \<Rightarrow> string list \<Rightarrow> string list" where
  "resolve cs [] = cs"
| "resolve cs (e # es) =
     (if e = '''' \<or> e = ''.'' then resolve cs es
      else if e = ''..'' then resolve (butlast cs) es
      else resolve (cs @ [e]) es)"

lemma clean_step_rooted_ok:
  "list_all name_ok acc \<Longrightarrow> slash \<notin> set e \<Longrightarrow> list_all name_ok (clean_step True acc e)"
  by (cases acc) (auto simp: clean_step_def name_ok_def)

lemma foldl_clean_resolve:
  "list_all name_ok acc \<Longrightarrow> list_all (\<lambda>e. slash \<notin> set e) es \<Longrightarrow>
   rev (foldl (clean_step True) acc es) = resolve (rev acc) es"
proof (induction es arbitrary: acc)
  case (Cons e es)
  have "rev (foldl (clean_step True) acc (e # es)) = resolve (rev (clean_step True acc e)) es"
    using Cons clean_step_rooted_ok [of acc e] by simp
  also have "\<dots> = resolve (rev acc) (e # es)"
    using Cons.prems by (cases acc) (auto simp: clean_step_def name_ok_def)
  finally show ?case .
qed simp

lemma split_no_slash: "list_all (\<lambda>e. slash \<notin> set e) (split_on slash s)"
  by (auto simp: list_all_iff dest: split_on_notin)

lemma resolve_ok:
  "list_all name_ok cs \<Longrightarrow> list_all (\<lambda>e. slash \<notin> set e) es \<Longrightarrow> list_all name_ok (resolve cs es)"
proof (induction es arbitrary: cs)
  case (Cons e es)
  have "list_all name_ok (butlast cs)"
    using Cons.prems(1) by (auto simp: list_all_iff dest: in_set_butlastD)
  moreover have "e \<noteq> '''' \<Longrightarrow> e \<noteq> ''.'' \<Longrightarrow> e \<noteq> ''..'' \<Longrightarrow> name_ok e"
    using Cons.prems(2) by (simp add: name_ok_def)
  ultimately show ?case using Cons.prems Cons.IH by simp
qed simp

lemma resolve_append: "resolve cs (es @ fs) = resolve (resolve cs es) fs"
  by (induction cs es rule: resolve.induct) auto

lemma resolve_names: "list_all name_ok ns \<Longrightarrow> resolve cs ns = cs @ ns"
  by (induction ns arbitrary: cs) (auto simp: name_ok_def)

lemma path_Clean_abs: "path_Clean (slash # s) = slash # join_on slash (resolve [] (split_on slash s))"
proof -
  have "clean_elems True (split_on slash (slash # s)) = resolve [] (split_on slash s)"
    using foldl_clean_resolve [of "[]" "split_on slash s"] split_no_slash
    by (simp add: clean_elems_def clean_step_def)
  then show ?thesis by (simp add: path_Clean_def)
qed

lemma split_join_names: "list_all name_ok ns \<Longrightarrow> ns \<noteq> [] \<Longrightarrow> split_on slash (join_on slash ns) = ns"
  by (rule split_join) (auto simp: list_all_iff name_ok_def)

lemma resolve_join_names: "list_all name_ok ns \<Longrightarrow> resolve cs (split_on slash (join_on slash ns)) = cs @ ns"
  by (cases "ns = []") (simp_all add: split_join_names resolve_names)

lemma path_Clean_clean: "list_all name_ok ns \<Longrightarrow> path_Clean (slash # join_on slash ns) = slash # join_on slash ns"
  by (simp add: path_Clean_abs resolve_join_names)

lemma path_Join_abs:
  assumes "list_all name_ok bs"
  shows "path_Join [slash # join_on slash bs, p] = slash # join_on slash (resolve bs (split_on slash p))"
proof (cases "p = ''''")
  case True
  then show ?thesis using assms by (simp add: path_Join_def path_Clean_abs resolve_join_names)
next
  case False
  have "split_on slash (join_on slash bs @ slash # p) = split_on slash (join_on slash bs) @ split_on slash p"
    by (rule split_on_append)
  with False assms show ?thesis
    by (simp add: path_Join_def path_Clean_abs resolve_append resolve_join_names)
qed

lemma resolve_no_parent:
  "''..'' \<notin> set es \<Longrightarrow> resolve cs es = cs @ filter (\<lambda>e. e \<noteq> '''' \<and> e \<noteq> ''.'') es"
  by (induction es arbitrary: cs) auto

lemma clean_no_parent:
  assumes "''..'' \<notin> set es"
  shows "clean_elems rooted es = filter (\<lambda>e. e \<noteq> '''' \<and> e \<noteq> ''.'') es"
proof -
  have "foldl (clean_step rooted) acc es = rev (filter (\<lambda>e. e \<noteq> '''' \<and> e \<noteq> ''.'') es) @ acc" for acc
    using assms by (induction es arbitrary: acc) (auto simp: clean_step_def)
  then show ?thesis by (simp add: clean_elems_def)
qed

text \<open>Component lists and string prefixes.\<close>

definition slashed :: "string list \<Rightarrow> string" where
  "slashed ns = concat (map (\<lambda>n. n @ [slash]) ns)"

lemma join_slashed: "ns \<noteq> [] \<Longrightarrow> join_on slash ns @ [slash] = slashed ns"
  by (induction slash ns rule: join_on.induct) (auto simp: slashed_def)

lemma append_slash_eq:
  "slash \<notin> set a \<Longrightarrow> slash \<notin> set b \<Longrightarrow> a @ slash # x = b @ slash # y \<longleftrightarrow> a = b \<and> x = y"
  by (induction a arbitrary: b; case_tac b) auto

lemma prefix_slashed:
  "list_all name_ok bs \<Longrightarrow> list_all name_ok cs \<Longrightarrow> prefix (slashed bs) (slashed cs) \<longleftrightarrow> prefix bs cs"
proof (induction bs arbitrary: cs)
  case Nil
  then show ?case by (simp add: slashed_def)
next
  case (Cons b bs)
  show ?case
  proof (cases cs)
    case Nil
    then show ?thesis by (simp add: slashed_def)
  next
    case (Cons c cs')
    have ok: "slash \<notin> set b" "slash \<notin> set c" "list_all name_ok bs" "list_all name_ok cs'"
      using Cons.prems Cons by (auto dest: name_ok_no_slash)
    have "prefix (slashed (b # bs)) (slashed cs) \<longleftrightarrow>
        (\<exists>z. b @ slash # (slashed bs @ z) = c @ slash # slashed cs')"
      unfolding Cons prefix_def by (simp add: slashed_def eq_commute)
    also have "\<dots> \<longleftrightarrow> b = c \<and> prefix (slashed bs) (slashed cs')"
      unfolding prefix_def append_slash_eq [OF ok(1,2)] by metis
    finally show ?thesis using Cons.IH [OF ok(3,4)] Cons by auto
  qed
qed

end
