(* ===== verification/File_Paths.thy ===== *)
theory File_Paths
  imports Go_Strings Disk_Quota
begin

text \<open>
  The paths of the file routes: the denylist check of \<^verbatim>\<open>server/filesystem/path.go\<close> and the
  normalisation of user-supplied paths in \<^verbatim>\<open>router/betterfiles_paths.go\<close>. The matcher of
  the denylist is a third-party package and a parameter.
\<close>

section \<open>The denylist (server/filesystem/path.go)\<close>

definition ignored_text :: "string \<Rightarrow> string" where
  "ignored_text p =
     (let cleaned = path_Clean (slash # p)
      in if suffix ''/'' p \<and> cleaned \<noteq> ''/'' then cleaned @ ''/'' else cleaned)"

fun IsIgnored :: "(string \<Rightarrow> bool) \<Rightarrow> string list \<Rightarrow> fs_error option" where
  "IsIgnored matches [] = None"
| "IsIgnored matches (p # ps) = (if matches (ignored_text p) then Some E_DENYLIST else IsIgnored matches ps)"

section \<open>User-supplied paths (router/betterfiles_paths.go)\<close>

definition betterFilesMaxPathLength :: nat where
  "betterFilesMaxPathLength = 4096"

definition betterFilesMaxNameLength :: nat where
  "betterFilesMaxNameLength = 255"

abbreviation backslash :: char where
  "backslash \<equiv> CHR 0x5C"

abbreviation nul :: char where
  "nul \<equiv> CHR 0x00"

definition validBetterFilesPathText :: "string \<Rightarrow> bool" where
  "validBetterFilesPathText v \<longleftrightarrow>
     v \<noteq> '''' \<and> length v \<le> betterFilesMaxPathLength \<and> ValidString v \<and> nul \<notin> set v"

fun valid_components :: "string list \<Rightarrow> bool" where
  "valid_components [] = True"
| "valid_components (c # cs) =
     (if c = '''' then valid_components cs
      else if c = ''.'' \<or> c = ''..'' \<or> length c > betterFilesMaxNameLength then False
      else valid_components cs)"

definition validBetterFilesComponents :: "string \<Rightarrow> bool" where
  "validBetterFilesComponents v = valid_components (split_on slash (Trim v slash))"

definition hasParentPathComponent :: "string \<Rightarrow> bool" where
  "hasParentPathComponent v = list_ex (\<lambda>c. c = ''..'') (split_on slash v)"

definition normalizeBetterFilesRoot :: "string \<Rightarrow> string option" where
  "normalizeBetterFilesRoot v =
     (if v = '''' then Some ''/''
      else if \<not> validBetterFilesPathText v then None
      else if backslash \<in> set v \<or> hasParentPathComponent v then None
      else
        let cleaned = path_Clean (slash # TrimLeft v slash);
            cleaned = (if cleaned = ''.'' then ''/'' else cleaned)
        in if \<not> prefix ''/'' cleaned \<or> length cleaned > betterFilesMaxPathLength then None
           else if \<not> validBetterFilesComponents cleaned then None
           else Some cleaned)"

definition joinBetterFilesPath :: "string \<Rightarrow> string \<Rightarrow> string option" where
  "joinBetterFilesPath root v =
     (if v = '''' \<or> IsAbs v \<or> \<not> validBetterFilesPathText v then None
      else if backslash \<in> set v \<or> hasParentPathComponent v then None
      else
        let relative = path_Clean v
        in if relative = ''.'' \<or> relative = ''/'' \<or> prefix ''../'' relative then None
           else if \<not> validBetterFilesComponents relative then None
           else
             let joined = path_Join [root, relative]
             in if joined = root \<or> joined = ''/'' \<or> length joined > betterFilesMaxPathLength then None
                else if root \<noteq> ''/'' \<and> \<not> prefix (root @ ''/'') joined then None
                else Some joined)"

definition normalizeBetterFilesUploadPath :: "string \<Rightarrow> string \<Rightarrow> (string \<times> string) option" where
  "normalizeBetterFilesUploadPath directory filename =
     (case normalizeBetterFilesRoot directory of
        None \<Rightarrow> None
      | Some root \<Rightarrow>
          if filename = '''' \<or> filename = ''.'' \<or> filename = ''..'' \<or> \<not> validBetterFilesPathText filename then None
          else if slash \<in> set filename \<or> backslash \<in> set filename \<or> length filename > betterFilesMaxNameLength then None
          else case joinBetterFilesPath root filename of
                 None \<Rightarrow> None
               | Some target \<Rightarrow> Some (root, target))"

datatype allow_error = AllowInvalid | AllowIgnored fs_error

text \<open>The ancestors of a path, shallowest first, as the two nested loops visit them.\<close>

fun first_ignored :: "(string \<Rightarrow> bool) \<Rightarrow> string list \<Rightarrow> nat \<Rightarrow> nat \<Rightarrow> fs_error option" where
  "first_ignored matches parts i 0 = None"
| "first_ignored matches parts i (Suc n) =
     (let relative = join_on slash (take i parts)
      in case IsIgnored matches [relative, slash # relative] of
           Some e \<Rightarrow> Some e
         | None \<Rightarrow> first_ignored matches parts (i + 1) n)"

fun ensureBetterFilesAllowed :: "(string \<Rightarrow> bool) \<Rightarrow> string list \<Rightarrow> allow_error option" where
  "ensureBetterFilesAllowed matches [] = None"
| "ensureBetterFilesAllowed matches (v # vs) =
     (case normalizeBetterFilesRoot v of
        None \<Rightarrow> Some AllowInvalid
      | Some cleaned \<Rightarrow>
          if cleaned = ''/'' then ensureBetterFilesAllowed matches vs
          else
            let parts = split_on slash (TrimPrefix cleaned ''/'')
            in case first_ignored matches parts 1 (length parts) of
                 Some e \<Rightarrow> Some (AllowIgnored e)
               | None \<Rightarrow> ensureBetterFilesAllowed matches vs)"

section \<open>Lemmas\<close>

lemma valid_components_iff:
  "valid_components cs \<longleftrightarrow> (\<forall>c \<in> set cs. c = '''' \<or> (c \<noteq> ''.'' \<and> c \<noteq> ''..'' \<and> length c \<le> betterFilesMaxNameLength))"
  by (induction cs) auto

text \<open>A canonical path of the file routes: its components, none of them special or too long.\<close>

definition short_name :: "string \<Rightarrow> bool" where
  "short_name n \<longleftrightarrow> name_ok n \<and> length n \<le> betterFilesMaxNameLength"

definition canonical_path :: "string \<Rightarrow> string list \<Rightarrow> bool" where
  "canonical_path p ns \<longleftrightarrow>
     list_all short_name ns \<and> p = slash # join_on slash ns \<and> length p \<le> betterFilesMaxPathLength"

lemma Trim_clean:
  assumes "list_all name_ok ns"
  shows "Trim (slash # join_on slash ns) slash = join_on slash ns"
proof (cases "ns = []")
  case True
  then show ?thesis by (simp add: Trim_def TrimLeft_def TrimRight_def)
next
  case False
  obtain n ns' where n: "ns = n # ns'" using False by (cases ns) auto
  have hd: "n \<noteq> ''''" "slash \<notin> set n" using assms n by (auto simp: name_ok_def)
  have "TrimLeft (slash # join_on slash ns) slash = join_on slash ns"
    using hd n by (cases n; cases ns') (auto simp: TrimLeft_def)
  moreover obtain ms m where m: "ns = ms @ [m]" using False by (cases ns rule: rev_cases) auto
  have last: "m \<noteq> ''''" "slash \<notin> set m" using assms m by (auto simp: name_ok_def)
  then obtain x ys where x: "rev m = x # ys" "x \<noteq> slash" by (cases "rev m") auto
  have tr: "TrimRight (u @ m) slash = u @ m" for u using x by (simp add: TrimRight_def)
  have "TrimRight (join_on slash ns) slash = join_on slash ns"
    using m tr [of "[]"] tr [of "join_on slash ms @ ''/''"]
    by (cases "ms = []") (simp_all add: join_on_append)
  ultimately show ?thesis by (simp add: Trim_def)
qed

lemma validComponents_clean:
  assumes "list_all name_ok ns"
  shows "validBetterFilesComponents (slash # join_on slash ns) \<longleftrightarrow> list_all short_name ns"
proof (cases "ns = []")
  case True
  then show ?thesis by (simp add: validBetterFilesComponents_def Trim_def TrimLeft_def TrimRight_def)
next
  case False
  with assms show ?thesis
    by (auto simp: validBetterFilesComponents_def Trim_clean split_join_names valid_components_iff
        list_all_iff short_name_def name_ok_def)
qed

lemma normalize_canonical:
  assumes "normalizeBetterFilesRoot v = Some p"
  shows "\<exists>ns. canonical_path p ns \<and> ns = resolve [] (split_on slash v)"
proof (cases "v = ''''")
  case True
  with assms show ?thesis
    by (intro exI [of _ "[]"]) (auto simp: normalizeBetterFilesRoot_def canonical_path_def betterFilesMaxPathLength_def)
next
  case False
  let ?ns = "resolve [] (split_on slash (TrimLeft v slash))"
  have ok: "list_all name_ok ?ns" using resolve_ok [of "[]"] split_no_slash by simp
  have p: "p = slash # join_on slash ?ns" "length p \<le> betterFilesMaxPathLength" "validBetterFilesComponents p"
    using assms False
    by (auto simp: normalizeBetterFilesRoot_def path_Clean_abs Let_def split: if_splits)
  have "resolve [] (split_on slash (TrimLeft v slash)) = resolve [] (split_on slash v)"
    unfolding TrimLeft_def by (induction v) auto
  with p ok validComponents_clean [OF ok] show ?thesis by (auto simp: canonical_path_def)
qed

lemma canonical_names: "canonical_path p ns \<Longrightarrow> list_all name_ok ns"
  by (auto simp: canonical_path_def short_name_def list_all_iff)

lemma ValidString_join:
  assumes "\<forall>n \<in> set ns. ValidString n"
  shows "ValidString (join_on slash ns)"
proof -
  have "byte_of slash < 128" by (simp add: byte_of_def)
  then show ?thesis using assms
    by (induction slash ns rule: join_on.induct) (simp_all add: ValidString_def utf8_valid_ascii)
qed

lemma ValidString_split:
  assumes "ValidString v"
  shows "\<forall>n \<in> set (split_on slash v). ValidString n"
proof -
  have b: "byte_of slash < 128" by (simp add: byte_of_def)
  have "ValidString (join_on slash ns) \<Longrightarrow> ns \<noteq> [] \<Longrightarrow> \<forall>n \<in> set ns. ValidString n" for ns
    by (induction slash ns rule: join_on.induct) (simp_all add: ValidString_def utf8_valid_ascii [OF b])
  with assms show ?thesis using join_split [of slash v] split_on_ne by metis
qed

lemma set_join: "set (join_on c ns) \<subseteq> insert c (\<Union> (set ` set ns))"
  by (induction c ns rule: join_on.induct) auto

lemma set_split_on: "n \<in> set (split_on c v) \<Longrightarrow> set n \<subseteq> set v"
proof -
  have "n \<in> set ns \<Longrightarrow> set n \<subseteq> set (join_on c ns)" for ns
    by (induction c ns rule: join_on.induct) auto
  then show "n \<in> set (split_on c v) \<Longrightarrow> set n \<subseteq> set v" by (metis join_split)
qed

lemma normalize_fixpoint:
  assumes c: "canonical_path p ns" and v: "\<forall>n \<in> set ns. ValidString n \<and> nul \<notin> set n \<and> backslash \<notin> set n"
  shows "normalizeBetterFilesRoot p = Some p"
proof -
  have ok: "list_all name_ok ns" using c by (rule canonical_names)
  have p: "p = slash # join_on slash ns" "length p \<le> betterFilesMaxPathLength" using c by (auto simp: canonical_path_def)
  have sp: "split_on slash p = '''' # split_on slash (join_on slash ns)" by (simp add: p(1))
  have b: "byte_of slash < 128" by (simp add: byte_of_def)
  have "ValidString p" using ValidString_join [of ns] v b by (simp add: p(1) ValidString_def)
  moreover have "nul \<notin> set p" "backslash \<notin> set p"
    using set_join [of slash ns] v by (auto simp: p(1))
  moreover have "\<not> hasParentPathComponent p"
    using ok by (cases "ns = []") (auto simp: hasParentPathComponent_def sp split_join_names list_ex_iff list_all_iff name_ok_def)
  moreover have "TrimLeft p slash = join_on slash ns"
    using ok by (cases ns; cases "hd ns"; cases "tl ns") (auto simp: p(1) TrimLeft_def name_ok_def)
  ultimately show ?thesis using p ok c validComponents_clean [OF ok]
    by (simp add: normalizeBetterFilesRoot_def validBetterFilesPathText_def path_Clean_clean Let_def canonical_path_def)
qed

lemma normalize_chars:
  assumes "normalizeBetterFilesRoot v = Some p" "n \<in> set (resolve [] (split_on slash v))"
  shows "ValidString n \<and> nul \<notin> set n \<and> backslash \<notin> set n"
proof (cases "v = ''''")
  case True
  with assms(2) show ?thesis by simp
next
  case False
  with assms(1) have v: "validBetterFilesPathText v" "backslash \<notin> set v" "\<not> hasParentPathComponent v"
    by (auto simp: normalizeBetterFilesRoot_def split: if_splits)
  then have "''..'' \<notin> set (split_on slash v)" by (auto simp: hasParentPathComponent_def list_ex_iff)
  with assms(2) have n: "n \<in> set (split_on slash v)" by (simp add: resolve_no_parent)
  with v set_split_on [OF n] ValidString_split [of v] show ?thesis
    by (auto simp: validBetterFilesPathText_def)
qed

lemma join_canonical:
  assumes root: "canonical_path root rs" and j: "joinBetterFilesPath root v = Some q"
  shows "\<exists>ns. ns \<noteq> [] \<and> canonical_path q (rs @ ns) \<and> ns = resolve [] (split_on slash v)"
proof -
  let ?ns = "filter (\<lambda>e. e \<noteq> '''' \<and> e \<noteq> ''.'') (split_on slash v)"
  have v: "v \<noteq> ''''" "hd v \<noteq> slash" "''..'' \<notin> set (split_on slash v)"
    using j by (auto simp: joinBetterFilesPath_def IsAbs_def hasParentPathComponent_def list_ex_iff split: if_splits)
  have ok: "list_all name_ok ?ns"
    using v(3) split_no_slash [of v] by (auto simp: list_all_iff name_ok_def)
  have rel: "path_Clean v = (if join_on slash ?ns = '''' then ''.'' else join_on slash ?ns)"
    using v clean_no_parent [of "split_on slash v" False] by (simp add: path_Clean_def Let_def)
  have ne: "?ns \<noteq> []" using j rel by (auto simp: joinBetterFilesPath_def Let_def split: if_splits)
  have jne: "join_on slash ?ns \<noteq> ''''"
    using ne ok by (cases ?ns; cases "tl ?ns") (auto simp: name_ok_def)
  have rs: "list_all name_ok rs" "root = slash # join_on slash rs" "list_all short_name rs"
    using root canonical_names by (auto simp: canonical_path_def)
  have "path_Join [root, join_on slash ?ns] = slash # join_on slash (rs @ ?ns)"
    using path_Join_abs [OF rs(1), of "join_on slash ?ns"] rs(2) resolve_join_names [OF ok, of rs] by simp
  moreover have "q = path_Join [root, path_Clean v] \<and> length q \<le> betterFilesMaxPathLength \<and>
      validBetterFilesComponents (path_Clean v)"
    using j by (auto simp: joinBetterFilesPath_def Let_def split: if_splits)
  ultimately have q: "q = slash # join_on slash (rs @ ?ns)" "length q \<le> betterFilesMaxPathLength"
    "validBetterFilesComponents (join_on slash ?ns)"
    using rel jne by auto
  have "Trim (join_on slash ?ns) slash = join_on slash ?ns"
  proof -
    have "TrimLeft (join_on slash ?ns) slash = TrimLeft (slash # join_on slash ?ns) slash" by (simp add: TrimLeft_def)
    then show ?thesis using Trim_clean [OF ok] by (simp add: Trim_def)
  qed
  with q(3) have "validBetterFilesComponents (slash # join_on slash ?ns)"
    using Trim_clean [OF ok] by (simp add: validBetterFilesComponents_def)
  then have "list_all short_name ?ns" using validComponents_clean [OF ok] by simp
  with q rs ne resolve_no_parent [OF v(3), of "[]"] show ?thesis
    by (intro exI [of _ ?ns]) (auto simp: canonical_path_def)
qed

lemma ignored_text_names:
  assumes "list_all name_ok ns" "ns \<noteq> []"
  shows "ignored_text (join_on slash ns) = slash # join_on slash ns"
    "ignored_text (slash # join_on slash ns) = slash # join_on slash ns"
proof -
  obtain ms m where m: "ns = ms @ [m]" using assms(2) by (cases ns rule: rev_cases) auto
  have last: "m \<noteq> ''''" "slash \<notin> set m" using assms(1) m by (auto simp: name_ok_def)
  have "last m \<noteq> slash" using last by (metis last_in_set)
  then have "last (join_on slash ns) \<noteq> slash"
    using m last by (cases "ms = []") (auto simp: join_on_append)
  moreover have "join_on slash ns \<noteq> ''''" using m last by (cases "ms = []") (auto simp: join_on_append)
  ultimately have "\<not> suffix ''/'' (join_on slash ns)" "\<not> suffix ''/'' (slash # join_on slash ns)"
    by (auto simp: suffix_def) (metis last_ConsR last_snoc)
  with assms show "ignored_text (join_on slash ns) = slash # join_on slash ns"
    "ignored_text (slash # join_on slash ns) = slash # join_on slash ns"
    by (simp_all add: ignored_text_def path_Clean_abs resolve_join_names)
qed

lemma first_ignored_None_iff:
  assumes "list_all name_ok ns"
  shows "i \<ge> 1 \<Longrightarrow> i + n \<le> length ns + 1 \<Longrightarrow> first_ignored matches ns i n = None \<longleftrightarrow>
    (\<forall>k \<in> {i..<i + n}. \<not> matches (slash # join_on slash (take k ns)))"
proof (induction n arbitrary: i)
  case (Suc n)
  have ok: "list_all name_ok (take i ns)" using assms by (auto simp: list_all_iff dest: in_set_takeD)
  have ne: "take i ns \<noteq> []" using Suc.prems by auto
  have "{i..<i + Suc n} = insert i {i + 1..<i + 1 + n}" by auto
  then show ?case using Suc ignored_text_names [OF ok ne] by (simp add: Let_def split: option.splits)
qed simp

section \<open>Properties\<close>

text \<open>
  C22. Normalisation of a user-supplied directory is canonical and stable: an accepted value
  becomes a slash-prefixed path of at most 4096 bytes whose components are the elements of
  the value without empty and \<open>.\<close> ones, none of them \<open>..\<close>, \<open>.\<close>, empty, containing a slash or
  longer than 255 bytes; and normalising the result again changes nothing.
\<close>

theorem normalizeBetterFilesRoot_canonical:
  assumes "normalizeBetterFilesRoot v = Some p"
  shows "canonical_path p (filter (\<lambda>e. e \<noteq> '''' \<and> e \<noteq> ''.'') (split_on slash v)) \<and>
    normalizeBetterFilesRoot p = Some p"
proof -
  obtain ns where ns: "canonical_path p ns" "ns = resolve [] (split_on slash v)"
    using normalize_canonical [OF assms] by blast
  have "''..'' \<notin> set (split_on slash v)"
    using assms by (cases "v = ''''")
      (auto simp: normalizeBetterFilesRoot_def hasParentPathComponent_def list_ex_iff split: if_splits)
  then have "ns = filter (\<lambda>e. e \<noteq> '''' \<and> e \<noteq> ''.'') (split_on slash v)"
    using ns(2) by (simp add: resolve_no_parent)
  with ns normalize_fixpoint [OF ns(1)] normalize_chars [OF assms] show ?thesis by simp
qed

theorem normalizeBetterFilesRoot_canonical_witness:
  "normalizeBetterFilesRoot ''a//b/./c/'' = Some ''/a/b/c'' \<and> normalizeBetterFilesRoot ''/a/b/c'' = Some ''/a/b/c'' \<and>
   normalizeBetterFilesRoot ''a/../b'' = None"
proof -
  have n: "normalizeBetterFilesRoot ''a//b/./c/'' = Some ''/a/b/c''" by code_simp
  moreover have "normalizeBetterFilesRoot ''a/../b'' = None" by code_simp
  ultimately show ?thesis using normalizeBetterFilesRoot_canonical [OF n] by simp
qed

text \<open>
  A joined path is strictly below its root: when \<^verbatim>\<open>joinBetterFilesPath\<close> accepts a value
  below a canonical root, the result is a canonical path whose components are those of the
  root followed by at least one more.
\<close>

theorem joinBetterFilesPath_below_root:
  assumes "canonical_path root rs" and "joinBetterFilesPath root v = Some q"
  shows "\<exists>ns. ns \<noteq> [] \<and> canonical_path q (rs @ ns)"
  using join_canonical [OF assms] by blast

theorem joinBetterFilesPath_below_root_witness:
  "joinBetterFilesPath ''/srv'' ''a/./b'' = Some ''/srv/a/b'' \<and> (\<exists>ns. ns \<noteq> [] \<and> canonical_path ''/srv/a/b'' ([''srv''] @ ns))"
proof -
  have c: "canonical_path ''/srv'' [''srv'']"
    by (simp add: canonical_path_def short_name_def name_ok_def betterFilesMaxNameLength_def betterFilesMaxPathLength_def)
  have j: "joinBetterFilesPath ''/srv'' ''a/./b'' = Some ''/srv/a/b''" by code_simp
  from joinBetterFilesPath_below_root [OF c j] j show ?thesis by blast
qed

text \<open>
  An upload lands directly in its directory: the target of an accepted upload is the
  canonical directory with the file name, unchanged, as one more component.
\<close>

theorem uploadPath_direct_child:
  assumes "normalizeBetterFilesUploadPath d f = Some (root, target)"
  shows "\<exists>rs. canonical_path root rs \<and> canonical_path target (rs @ [f])"
proof -
  have n: "normalizeBetterFilesRoot d = Some root" and j: "joinBetterFilesPath root f = Some target"
    and f: "f \<noteq> ''''" "f \<noteq> ''.''" "f \<noteq> ''..''" "slash \<notin> set f"
    using assms by (auto simp: normalizeBetterFilesUploadPath_def split: option.splits if_splits)
  obtain rs where rs: "canonical_path root rs" using normalize_canonical [OF n] by blast
  from join_canonical [OF rs j] f show ?thesis using rs by (auto simp: split_on_none)
qed

theorem uploadPath_direct_child_witness:
  "normalizeBetterFilesUploadPath ''/x/y/'' ''...'' = Some (''/x/y'', ''/x/y/...'') \<and>
   (\<exists>rs. canonical_path ''/x/y'' rs \<and> canonical_path ''/x/y/...'' (rs @ [''...'']))"
proof -
  have u: "normalizeBetterFilesUploadPath ''/x/y/'' ''...'' = Some (''/x/y'', ''/x/y/...'')" by code_simp
  from uploadPath_direct_child [OF u] u show ?thesis by blast
qed

text \<open>
  A denied directory denies everything below it: \<^verbatim>\<open>ensureBetterFilesAllowed\<close> accepts a list
  of paths only if each of them normalises and no ancestor of it, itself included, is
  matched by the denylist; and it accepts whenever that is so.
\<close>

theorem ensureBetterFilesAllowed_iff:
  "ensureBetterFilesAllowed matches vs = None \<longleftrightarrow>
   list_all (\<lambda>v. \<exists>p ns. normalizeBetterFilesRoot v = Some p \<and> canonical_path p ns \<and>
      list_all (\<lambda>k. \<not> matches (slash # join_on slash (take k ns))) [1..<length ns + 1]) vs"
proof (induction vs)
  case (Cons v vs)
  show ?case
  proof (cases "normalizeBetterFilesRoot v")
    case None
    then show ?thesis by simp
  next
    case (Some p)
    obtain ns where ns: "canonical_path p ns" using normalize_canonical [OF Some] by blast
    have ok: "list_all name_ok ns" using ns by (rule canonical_names)
    have p: "p = slash # join_on slash ns" using ns by (simp add: canonical_path_def)
    have uniq: "ms = ns" if ms: "canonical_path p ms" for ms
    proof -
      have "join_on slash ms = join_on slash ns" using ms p by (simp add: canonical_path_def)
      then have "resolve [] (split_on slash (join_on slash ms)) = resolve [] (split_on slash (join_on slash ns))"
        by (rule arg_cong)
      then show ?thesis
        unfolding resolve_join_names [OF canonical_names [OF ms]] resolve_join_names [OF ok] by simp
    qed
    have "(\<exists>p' ms. normalizeBetterFilesRoot v = Some p' \<and> canonical_path p' ms \<and>
        list_all (\<lambda>k. \<not> matches (slash # join_on slash (take k ms))) [1..<length ms + 1]) \<longleftrightarrow>
        list_all (\<lambda>k. \<not> matches (slash # join_on slash (take k ns))) [1..<length ns + 1]"
      using Some ns uniq by (metis option.inject)
    moreover have "ensureBetterFilesAllowed matches (v # vs) = None \<longleftrightarrow>
        (\<forall>k \<in> {1..<1 + length ns}. \<not> matches (slash # join_on slash (take k ns))) \<and> ensureBetterFilesAllowed matches vs = None"
    proof (cases "ns = []")
      case True
      with Some p show ?thesis by simp
    next
      case False
      then have "p \<noteq> ''/''" using ok p by (cases ns; cases "tl ns") (auto simp: name_ok_def)
      moreover have "split_on slash (TrimPrefix p ''/'') = ns"
        using p split_join_names [OF ok False] TrimPrefix_append [of "''/''" "join_on slash ns"] by simp
      ultimately show ?thesis
        using Some first_ignored_None_iff [OF ok, of 1 "length ns" matches]
        by (cases "first_ignored matches ns (Suc 0) (length ns)") auto
    qed
    ultimately show ?thesis using Cons.IH by (simp only: list_all_iff list.set ball_simps set_upt add.commute)
  qed
qed simp

end
