(* ===== verification/Disk_Writers.thy ===== *)
theory Disk_Writers
  imports Disk_Quota File_Paths
begin

text \<open>
  The users of the disk accounting: the directory walk that measures a server
  (\<^verbatim>\<open>DirectorySize\<close>), the quota-enforcing file handle (\<^verbatim>\<open>quota_file.go\<close>) and the writers
  \<^verbatim>\<open>Writefile\<close>, \<^verbatim>\<open>Write\<close>, \<^verbatim>\<open>Copy\<close> and \<^verbatim>\<open>TruncateRootDirectory\<close> of \<^verbatim>\<open>filesystem.go\<close>,
  \<^verbatim>\<open>WriteUpload\<close> of \<^verbatim>\<open>upload.go\<close> and \<^verbatim>\<open>Replace\<close> of \<^verbatim>\<open>replace.go\<close>.

  A writer is a function of what the operating system answered to its calls, in the
  order in which it makes them; the answers are the fields of an outcome record.
\<close>

section \<open>Measuring a directory\<close>

record stat_t =
  st_nlink :: nat
  st_ino :: nat
  st_size :: int

datatype lstat_result = LstatNotExist | LstatErr nat | LstatOk stat_t

datatype walk_entry = WalkNotExist | WalkErr nat | WalkEntry bool lstat_result

fun directory_walk :: "int \<Rightarrow> nat list \<Rightarrow> walk_entry list \<Rightarrow> int \<times> fs_error option" where
  "directory_walk acc hardLinks [] = (acc, None)"
| "directory_walk acc hardLinks (WalkNotExist # es) = directory_walk acc hardLinks es"
| "directory_walk acc hardLinks (WalkErr e # es) = (acc, Some (E_IO e))"
| "directory_walk acc hardLinks (WalkEntry regular info # es) =
     (if \<not> regular then directory_walk acc hardLinks es
      else case info of
             LstatNotExist \<Rightarrow> directory_walk acc hardLinks es
           | LstatErr e \<Rightarrow> (acc, Some (E_IO e))
           | LstatOk st \<Rightarrow>
               (if st_nlink st > 1 then
                  (if st_ino st \<in> set hardLinks then directory_walk acc hardLinks es
                   else directory_walk (wrap64 (acc + st_size st)) (hardLinks @ [st_ino st]) es)
                else directory_walk (wrap64 (acc + st_size st)) hardLinks es))"

definition DirectorySize :: "fs_error option \<Rightarrow> walk_entry list \<Rightarrow> int \<times> fs_error option" where
  "DirectorySize safePath es =
     (case safePath of Some e \<Rightarrow> (0, Some e) | None \<Rightarrow> directory_walk 0 [] es)"

section \<open>The quota-enforcing file (quota_file.go)\<close>

record quotaFile =
  qf_size :: int

type_synonym io_result = "int \<times> fs_error option"

definition newQuotaFile :: "int \<Rightarrow> quotaFile" where
  "newQuotaFile sz = \<lparr>qf_size = sz\<rparr>"

definition quotaWriteEnd :: "int \<Rightarrow> int \<Rightarrow> int \<times> bool" where
  "quotaWriteEnd off sz =
     (if sz < 0 \<or> off > wrap64 (max_i64 - sz) then (0, False) else (wrap64 (off + sz), True))"

text \<open>\<open>outcome\<close> is what the underlying write returns when it is called.\<close>

definition writeAtLocked ::
  "int \<Rightarrow> int \<Rightarrow> io_result \<Rightarrow> quotaFile \<Rightarrow> filesystem \<Rightarrow> io_result \<times> quotaFile \<times> filesystem" where
  "writeAtLocked lenp off outcome f fs =
     (let previousSize = qf_size f;
          (endp, ok) = quotaWriteEnd off lenp
      in if \<not> ok then ((0, Some E_NODISK), f, fs)
         else
           let res = wrap64 (endp - previousSize)
           in case (if res > 0 then reserveDisk res fs else Inr fs) of
                Inl e \<Rightarrow> ((0, Some e), f, fs)
              | Inr fs \<Rightarrow>
                  let (n, err) = outcome;
                      writtenEnd = (if n > 0 then fst (quotaWriteEnd off n) else previousSize);
                      f' = (if n > 0 \<and> writtenEnd > previousSize then f\<lparr>qf_size := writtenEnd\<rparr> else f);
                      actual = (if writtenEnd > previousSize then wrap64 (writtenEnd - previousSize) else 0)
                  in ((n, err), f', if res > 0 then releaseDisk res actual fs else fs))"

definition quotaFile_Write ::
  "int \<Rightarrow> fs_error + int \<Rightarrow> io_result \<Rightarrow> quotaFile \<Rightarrow> filesystem \<Rightarrow> io_result \<times> quotaFile \<times> filesystem" where
  "quotaFile_Write lenp seek outcome f fs =
     (if lenp = 0 then (outcome, f, fs)
      else case seek of
             Inl e \<Rightarrow> ((0, Some e), f, fs)
           | Inr off \<Rightarrow> writeAtLocked lenp off outcome f fs)"

definition quotaFile_WriteAt ::
  "int \<Rightarrow> int \<Rightarrow> io_result \<Rightarrow> quotaFile \<Rightarrow> filesystem \<Rightarrow> io_result \<times> quotaFile \<times> filesystem" where
  "quotaFile_WriteAt lenp off outcome f fs =
     (if off < 0 \<or> lenp = 0 then (outcome, f, fs) else writeAtLocked lenp off outcome f fs)"

definition CheckSize :: "int \<Rightarrow> quotaFile \<Rightarrow> filesystem \<Rightarrow> fs_error + unit" where
  "CheckSize sz f fs =
     (if sz \<le> qf_size f then Inr () else HasSpaceFor (wrap64 (sz - qf_size f)) fs)"

definition quotaFile_Close ::
  "fs_error + int \<Rightarrow> fs_error option \<Rightarrow> quotaFile \<Rightarrow> filesystem \<Rightarrow> fs_error option \<times> filesystem" where
  "quotaFile_Close stat closeErr f fs =
     (case stat of
        Inl statErr \<Rightarrow> (Some statErr, fs)
      | Inr st \<Rightarrow> (closeErr, snd (adjustDisk (wrap64 (st - qf_size f)) fs)))"

section \<open>Writers (filesystem.go, upload.go, replace.go)\<close>

record write_outcome =
  wo_isdir :: bool
  wo_mkdir :: "fs_error option"
  wo_existed :: bool
  wo_touch :: "fs_error option"
  wo_stat :: "fs_error + file_info"
  wo_truncate :: "fs_error option"
  wo_remove :: "fs_error + file_info"
  wo_copy :: io_result
  wo_chown :: "fs_error option"

definition checkNotDirectory :: "bool \<Rightarrow> fs_error option" where
  "checkNotDirectory isdir = (if isdir then Some E_ISDIR else None)"

text \<open>\<open>trunc\<close> says whether the flags include \<^verbatim>\<open>O_TRUNC\<close>; the result is the size on opening.\<close>

definition openForWrite :: "bool \<Rightarrow> write_outcome \<Rightarrow> fs_error + int" where
  "openForWrite trunc w =
     (case wo_touch w of Some e \<Rightarrow> Inl e | None \<Rightarrow>
       (case wo_stat w of Inl e \<Rightarrow> Inl e | Inr st \<Rightarrow>
         let sz = (if fi_regular st then fi_size st else 0)
         in if trunc then (case wo_truncate w of Some e \<Rightarrow> Inl e | None \<Rightarrow> Inr sz)
            else Inr sz))"

definition Touch :: "bool \<Rightarrow> write_outcome \<Rightarrow> fs_error + quotaFile" where
  "Touch trunc w =
     (case openForWrite trunc w of Inl e \<Rightarrow> Inl e | Inr currentSize \<Rightarrow> Inr (newQuotaFile currentSize))"

definition remove_ignoring_error :: "fs_error + file_info \<Rightarrow> filesystem \<Rightarrow> filesystem" where
  "remove_ignoring_error rm fs =
     (case quota_Remove rm (unixFS fs) of Inl _ \<Rightarrow> fs | Inr q \<Rightarrow> fs\<lparr>unixFS := q\<rparr>)"

definition Writefile :: "write_outcome \<Rightarrow> filesystem \<Rightarrow> fs_error option \<times> filesystem" where
  "Writefile w fs =
     (case checkNotDirectory (wo_isdir w) of Some e \<Rightarrow> (Some e, fs) | None \<Rightarrow>
       (case openForWrite True w of Inl e \<Rightarrow> (Some e, fs) | Inr currentSize \<Rightarrow>
         let (n, err) = wo_copy w;
             fs = fs_add (wrap64 (n - currentSize)) fs
         in case wo_chown w of Some e \<Rightarrow> (Some e, fs) | None \<Rightarrow> (err, fs)))"

definition Filesystem_Write ::
  "int \<Rightarrow> write_outcome \<Rightarrow> filesystem \<Rightarrow> fs_error option \<times> filesystem" where
  "Filesystem_Write newSize w fs =
     (case checkNotDirectory (wo_isdir w) of Some e \<Rightarrow> (Some e, fs) | None \<Rightarrow>
       (case wo_mkdir w of Some e \<Rightarrow> (Some e, fs) | None \<Rightarrow>
         (case openForWrite False w of Inl e \<Rightarrow> (Some e, fs) | Inr currentSize \<Rightarrow>
           (case reserveDisk (wrap64 (newSize - currentSize)) fs of
              Inl e \<Rightarrow> (Some e, if \<not> wo_existed w then remove_ignoring_error (wo_remove w) fs else fs)
            | Inr fs \<Rightarrow>
                let res = max (wrap64 (newSize - currentSize)) 0
                in case wo_truncate w of
                     Some e \<Rightarrow> (Some e, releaseDisk res 0 fs)
                   | None \<Rightarrow>
                       let (n, err) = (if newSize > 0 then wo_copy w else (0, None));
                           used = wrap64 (n - currentSize)
                       in ((case wo_chown w of Some e \<Rightarrow> Some e | None \<Rightarrow> err),
                           releaseDisk res used fs)))))"

text \<open>
  \<^verbatim>\<open>io.Copy\<close> into a \<^verbatim>\<open>quotaFile\<close>: each element is one chunk delivered by the reader, with
  the answers of the seek and of the underlying write; \<open>readErr\<close> is the error with which
  the reader ends (\<open>None\<close> for the end of the data). \<open>E_IO 0\<close> is \<^verbatim>\<open>errInvalidWrite\<close> and
  \<open>E_IO 1\<close> is \<^verbatim>\<open>io.ErrShortWrite\<close>.
\<close>

type_synonym chunk = "int \<times> (fs_error + int) \<times> io_result"

fun quotaFile_ReadFrom ::
  "int \<Rightarrow> chunk list \<Rightarrow> fs_error option \<Rightarrow> quotaFile \<Rightarrow> filesystem
   \<Rightarrow> io_result \<times> quotaFile \<times> filesystem" where
  "quotaFile_ReadFrom written [] readErr f fs = ((written, readErr), f, fs)"
| "quotaFile_ReadFrom written ((nr, seek, outcome) # cs) readErr f fs =
     (let ((nw, ew), f', fs') = quotaFile_Write nr seek outcome f fs;
          (nw, ew) = (if nw < 0 \<or> nr < nw then (0, case ew of None \<Rightarrow> Some (E_IO 0) | Some e \<Rightarrow> Some e)
                      else (nw, ew));
          written = wrap64 (written + nw)
      in case ew of
           Some e \<Rightarrow> ((written, Some e), f', fs')
         | None \<Rightarrow>
             if nr \<noteq> nw then ((written, Some (E_IO 1)), f', fs')
             else quotaFile_ReadFrom written cs readErr f' fs')"

definition WriteFrom ::
  "write_outcome \<Rightarrow> chunk list \<Rightarrow> fs_error option \<Rightarrow> fs_error + int \<Rightarrow> fs_error option
   \<Rightarrow> filesystem \<Rightarrow> io_result \<times> filesystem" where
  "WriteFrom w cs readErr closeStat closeErr fs =
     (case checkNotDirectory (wo_isdir w) of Some e \<Rightarrow> ((0, Some e), fs) | None \<Rightarrow>
       (case wo_mkdir w of Some e \<Rightarrow> ((0, Some e), fs) | None \<Rightarrow>
         (case Touch True w of Inl e \<Rightarrow> ((0, Some e), fs) | Inr file \<Rightarrow>
           let ((n, err), file, fs) = quotaFile_ReadFrom 0 cs readErr file fs;
               (cerr, fs) = quotaFile_Close closeStat closeErr file fs;
               err = (case err of None \<Rightarrow> cerr | Some e \<Rightarrow> Some e);
               err = (case err of None \<Rightarrow> wo_chown w | Some e \<Rightarrow> Some e)
           in case err of
                Some e \<Rightarrow> ((n, Some e), remove_ignoring_error (wo_remove w) fs)
              | None \<Rightarrow> ((n, None), fs))))"

text \<open>
  \<^verbatim>\<open>Copy\<close> tries names for the copy until one can be created exclusively, giving up after
  the eleventh name that already exists.
\<close>

datatype create_attempt = Created | CreateExists | CreateErr fs_error

function copy_create :: "(nat \<Rightarrow> create_attempt) \<Rightarrow> nat \<Rightarrow> fs_error option" where
  "copy_create attempt i =
     (case attempt i of
        Created \<Rightarrow> None
      | CreateErr e \<Rightarrow> Some e
      | CreateExists \<Rightarrow> if i \<ge> 10 then Some (E_IO 3) else copy_create attempt (i + 1))"
  by pat_completeness auto
termination by (relation "measure (\<lambda>(_, i). 11 - i)") auto

declare copy_create.simps [simp del]

record copy_outcome =
  co_open :: "fs_error + file_info"
  co_create :: "nat \<Rightarrow> create_attempt"
  co_copy :: io_result
  co_chown :: "fs_error option"

definition Filesystem_Copy :: "copy_outcome \<Rightarrow> filesystem \<Rightarrow> fs_error option \<times> filesystem" where
  "Filesystem_Copy c fs =
     (case co_open c of
        Inl e \<Rightarrow> (Some e, fs)
      | Inr info \<Rightarrow>
          if \<not> fi_regular info then (Some (E_IO 2), fs)
          else let currentSize = fi_size info
               in case reserveDisk currentSize fs of
                    Inl e \<Rightarrow> (Some e, fs)
                  | Inr fs \<Rightarrow>
                      (case copy_create (co_create c) 0 of
                         Some e \<Rightarrow> (Some e, releaseDisk currentSize 0 fs)
                       | None \<Rightarrow>
                           let (n, err) = co_copy c
                           in ((case co_chown c of Some e \<Rightarrow> Some e | None \<Rightarrow> err),
                               releaseDisk currentSize n fs)))"

definition TruncateRootDirectory ::
  "bool \<Rightarrow> fs_error option \<Rightarrow> filesystem \<Rightarrow> fs_error option \<times> filesystem" where
  "TruncateRootDirectory isTest removeContents fs =
     (case removeContents of
        Some e \<Rightarrow> (Some e, fs)
      | None \<Rightarrow>
          let fs = fs\<lparr>unixFS := snd (quota_SetUsage (reserved fs) (unixFS fs))\<rparr>
          in (None, if isTest then SetDiskLimit 0 fs else fs))"

text \<open>
  Opening one parent directory of an upload: it is opened, and if it does not exist it is
  created and opened again; a directory that was created is given to the server's user.
\<close>

datatype dir_open = DirOk | DirNotExist | DirErr fs_error

datatype dir_mkdir = MkdirOk | MkdirExist | MkdirErr fs_error

record dir_outcome =
  do_open :: dir_open
  do_mkdir :: dir_mkdir
  do_reopen :: "fs_error option"
  do_chown :: "fs_error option"

definition open_parent :: "bool \<Rightarrow> dir_outcome \<Rightarrow> fs_error option" where
  "open_parent isTest d =
     (case do_open d of
        DirOk \<Rightarrow> None
      | DirErr e \<Rightarrow> Some e
      | DirNotExist \<Rightarrow>
          (case do_mkdir d of
             MkdirErr e \<Rightarrow> Some e
           | mk \<Rightarrow>
               let created = (mk = MkdirOk)
               in if do_reopen d = None \<and> created \<and> \<not> isTest \<and> do_chown d \<noteq> None
                  then do_chown d else do_reopen d))"

fun open_parents :: "bool \<Rightarrow> dir_outcome list \<Rightarrow> fs_error option" where
  "open_parents isTest [] = None"
| "open_parents isTest (d # ds) =
     (case open_parent isTest d of Some e \<Rightarrow> Some e | None \<Rightarrow> open_parents isTest ds)"

record upload_outcome =
  uo_root :: "fs_error option"
  uo_dirs :: "nat \<Rightarrow> dir_outcome"
  uo_open :: "fs_error option"
  uo_stat :: "fs_error + file_info"
  uo_fstat :: "fs_error + nat"
  uo_truncate :: "fs_error option"
  uo_copy :: "fs_error option"
  uo_chown :: "fs_error option"
  uo_after :: "fs_error + int"
  uo_close :: "fs_error option"

text \<open>
  The two deferred calls of \<^verbatim>\<open>WriteUpload\<close> run in reverse order: the accounting of the
  final size first, then the close of the file.
\<close>

definition upload_finish ::
  "upload_outcome \<Rightarrow> int \<Rightarrow> int \<Rightarrow> fs_error option \<Rightarrow> filesystem \<Rightarrow> fs_error option \<times> filesystem" where
  "upload_finish u infoSize res err fs =
     (let (err, fs) =
        (case uo_after u of
           Inr after \<Rightarrow> (err, snd (adjustDisk (wrap64 (wrap64 (after - infoSize) - res)) fs))
         | Inl statErr \<Rightarrow> ((case err of None \<Rightarrow> Some statErr | Some e \<Rightarrow> Some e), fs))
      in ((case err of None \<Rightarrow> uo_close u | Some e \<Rightarrow> Some e), fs))"

definition upload_name_ok :: "string \<Rightarrow> bool" where
  "upload_name_ok name \<longleftrightarrow> ValidPath name \<and> name \<noteq> ''.'' \<and> backslash \<notin> set name \<and> nul \<notin> set name"

definition WriteUpload ::
  "bool \<Rightarrow> (string \<Rightarrow> bool) \<Rightarrow> string \<Rightarrow> int \<Rightarrow> upload_outcome \<Rightarrow> filesystem \<Rightarrow> fs_error option \<times> filesystem" where
  "WriteUpload isTest matches name sz u fs =
     (let name = TrimPrefix name ''/'';
          parts = split_on slash name
      in if sz < 0 \<or> \<not> upload_name_ok name then (Some E_BADPATH, fs)
         else case first_ignored matches parts 1 (length parts) of Some e \<Rightarrow> (Some e, fs) | None \<Rightarrow>
           (case HasSpaceFor 0 fs of Inl e \<Rightarrow> (Some e, fs) | Inr _ \<Rightarrow>
           (case uo_root u of Some e \<Rightarrow> (Some e, fs) | None \<Rightarrow>
           (case open_parents isTest (map (uo_dirs u) [0..<length parts - 1]) of Some e \<Rightarrow> (Some e, fs) | None \<Rightarrow>
           (case uo_open u of Some e \<Rightarrow> (Some e, fs) | None \<Rightarrow>
           (case uo_stat u of Inl e \<Rightarrow> (Some e, fs) | Inr info \<Rightarrow>
           (case uo_fstat u of Inl e \<Rightarrow> (Some e, fs) | Inr nlink \<Rightarrow>
              if \<not> fi_regular info \<or> nlink \<noteq> 1 then (Some E_BADPATH, fs)
              else
                let growth = wrap64 (sz - fi_size info)
                in case HasSpaceFor growth fs of Inl e \<Rightarrow> (Some e, fs) | Inr _ \<Rightarrow>
                  (case (if growth > 0 then reserveDisk growth fs else Inr fs) of
                     Inl e \<Rightarrow> (Some e, fs)
                   | Inr fs \<Rightarrow>
                       let res = (if growth > 0 then growth else 0);
                           err = (case uo_truncate u of Some e \<Rightarrow> Some e | None \<Rightarrow>
                                   (case uo_copy u of Some e \<Rightarrow> Some e | None \<Rightarrow>
                                     if \<not> isTest then uo_chown u else None))
                       in upload_finish u (fi_size info) res err fs))))))))"

record replace_outcome =
  ro_old :: "fs_error + file_info"
  ro_new :: "fs_error + file_info option"
  ro_rename :: "fs_error option"

text \<open>
  \<open>ro_new\<close> is the lstat of the destination: \<open>Inr None\<close> when it does not exist.
\<close>

definition Filesystem_Replace :: "replace_outcome \<Rightarrow> filesystem \<Rightarrow> fs_error option \<times> filesystem" where
  "Filesystem_Replace r fs =
     (case ro_old r of
        Inl e \<Rightarrow> (Some e, fs)
      | Inr oldInfo \<Rightarrow>
          if \<not> fi_regular oldInfo then (Some E_BADPATH, fs)
          else case ro_new r of
                 Inl e \<Rightarrow> (Some e, fs)
               | Inr newInfo \<Rightarrow>
                   if (case newInfo of None \<Rightarrow> False | Some i \<Rightarrow> \<not> fi_regular i) then (Some E_BADPATH, fs)
                   else
                     let replacedSize = (case newInfo of None \<Rightarrow> 0 | Some i \<Rightarrow> fi_size i)
                     in case ro_rename r of
                          Some e \<Rightarrow> (Some e, fs)
                        | None \<Rightarrow>
                            (None, if replacedSize > 0
                                   then snd (adjustDisk (wrap64 (- replacedSize)) fs) else fs))"

section \<open>Lemmas on the writers\<close>

lemmas i64_defs = in_i64_def min_i64_def max_i64_def

lemma quotaWriteEnd_ok:
  assumes "0 \<le> off" "in_i64 off" "0 \<le> n" "in_i64 n"
  shows "quotaWriteEnd off n = (if off + n \<le> max_i64 then (off + n, True) else (0, False))"
proof -
  have "in_i64 (max_i64 - n)" "off + n \<le> max_i64 \<Longrightarrow> in_i64 (off + n)"
    using assms by (auto simp: i64_defs)
  with assms show ?thesis by (auto simp: quotaWriteEnd_def wrap64_id)
qed

definition handle_ok :: "quotaFile \<Rightarrow> filesystem \<Rightarrow> bool" where
  "handle_ok f fs \<longleftrightarrow> within_limit fs \<and> in_i64 (reserved fs) \<and> 0 \<le> qf_size f \<and> in_i64 (qf_size f)"

text \<open>What a handle keeps: the distance of the usage to the size of the file, the
  outstanding reservations and the limit.\<close>

definition handle_kept :: "quotaFile \<Rightarrow> filesystem \<Rightarrow> quotaFile \<Rightarrow> filesystem \<Rightarrow> bool" where
  "handle_kept f fs f' fs' \<longleftrightarrow>
     CachedUsage fs' - qf_size f' = CachedUsage fs - qf_size f \<and> qf_size f \<le> qf_size f' \<and>
     reserved fs' = reserved fs \<and> MaxDisk fs' = MaxDisk fs"

lemma handle_kept_refl [simp]: "handle_kept f fs f fs"
  by (simp add: handle_kept_def)

lemma handle_kept_trans:
  "handle_kept f fs f' fs' \<Longrightarrow> handle_kept f' fs' f'' fs'' \<Longrightarrow> handle_kept f fs f'' fs''"
  by (simp add: handle_kept_def)

lemma MaxDisk_reserve: "reserveDisk n fs = Inr fs' \<Longrightarrow> MaxDisk fs' = MaxDisk fs"
  using MaxDisk_event [of fs "EReserve n"] by simp

lemma MaxDisk_release [simp]: "MaxDisk (releaseDisk r u fs) = MaxDisk fs"
  using MaxDisk_event [of fs "ERelease r u"] by simp

definition stored :: "int \<Rightarrow> int \<Rightarrow> quotaFile \<Rightarrow> int" where
  "stored off n f = (if n > 0 then max (qf_size f) (off + n) else qf_size f)"

lemma writeAtLocked_granted:
  assumes "handle_ok f fs" "0 \<le> off" "in_i64 off" "0 < lenp" "in_i64 lenp" "0 \<le> n" "n \<le> lenp"
    and "off + lenp \<le> max_i64" "off + lenp - qf_size f > 0"
    and "reserveDisk (off + lenp - qf_size f) fs = Inr fs1"
  shows "writeAtLocked lenp off (n, err) f fs =
    ((n, err), f\<lparr>qf_size := stored off n f\<rparr>,
     releaseDisk (off + lenp - qf_size f) (stored off n f - qf_size f) fs1)"
proof -
  have "in_i64 n" "off + n \<le> max_i64" using assms by (auto simp: in_i64_def min_i64_def)
  then have e: "quotaWriteEnd off lenp = (off + lenp, True)" "quotaWriteEnd off n = (off + n, True)"
    using assms by (simp_all add: quotaWriteEnd_ok)
  have w: "wrap64 (off + lenp - qf_size f) = off + lenp - qf_size f"
    using assms by (intro wrap64_id) (simp add: handle_ok_def i64_defs)
  have w': "off + n > qf_size f \<Longrightarrow> wrap64 (off + n - qf_size f) = off + n - qf_size f"
    using assms by (intro wrap64_id) (simp add: handle_ok_def i64_defs)
  show ?thesis
    using assms(9,10) by (simp add: writeAtLocked_def e w w' Let_def stored_def max_def)
qed

lemma writeAtLocked_kept:
  assumes ok: "handle_ok f fs" and off: "0 \<le> off" "in_i64 off" and len: "0 < lenp" "in_i64 lenp"
    and n: "0 \<le> n" "n \<le> lenp"
    and run: "writeAtLocked lenp off (n, err) f fs = (r, f', fs')"
  shows "handle_ok f' fs' \<and> handle_kept f fs f' fs'"
proof (cases "off + lenp \<le> max_i64")
  case False
  with run ok off len show ?thesis by (simp add: writeAtLocked_def quotaWriteEnd_ok)
next
  case True
  let ?res = "off + lenp - qf_size f"
  have in_n: "in_i64 n" "off + n \<le> max_i64" using True n len by (auto simp: in_i64_def min_i64_def)
  have e: "quotaWriteEnd off lenp = (off + lenp, True)" "quotaWriteEnd off n = (off + n, True)"
    using True n off len in_n by (simp_all add: quotaWriteEnd_ok)
  have res: "in_i64 ?res" using True ok off len by (simp add: handle_ok_def i64_defs)
  consider "?res \<le> 0" | x where "?res > 0" "reserveDisk ?res fs = Inl x"
    | fs1 where "?res > 0" "reserveDisk ?res fs = Inr fs1"
    by (cases "reserveDisk ?res fs") force+
  then show ?thesis
  proof cases
    case 1
    with n have "off + n \<le> qf_size f" by simp
    with run e res ok 1 show ?thesis
      by (auto simp: writeAtLocked_def wrap64_id Let_def split: if_splits)
  next
    case 2
    with run e res ok show ?thesis by (simp add: writeAtLocked_def wrap64_id Let_def)
  next
    case 3
    let ?act = "stored off n f - qf_size f"
    have max: "max ?res 0 = ?res" using 3 by simp
    have fin: "f' = f\<lparr>qf_size := stored off n f\<rparr>" "fs' = releaseDisk (max ?res 0) ?act fs1"
      using run writeAtLocked_granted [OF ok off len n True 3(1,2)] by (simp_all add: max)
    have st: "qf_size f \<le> stored off n f" "stored off n f \<le> off + lenp"
      using n 3(1) by (auto simp: stored_def)
    have lim: "within_limit fs" "in_i64 (reserved fs)" "0 \<le> CachedUsage fs" "0 \<le> qf_size f"
      using ok by (auto simp: handle_ok_def within_limit_def)
    have act: "?act \<le> max ?res 0" "in_i64 (?act - max ?res 0)" "0 \<le> CachedUsage fs + ?act"
      using st lim 3(1) res by (auto simp: max i64_defs)
    note acc = acct.reserve_release [OF lim(1) res lim(2) 3(2) act]
    have "in_i64 (stored off n f)" using st lim(4) True by (simp add: i64_defs)
    with acc fin st lim MaxDisk_reserve [OF 3(2)] show ?thesis
      by (simp add: handle_ok_def handle_kept_def)
  qed
qed

text \<open>What the operating system may answer to one chunk: an offset that is not negative,
  and a write of at most the bytes it was given.\<close>

fun chunk_ok :: "chunk \<Rightarrow> bool" where
  "chunk_ok (nr, seek, (n, err)) \<longleftrightarrow> 0 < nr \<and> in_i64 nr \<and> 0 \<le> n \<and> n \<le> nr \<and>
     (case seek of Inl _ \<Rightarrow> True | Inr off \<Rightarrow> 0 \<le> off \<and> in_i64 off)"

lemma quotaFile_Write_kept:
  assumes "handle_ok f fs" "chunk_ok (nr, seek, outcome)"
    "quotaFile_Write nr seek outcome f fs = (r, f', fs')"
  shows "handle_ok f' fs' \<and> handle_kept f fs f' fs'"
proof (cases seek)
  case (Inl e)
  with assms show ?thesis by (cases outcome) (simp add: quotaFile_Write_def)
next
  case (Inr off)
  obtain n err where o: "outcome = (n, err)" by (cases outcome)
  with assms(2) Inr have c: "0 \<le> off" "in_i64 off" "0 < nr" "in_i64 nr" "0 \<le> n" "n \<le> nr" by simp_all
  then have "writeAtLocked nr off (n, err) f fs = (r, f', fs')"
    using assms(3) o Inr by (simp add: quotaFile_Write_def)
  from writeAtLocked_kept [OF assms(1) c this] show ?thesis .
qed

lemma ReadFrom_continue:
  assumes "quotaFile_Write nr seek outcome f fs = ((nr, None), f1, fs1)" "0 \<le> nr"
  shows "quotaFile_ReadFrom w ((nr, seek, outcome) # cs) readErr f fs =
         quotaFile_ReadFrom (wrap64 (w + nr)) cs readErr f1 fs1"
  using assms by simp

lemma ReadFrom_stop:
  assumes "quotaFile_Write nr seek outcome f fs = ((nw, ew), f1, fs1)" "ew \<noteq> None \<or> nw \<noteq> nr"
  shows "\<exists>r. quotaFile_ReadFrom w ((nr, seek, outcome) # cs) readErr f fs = (r, f1, fs1)"
  using assms by (cases ew) (auto simp: Let_def)

lemma ReadFrom_kept:
  assumes "handle_ok f fs" "list_all chunk_ok cs"
    "quotaFile_ReadFrom w cs readErr f fs = (r, f', fs')"
  shows "handle_ok f' fs' \<and> handle_kept f fs f' fs'"
  using assms
proof (induction cs arbitrary: w f fs)
  case Nil
  then show ?case by simp
next
  case (Cons c cs)
  obtain nr seek outcome where c: "c = (nr, seek, outcome)" by (cases c)
  obtain nw ew f1 fs1 where w: "quotaFile_Write nr seek outcome f fs = ((nw, ew), f1, fs1)"
    by (metis prod_cases3 surj_pair)
  have cok: "chunk_ok (nr, seek, outcome)" using Cons.prems(2) c by simp
  have k: "handle_ok f1 fs1" "handle_kept f fs f1 fs1"
    using quotaFile_Write_kept [OF Cons.prems(1) cok w] by auto
  show ?case
  proof (cases "ew = None \<and> nw = nr")
    case True
    have "0 \<le> nr" using cok by (cases outcome) simp
    with ReadFrom_continue [of nr seek outcome f fs f1 fs1 w cs readErr] True w c Cons.prems(3)
    have "quotaFile_ReadFrom (wrap64 (w + nr)) cs readErr f1 fs1 = (r, f', fs')" by simp
    with Cons.IH [OF k(1) _ this] Cons.prems(2) k(2) show ?thesis by (auto intro: handle_kept_trans)
  next
    case False
    with ReadFrom_stop [OF w, of w cs readErr] c Cons.prems(3) k show ?thesis by auto
  qed
qed

lemma adjustDisk_usage:
  assumes "in_i64 (CachedUsage fs)" "in_i64 i" "0 \<le> CachedUsage fs + i" "CachedUsage fs + i \<le> max_i64"
  shows "CachedUsage (snd (adjustDisk i fs)) = CachedUsage fs + i"
    "reserved (snd (adjustDisk i fs)) = reserved fs"
  using assms by (auto simp: adjustDisk_def CachedUsage_def quota_Add_usage sat_add_def)

lemma copy_create_None_iff:
  "i \<le> 10 \<Longrightarrow> copy_create a i = None \<longleftrightarrow>
     (\<exists>k \<in> {i..10}. a k = Created \<and> (\<forall>j \<in> {i..<k}. a j = CreateExists))"
proof (induction a i rule: copy_create.induct)
  case (1 a i)
  have range: "{i..10} = insert i {Suc i..10}" using 1(2) by auto
  have low: "(\<forall>j \<in> {i..<k}. a j = CreateExists) \<longleftrightarrow> a i = CreateExists \<and> (\<forall>j \<in> {Suc i..<k}. a j = CreateExists)"
    if "k \<in> {Suc i..10}" for k
  proof -
    have "{i..<k} = insert i {Suc i..<k}" using that by auto
    then show ?thesis by simp
  qed
  have rhs: "(\<exists>k \<in> {i..10}. a k = Created \<and> (\<forall>j \<in> {i..<k}. a j = CreateExists)) \<longleftrightarrow>
      a i = Created \<or> (a i = CreateExists \<and>
        (\<exists>k \<in> {Suc i..10}. a k = Created \<and> (\<forall>j \<in> {Suc i..<k}. a j = CreateExists)))"
    unfolding range using low by auto
  show ?case unfolding rhs
    using 1 by (subst copy_create.simps) (auto split: create_attempt.splits simp: not_less_eq_eq)
qed

definition removal_ok :: "fs_error + file_info \<Rightarrow> bool" where
  "removal_ok rm = (case rm of Inl _ \<Rightarrow> True | Inr i \<Rightarrow> 0 \<le> fi_size i \<and> in_i64 (fi_size i))"

lemma remove_ignoring_error_simps [simp]:
  "reserved (remove_ignoring_error rm fs) = reserved fs"
  "MaxDisk (remove_ignoring_error rm fs) = MaxDisk fs"
  by (auto simp: remove_ignoring_error_def quota_Remove_def MaxDisk_def split: sum.splits)

lemma remove_ignoring_error_within:
  "within_limit fs \<Longrightarrow> removal_ok rm \<Longrightarrow> within_limit (remove_ignoring_error rm fs)"
  using within_limit_event [of fs "ERemove 0 rm"]
  by (cases rm) (auto simp: removal_ok_def remove_ignoring_error_def quota_Remove_def quota_unlinkat_def)

text \<open>The entries of a walk that met no error, and the stats of the regular files among them.\<close>

fun clean_entry :: "walk_entry \<Rightarrow> bool" where
  "clean_entry (WalkErr e) = False"
| "clean_entry (WalkEntry regular (LstatErr e)) = (\<not> regular)"
| "clean_entry _ = True"

fun entry_stat :: "walk_entry \<Rightarrow> stat_t list" where
  "entry_stat (WalkEntry regular (LstatOk st)) = (if regular then [st] else [])"
| "entry_stat _ = []"

definition walk_stats :: "walk_entry list \<Rightarrow> stat_t list" where
  "walk_stats es = concat (map entry_stat es)"

lemma directory_walk_clean:
  "list_all clean_entry es \<Longrightarrow>
   directory_walk acc seen es = directory_walk acc seen (map (\<lambda>st. WalkEntry True (LstatOk st)) (walk_stats es))"
  by (induction acc seen es rule: directory_walk.induct)
    (auto simp: walk_stats_def split: lstat_result.splits)

text \<open>
  The inodes a walk visits: a file with one link is listed under one name only, so its
  inode is not listed again.
\<close>

definition links_ok :: "(nat \<Rightarrow> int) \<Rightarrow> stat_t list \<Rightarrow> bool" where
  "links_ok bytes sts \<longleftrightarrow>
     (\<forall>st \<in> set sts. st_size st = bytes (st_ino st) \<and> 0 \<le> st_size st) \<and>
     (\<forall>i < length sts. \<forall>j < length sts. st_ino (sts ! i) = st_ino (sts ! j) \<longrightarrow>
        st_nlink (sts ! i) \<le> 1 \<longrightarrow> i = j)"

lemma links_ok_ConsD:
  assumes "links_ok bytes (st # sts)"
  shows "links_ok bytes sts" "st_size st = bytes (st_ino st)" "0 \<le> bytes (st_ino st)"
    "st_nlink st \<le> 1 \<Longrightarrow> st_ino st \<notin> st_ino ` set sts"
    "\<forall>t \<in> set sts. st_nlink t \<le> 1 \<longrightarrow> st_ino t \<noteq> st_ino st"
proof -
  have eq: "i = j" if "i < length (st # sts)" "j < length (st # sts)"
    "st_ino ((st # sts) ! i) = st_ino ((st # sts) ! j)" "st_nlink ((st # sts) ! i) \<le> 1" for i j
    using assms that unfolding links_ok_def by blast
  show "links_ok bytes sts"
    using assms eq [of "Suc _" "Suc _"] by (auto simp: links_ok_def)
  show sz: "st_size st = bytes (st_ino st)" "0 \<le> bytes (st_ino st)" using assms by (auto simp: links_ok_def)
  show "st_nlink st \<le> 1 \<Longrightarrow> st_ino st \<notin> st_ino ` set sts"
    using eq [of 0 "Suc _"] by (fastforce simp: in_set_conv_nth)
  show "\<forall>t \<in> set sts. st_nlink t \<le> 1 \<longrightarrow> st_ino t \<noteq> st_ino st"
    using eq [of "Suc _" 0] by (fastforce simp: in_set_conv_nth)
qed

lemma directory_walk_sum:
  assumes "links_ok bytes sts" "\<forall>st \<in> set sts. st_nlink st \<le> 1 \<longrightarrow> st_ino st \<notin> set seen"
    and "0 \<le> acc" "acc + (\<Sum>i \<in> st_ino ` set sts - set seen. bytes i) \<le> max_i64"
  shows "directory_walk acc seen (map (\<lambda>st. WalkEntry True (LstatOk st)) sts) =
         (acc + (\<Sum>i \<in> st_ino ` set sts - set seen. bytes i), None)"
  using assms
proof (induction sts arbitrary: acc seen)
  case Nil
  then show ?case by simp
next
  case (Cons st sts)
  note d = links_ok_ConsD [OF Cons.prems(1)]
  let ?I = "st_ino ` set sts"
  have nn: "0 \<le> (\<Sum>i \<in> ?I - S. bytes i)" for S
    using d(1) by (intro sum_nonneg) (auto simp: links_ok_def)
  show ?case
  proof (cases "st_nlink st > 1 \<and> st_ino st \<in> set seen")
    case True
    then have "st_ino ` set (st # sts) - set seen = ?I - set seen" by auto
    with Cons True d(1) show ?thesis by simp
  next
    case False
    have new: "st_ino st \<notin> set seen" using False Cons.prems(2) by fastforce
    let ?seen = "if st_nlink st > 1 then seen @ [st_ino st] else seen"
    have I: "?I - set ?seen = ?I - insert (st_ino st) (set seen)" using d(4) by auto
    have "st_ino ` set (st # sts) - set seen = insert (st_ino st) (?I - insert (st_ino st) (set seen))"
      using new by auto
    then have sum: "(\<Sum>i \<in> st_ino ` set (st # sts) - set seen. bytes i) = bytes (st_ino st) + (\<Sum>i \<in> ?I - set ?seen. bytes i)"
      unfolding I by simp
    have w: "wrap64 (acc + st_size st) = acc + bytes (st_ino st)"
      using Cons.prems(3,4) d(3) nn [of "set ?seen"] sum
      unfolding d(2) by (intro wrap64_id) (simp add: i64_defs)
    have "directory_walk (acc + bytes (st_ino st)) ?seen (map (\<lambda>st. WalkEntry True (LstatOk st)) sts) =
        (acc + bytes (st_ino st) + (\<Sum>i \<in> ?I - set ?seen. bytes i), None)"
      using Cons.prems d sum by (intro Cons.IH) auto
    with False sum w show ?thesis by (cases "st_nlink st > 1") (simp_all add: add.assoc)
  qed
qed

section \<open>Properties\<close>



text \<open>
  C20. \<^verbatim>\<open>WriteFrom\<close> accounts exactly: when it returns without an error, the tracked usage has
  changed by the final size of the file minus the size of the file it replaced, for
  every sequence of chunks and whatever the handle saw in between, and no reservation is
  left behind.
\<close>

theorem WriteFrom_accounts_exactly:
  assumes ok: "within_limit fs" "in_i64 (reserved fs)"
    and old: "wo_stat w = Inr st" "fi_regular st" "0 \<le> fi_size st" "fi_size st \<le> CachedUsage fs"
    and chunks: "list_all chunk_ok cs"
    and final: "0 \<le> final" "CachedUsage fs - fi_size st + final \<le> max_i64"
    and run: "WriteFrom w cs readErr (Inr final) closeErr fs = ((n, None), fs')"
  shows "CachedUsage fs' = CachedUsage fs - fi_size st + final \<and> reserved fs' = reserved fs"
proof -
  have u: "CachedUsage fs \<le> max_i64" using ok by (auto simp: within_limit_def in_i64_def)
  have touch: "Touch True w = Inr \<lparr>qf_size = fi_size st\<rparr>"
    using run old by (auto simp: WriteFrom_def Touch_def newQuotaFile_def openForWrite_def
        checkNotDirectory_def split: option.splits if_splits)
  obtain m err f1 fs1 where rf: "quotaFile_ReadFrom 0 cs readErr \<lparr>qf_size = fi_size st\<rparr> fs = ((m, err), f1, fs1)"
    by (metis prod_cases3 surj_pair)
  have "handle_ok \<lparr>qf_size = fi_size st\<rparr> fs"
    using ok old u by (simp add: handle_ok_def i64_defs)
  from ReadFrom_kept [OF this chunks rf]
  have k: "CachedUsage fs1 - qf_size f1 = CachedUsage fs - fi_size st" "reserved fs1 = reserved fs"
    "within_limit fs1" "0 \<le> qf_size f1" "in_i64 (qf_size f1)"
    by (auto simp: handle_ok_def handle_kept_def)
  have d: "in_i64 (final - qf_size f1)" using k final old by (simp add: i64_defs)
  have fs': "fs' = snd (adjustDisk (final - qf_size f1) fs1)"
    using run touch rf
    by (auto simp: WriteFrom_def quotaFile_Close_def wrap64_id [OF d] Let_def split: option.splits)
  show ?thesis
    using adjustDisk_usage [OF within_limit_usage_i64 [OF k(3)] d] k final old fs' by simp
qed

definition plain_write :: write_outcome where
  "plain_write = \<lparr>wo_isdir = False, wo_mkdir = None, wo_existed = True, wo_touch = None,
     wo_stat = Inr \<lparr>fi_regular = True, fi_nlink = Some 1, fi_size = 20\<rparr>, wo_truncate = None,
     wo_remove = Inl (E_IO 9), wo_copy = (35, None), wo_chown = None\<rparr>"

theorem WriteFrom_accounts_exactly_witness:
  "CachedUsage (snd (WriteFrom plain_write [(30, Inr 0, (30, None)), (5, Inr 30, (5, None))] None (Inr 35) None fs100)) = 55"
proof -
  let ?cs = "[(30, Inr 0, (30, None)), (5, Inr 30, (5, None))]"
  have "fst (WriteFrom plain_write ?cs None (Inr 35) None fs100) = (35, None)" by code_simp
  then obtain fs' where run: "WriteFrom plain_write ?cs None (Inr 35) None fs100 = ((35, None), fs')"
    by (metis prod.collapse)
  have st: "wo_stat plain_write = Inr \<lparr>fi_regular = True, fi_nlink = Some 1, fi_size = 20\<rparr>"
    by (simp add: plain_write_def)
  have "within_limit fs100" "in_i64 (reserved fs100)" "CachedUsage fs100 = 40" "list_all chunk_ok ?cs"
    by (simp_all add: within_limit_def fs100_def MaxDisk_def CachedUsage_def i64_defs)
  with WriteFrom_accounts_exactly [OF _ _ st _ _ _ _ _ _ run] show ?thesis
    by (simp add: run max_i64_def)
qed

text \<open>
  \<^verbatim>\<open>Write\<close> reserves before it truncates and always releases: on every path, errors and
  short copies included, the usage stays within the limit and no reservation is left; on
  success the usage has changed by the bytes written minus the size of the replaced file.
\<close>

theorem Write_accounts:
  assumes ok: "within_limit fs" "in_i64 (reserved fs)"
    and old: "wo_stat w = Inr st" "fi_regular st" "0 \<le> fi_size st" "fi_size st \<le> CachedUsage fs"
    and new: "0 \<le> newSize" "in_i64 newSize" "wo_copy w = (n, cerr)" "0 \<le> n" "n \<le> newSize"
    and rm: "removal_ok (wo_remove w)"
    and run: "Filesystem_Write newSize w fs = (err, fs')"
  shows "within_limit fs' \<and> reserved fs' = reserved fs \<and>
    (err = None \<longrightarrow> CachedUsage fs' = CachedUsage fs - fi_size st + n)"
proof -
  let ?c = "fi_size st" and ?d = "newSize - fi_size st"
  have u: "CachedUsage fs \<le> max_i64" "0 \<le> CachedUsage fs" using ok by (auto simp: within_limit_def in_i64_def)
  have w: "wrap64 ?d = ?d" "wrap64 (n - ?c) = n - ?c" "in_i64 ?d"
    using new old u by (auto intro!: wrap64_id simp: i64_defs)
  show ?thesis
  proof (cases "wo_isdir w \<or> wo_mkdir w \<noteq> None \<or> wo_touch w \<noteq> None")
    case True
    with run ok show ?thesis
      by (auto simp: Filesystem_Write_def checkNotDirectory_def openForWrite_def split: option.splits)
  next
    case False
    then have open_ok: "openForWrite False w = Inr ?c" "checkNotDirectory (wo_isdir w) = None" "wo_mkdir w = None"
      using old by (auto simp: openForWrite_def checkNotDirectory_def)
    show ?thesis
    proof (cases "reserveDisk ?d fs")
      case (Inl e)
      with run open_ok w ok rm show ?thesis
        by (auto simp: Filesystem_Write_def remove_ignoring_error_within split: if_splits)
    next
      case (Inr fs1)
      have c: "(if newSize > 0 then wo_copy w else (0, None)) = (n, if newSize > 0 then cerr else None)"
        using new by auto
      have b: "0 \<le> max ?d 0" "in_i64 (0 - max ?d 0)" "n - ?c \<le> max ?d 0" "in_i64 ((n - ?c) - max ?d 0)"
        "0 \<le> CachedUsage fs + (n - ?c)"
        using new old u by (auto simp: i64_defs)
      note full = acct.reserve_release [OF ok(1) w(3) ok(2) Inr b(3,4,5)]
      note none = acct.reserve_release [OF ok(1) w(3) ok(2) Inr b(1,2), simplified, OF u(2)]
      show ?thesis
        using run open_ok w Inr c full none
        by (cases "wo_truncate w") (auto simp: Filesystem_Write_def Let_def split: prod.splits)
    qed
  qed
qed

theorem Write_accounts_witness:
  "CachedUsage (snd (Filesystem_Write 35 plain_write fs100)) = 55"
proof -
  have "fst (Filesystem_Write 35 plain_write fs100) = None" by code_simp
  then obtain fs' where run: "Filesystem_Write 35 plain_write fs100 = (None, fs')"
    by (metis prod.collapse)
  have st: "wo_stat plain_write = Inr \<lparr>fi_regular = True, fi_nlink = Some 1, fi_size = 20\<rparr>"
    "wo_copy plain_write = (35, None)" by (simp_all add: plain_write_def)
  have "within_limit fs100" "in_i64 (reserved fs100)" "CachedUsage fs100 = 40" "in_i64 35"
    "removal_ok (wo_remove plain_write)"
    by (simp_all add: within_limit_def fs100_def MaxDisk_def CachedUsage_def i64_defs removal_ok_def plain_write_def)
  with Write_accounts [OF _ _ st(1) _ _ _ _ _ st(2) _ _ _ run] show ?thesis
    by (simp add: run)
qed

text \<open>
  C23. The size of a directory counts every inode once: if the walk meets no error and the
  stats are consistent (one size per inode, a file with a single link listed once), the
  result is the sum of the sizes of the inodes of the regular files, whatever the order
  of the entries and however many hard links each of them has.
\<close>

theorem DirectorySize_counts_inodes_once:
  assumes "list_all clean_entry es" "links_ok bytes (walk_stats es)"
    and "(\<Sum>i \<in> st_ino ` set (walk_stats es). bytes i) \<le> max_i64"
  shows "DirectorySize None es = (\<Sum>i \<in> st_ino ` set (walk_stats es). bytes i, None)"
  using directory_walk_sum [OF assms(2), of "[]" 0] assms(3) directory_walk_clean [OF assms(1)]
  by (simp add: DirectorySize_def)

theorem DirectorySize_counts_inodes_once_witness:
  "DirectorySize None [WalkEntry False LstatNotExist, WalkEntry True (LstatOk \<lparr>st_nlink = 2, st_ino = 7, st_size = 30\<rparr>),
     WalkNotExist, WalkEntry True (LstatOk \<lparr>st_nlink = 1, st_ino = 8, st_size = 5\<rparr>),
     WalkEntry True (LstatOk \<lparr>st_nlink = 2, st_ino = 7, st_size = 30\<rparr>)] = (35, None)"
proof -
  let ?es = "[WalkEntry False LstatNotExist, WalkEntry True (LstatOk \<lparr>st_nlink = 2, st_ino = 7, st_size = 30\<rparr>),
     WalkNotExist, WalkEntry True (LstatOk \<lparr>st_nlink = 1, st_ino = 8, st_size = 5\<rparr>),
     WalkEntry True (LstatOk \<lparr>st_nlink = 2, st_ino = 7, st_size = 30\<rparr>)]"
  let ?b = "\<lambda>i::nat. if i = 7 then 30 else (5::int)"
  have s: "walk_stats ?es = [\<lparr>st_nlink = 2, st_ino = 7, st_size = 30\<rparr>, \<lparr>st_nlink = 1, st_ino = 8, st_size = 5\<rparr>,
     \<lparr>st_nlink = 2, st_ino = 7, st_size = 30\<rparr>]" by (simp add: walk_stats_def)
  have l: "links_ok ?b (walk_stats ?es)"
    unfolding s links_ok_def by (auto simp: less_Suc_eq_0_disj numeral_3_eq_3 nth_Cons split: nat.splits)
  have i: "st_ino ` set (walk_stats ?es) = {7, 8}" unfolding s by auto
  show ?thesis using DirectorySize_counts_inodes_once [of ?es ?b, OF _ l] unfolding i
    by (simp add: max_i64_def)
qed

text \<open>
  C27. \<^verbatim>\<open>WriteUpload\<close> keeps its reservation for ever: after a successful upload that makes the
  file grow, the usage is exact, but the growth stays in \<^verbatim>\<open>reserved\<close> although no write is in
  progress. The next truncation of the server leaves the usage at the growth instead of
  zero, and the next walk counts the growth a second time.
\<close>

theorem WriteUpload_keeps_reservation:
  assumes ok: "within_limit fs" "reserved fs = 0" "\<not> walking fs"
    and target: "uo_stat u = Inr st" "0 \<le> fi_size st" "fi_size st < sz" "in_i64 sz"
    and fin: "uo_after u = Inr sz" "WriteUpload isTest matches name sz u fs = (None, fs')"
  shows "CachedUsage fs' = CachedUsage fs + (sz - fi_size st) \<and> reserved fs' = sz - fi_size st \<and>
    CachedUsage (snd (TruncateRootDirectory False None fs')) = sz - fi_size st \<and>
    (in_i64 (m + (sz - fi_size st)) \<longrightarrow>
      CachedUsage (snd (walkDiskUsage now id (m, None) fs')) = m + (sz - fi_size st))"
proof -
  let ?g = "sz - fi_size st"
  have g: "in_i64 ?g" "?g > 0" "wrap64 ?g = ?g" using target by (auto simp: i64_defs intro!: wrap64_id)
  obtain fs1 where fs1: "reserveDisk ?g fs = Inr fs1" "fs' = fs1"
    using fin target g
    by (auto simp: WriteUpload_def upload_finish_def adjustDisk_def Let_def split: option.splits sum.splits if_splits)
  have "reserved fs' = ?g" "CachedUsage fs' = CachedUsage fs + ?g"
    using reserveDisk_InrD [OF fs1(1) g(2)] reserveDisk_usage [OF ok(1) fs1(1) g(2,1)] ok fs1(2) g(3) by simp_all
  then show ?thesis
    by (simp add: TruncateRootDirectory_def quota_SetUsage_def CachedUsage_def walkDiskUsage_def
        walk_end_def wrap64_id Let_def)
qed

definition plain_upload :: upload_outcome where
  "plain_upload = \<lparr>uo_root = None, uo_dirs = (\<lambda>_. \<lparr>do_open = DirNotExist, do_mkdir = MkdirOk, do_reopen = None, do_chown = None\<rparr>),
     uo_open = None, uo_stat = Inr \<lparr>fi_regular = True, fi_nlink = Some 1, fi_size = 0\<rparr>, uo_fstat = Inr 1,
     uo_truncate = None, uo_copy = None, uo_chown = None, uo_after = Inr 25, uo_close = None\<rparr>"

theorem WriteUpload_keeps_reservation_witness:
  "CachedUsage (snd (TruncateRootDirectory False None
     (snd (WriteUpload False (\<lambda>_. False) ''/d/f.txt'' 25 plain_upload fs100)))) = 25"
proof -
  have "fst (WriteUpload False (\<lambda>_. False) ''/d/f.txt'' 25 plain_upload fs100) = None" by code_simp
  then obtain fs' where run: "WriteUpload False (\<lambda>_. False) ''/d/f.txt'' 25 plain_upload fs100 = (None, fs')"
    by (metis prod.collapse)
  have u: "uo_stat plain_upload = Inr \<lparr>fi_regular = True, fi_nlink = Some 1, fi_size = 0\<rparr>"
    "uo_after plain_upload = Inr 25" by (simp_all add: plain_upload_def)
  have "within_limit fs100" "reserved fs100 = 0" "\<not> walking fs100" "in_i64 25"
    by (simp_all add: within_limit_def fs100_def MaxDisk_def CachedUsage_def i64_defs)
  with WriteUpload_keeps_reservation [OF _ _ _ u(1) _ _ _ u(2) run] run show ?thesis by simp
qed

end
