(* ===== verification/Ufs_Paths.thy ===== *)
theory Ufs_Paths
  imports Go_Strings
begin

text \<open>
  The sandboxed filesystem of \<^verbatim>\<open>internal/ufs\<close>: how a path that a user supplies is cleaned,
  confined to the base path of the server and opened (\<^verbatim>\<open>fs_unix.go\<close>), how missing parent
  directories are created (\<^verbatim>\<open>mkdir_unix.go\<close>), the helpers on path strings
  (\<^verbatim>\<open>path_unix.go\<close>), the conversion of system errors (\<^verbatim>\<open>error.go\<close>) and the two renames.

  System calls are functions given as arguments; what they are called with is computed by
  the definitions.
\<close>

section \<open>Errors (error.go)\<close>

datatype errno = EEXIST | EISDIR | ENOTDIR | ENOENT | EPERM | EXDEV | ELOOP | EINTR | EAGAIN | EINVAL | Errno nat

datatype err_value =
    ErrExist | ErrIsDirectory | ErrNotDirectory | ErrNotExist | ErrPermission
  | ErrBadPathResolution | ErrNotRegular | ErrErrno errno | ErrOther nat

text \<open>An error is a bare errno, a \<^verbatim>\<open>PathError\<close> (its operation, path and underlying error) or another error.\<close>

datatype ufs_error = BareErrno errno | PathErr string string err_value | OtherErr nat

definition errnoToPathError :: "errno \<Rightarrow> string \<Rightarrow> string \<Rightarrow> ufs_error" where
  "errnoToPathError err op path =
     (case err of
        EEXIST \<Rightarrow> PathErr op path ErrExist
      | EISDIR \<Rightarrow> PathErr op path ErrIsDirectory
      | ENOTDIR \<Rightarrow> PathErr op path ErrNotDirectory
      | ENOENT \<Rightarrow> PathErr op path ErrNotExist
      | EPERM \<Rightarrow> PathErr op path ErrPermission
      | EXDEV \<Rightarrow> PathErr op path ErrBadPathResolution
      | ELOOP \<Rightarrow> PathErr op path ErrBadPathResolution
      | _ \<Rightarrow> PathErr op path (ErrErrno err))"

fun convertErrorType :: "ufs_error \<Rightarrow> ufs_error" where
  "convertErrorType (PathErr op path (ErrErrno e)) = errnoToPathError e op path"
| "convertErrorType (PathErr op path v) = PathErr op path v"
| "convertErrorType (BareErrno e) = PathErr ''!(UNKNOWN)'' ''!(UNKNOWN)'' (ErrErrno e)"
| "convertErrorType (OtherErr n) = OtherErr n"

fun ensurePathError :: "ufs_error option \<Rightarrow> string \<Rightarrow> string \<Rightarrow> ufs_error option" where
  "ensurePathError None op path = None"
| "ensurePathError (Some (PathErr op' path' (ErrErrno e))) op path = Some (errnoToPathError e op' path')"
| "ensurePathError (Some (PathErr op' path' v)) op path = Some (PathErr op' path' v)"
| "ensurePathError (Some (BareErrno e)) op path = Some (errnoToPathError e op path)"
| "ensurePathError (Some (OtherErr n)) op path = Some (PathErr op path (ErrOther n))"

definition is_err :: "err_value \<Rightarrow> ufs_error \<Rightarrow> bool" where
  "is_err v e = (case e of PathErr _ _ w \<Rightarrow> w = v | _ \<Rightarrow> False)"

section \<open>Path strings (path_unix.go)\<close>

text \<open>The two loops of \<^verbatim>\<open>basename\<close> and \<^verbatim>\<open>splitPath\<close>: removing trailing slashes but keeping a
  first character, and finding the last slash before the end.\<close>

function trim_trailing :: "string \<Rightarrow> string" where
  "trim_trailing name =
     (if length name > 1 \<and> last name = slash then trim_trailing (butlast name) else name)"
  by pat_completeness auto
termination by (relation "measure length") auto

declare trim_trailing.simps [simp del]

text \<open>\<open>last_slash name i\<close> is the largest index below \<open>i\<close> that holds a slash.\<close>

fun last_slash :: "string \<Rightarrow> nat \<Rightarrow> nat option" where
  "last_slash name 0 = None"
| "last_slash name (Suc i) = (if name ! i = slash then Some i else last_slash name i)"

definition ufs_basename :: "string \<Rightarrow> string" where
  "ufs_basename name =
     (let name = trim_trailing name
      in case last_slash name (length name - 1) of
           None \<Rightarrow> name
         | Some i \<Rightarrow> drop (Suc i) name)"

definition endsWithDot :: "string \<Rightarrow> bool" where
  "endsWithDot path \<longleftrightarrow>
     path = ''.'' \<or>
     (length path \<ge> 2 \<and> path ! (length path - 1) = CHR ''.'' \<and> path ! (length path - 2) = slash)"

fun trim_leading :: "string \<Rightarrow> string" where
  "trim_leading (a # b # path) = (if a = slash \<and> b = slash then trim_leading (b # path) else a # b # path)"
| "trim_leading path = path"

definition ufs_splitPath :: "string \<Rightarrow> string \<times> string" where
  "ufs_splitPath path =
     (let path = trim_trailing (trim_leading path)
      in case last_slash path (length path - 1) of
           None \<Rightarrow> (''.'', path)
         | Some i \<Rightarrow> ((if i = 0 then take 1 path else take i path), drop (Suc i) path))"

section \<open>Confinement to the base path (fs_unix.go)\<close>

record unixfs =
  basePath :: string
  useOpenat2 :: bool

definition NewUnixFS :: "string \<Rightarrow> bool \<Rightarrow> unixfs" where
  "NewUnixFS base openat2 = \<lparr>basePath = TrimSuffix base ''/'', useOpenat2 = openat2\<rparr>"

definition unsafeIsPathInsideOfBase :: "unixfs \<Rightarrow> string \<Rightarrow> bool" where
  "unsafeIsPathInsideOfBase fs path = prefix (basePath fs @ ''/'') (TrimSuffix path ''/'' @ ''/'')"

definition unsafePath :: "unixfs \<Rightarrow> string \<Rightarrow> ufs_error + string" where
  "unsafePath fs path =
     (let r = path_Clean (path_Join [basePath fs, TrimPrefix path (basePath fs)])
      in if unsafeIsPathInsideOfBase fs r
         then (let r = TrimPrefix (TrimPrefix r (basePath fs)) ''/''
               in if r = '''' then Inr ''.'' else Inr r)
         else Inl (PathErr ''safePath'' path ErrBadPathResolution))"

section \<open>Opening files\<close>

text \<open>The flags the code tests and sets; \<open>fl_other\<close> stands for the remaining bits.\<close>

record open_flags =
  fl_negative :: bool
  fl_nofollow :: bool
  fl_path :: bool
  fl_nonblock :: bool
  fl_cloexec :: bool
  fl_largefile :: bool
  fl_directory :: bool
  fl_create :: bool
  fl_excl :: bool
  fl_trunc :: bool

datatype file_type = S_IFREG | S_IFDIR | S_IFOTHER

text \<open>
  What the kernel answers to the calls of one open: the attempts of the open call itself
  (each an error or a descriptor), the type of the opened file, whether switching it to
  blocking mode worked, and the path the descriptor resolves to.
\<close>

record open_answers =
  oa_attempts :: "(errno + nat) list"
  oa_fstat :: "errno + file_type"
  oa_setblock :: "errno option"
  oa_resolved :: "ufs_error + string"

definition sys_openat :: "open_flags \<Rightarrow> open_flags" where
  "sys_openat flag = flag\<lparr>fl_cloexec := True\<rparr>"

definition sys_openat2 :: "open_flags \<Rightarrow> open_flags" where
  "sys_openat2 flag = flag\<lparr>fl_cloexec := True, fl_largefile := True\<rparr>"

definition open_error :: "string \<Rightarrow> string \<Rightarrow> errno \<Rightarrow> ufs_error" where
  "open_error op name e =
     (if e = EINTR \<or> e = EAGAIN then BareErrno e else errnoToPathError e op name)"

text \<open>The retry loop: \<open>None\<close> when every attempt so far was interrupted.\<close>

fun open_loop :: "string \<Rightarrow> string \<Rightarrow> (errno + nat) list \<Rightarrow> (ufs_error + nat) option" where
  "open_loop op name [] = None"
| "open_loop op name (Inr fd # rs) = Some (Inr fd)"
| "open_loop op name (Inl e # rs) = (if e = EINTR then open_loop op name rs else Some (Inl (open_error op name e)))"

definition checkOpenedType :: "string \<Rightarrow> open_answers \<Rightarrow> ufs_error option" where
  "checkOpenedType name a =
     (case oa_fstat a of
        Inl e \<Rightarrow> Some (convertErrorType (PathErr ''fstat'' name (ErrErrno e)))
      | Inr t \<Rightarrow>
          if t \<noteq> S_IFREG \<and> t \<noteq> S_IFDIR then Some (PathErr ''openat'' name ErrNotRegular)
          else case oa_setblock a of
                 Some e \<Rightarrow> Some (convertErrorType (PathErr ''fcntl'' name (ErrErrno e)))
               | None \<Rightarrow> None)"

definition checkOpenedPath :: "unixfs \<Rightarrow> string \<Rightarrow> open_answers \<Rightarrow> ufs_error option" where
  "checkOpenedPath fs name a =
     (let inside = (\<lambda>finalPath err.
        if \<not> unsafeIsPathInsideOfBase fs finalPath
        then Some (PathErr (if useOpenat2 fs then ''openat2'' else ''openat'') name ErrBadPathResolution)
        else err)
      in case oa_resolved a of
           Inr finalPath \<Rightarrow> inside finalPath None
         | Inl err \<Rightarrow>
             (case err of
                PathErr op path v \<Rightarrow>
                  if v = ErrNotExist \<or> v = ErrErrno ENOENT
                  then inside path (Some (convertErrorType err))
                  else Some (convertErrorType err)
              | BareErrno e \<Rightarrow> Some (convertErrorType err)
              | OtherErr n \<Rightarrow> Some (OtherErr n)))"

text \<open>
  The result of opening a name is the returned descriptor or error together with the
  flags the system call was made with, whether it asked for \<^verbatim>\<open>RESOLVE_BENEATH\<close>, and the
  descriptors that were closed again.
\<close>

record open_result =
  or_result :: "ufs_error + nat"
  or_flags :: open_flags
  or_beneath :: bool
  or_closed :: "nat list"

definition openatResolved :: "unixfs \<Rightarrow> string \<Rightarrow> open_flags \<Rightarrow> open_answers \<Rightarrow> open_result option" where
  "openatResolved fs name flag a =
     (let checkType = (\<not> fl_path flag);
          flag = (if checkType then flag\<lparr>fl_nonblock := True\<rparr> else flag);
          sysflag = (if useOpenat2 fs then sys_openat2 flag else sys_openat flag);
          op = (if useOpenat2 fs then ''openat2'' else ''openat'')
      in case open_loop op name (oa_attempts a) of
           None \<Rightarrow> None
         | Some (Inl e) \<Rightarrow> Some \<lparr>or_result = Inl e, or_flags = sysflag, or_beneath = useOpenat2 fs, or_closed = []\<rparr>
         | Some (Inr fd) \<Rightarrow>
             (case (if checkType then checkOpenedType name a else None) of
                Some e \<Rightarrow> Some \<lparr>or_result = Inl e, or_flags = sysflag, or_beneath = useOpenat2 fs, or_closed = [fd]\<rparr>
              | None \<Rightarrow>
                  if useOpenat2 fs then Some \<lparr>or_result = Inr fd, or_flags = sysflag, or_beneath = useOpenat2 fs, or_closed = []\<rparr>
                  else
                    (case checkOpenedPath fs name a of
                       Some e \<Rightarrow> Some \<lparr>or_result = Inl e, or_flags = sysflag, or_beneath = useOpenat2 fs, or_closed = [fd]\<rparr>
                     | None \<Rightarrow> Some \<lparr>or_result = Inr fd, or_flags = sysflag, or_beneath = useOpenat2 fs, or_closed = []\<rparr>)))"

definition ufs_openat :: "unixfs \<Rightarrow> string \<Rightarrow> open_flags \<Rightarrow> open_answers \<Rightarrow> open_result option" where
  "ufs_openat fs name flag a =
     (if fl_negative flag
      then Some \<lparr>or_result = Inl (PathErr ''open'' name (ErrErrno EINVAL)), or_flags = flag, or_beneath = False, or_closed = []\<rparr>
      else openatResolved fs name (flag\<lparr>fl_nofollow := True\<rparr>) a)"

section \<open>Resolving a path to a directory descriptor and a name\<close>

text \<open>
  The result of \<^verbatim>\<open>safePath\<close>: its four return values, where the function that closes the
  descriptors is the list of the descriptors it closes, and the opens it made below the
  root descriptor.
\<close>

record safe_path =
  sp_dirfd :: nat
  sp_file :: string
  sp_close :: "nat list"
  sp_err :: "ufs_error option"
  sp_opens :: "(nat \<times> string \<times> open_result) list"

definition dir_flags :: open_flags where
  "dir_flags = \<lparr>fl_negative = False, fl_nofollow = False, fl_path = False, fl_nonblock = False,
     fl_cloexec = False, fl_largefile = False, fl_directory = True, fl_create = False, fl_excl = False, fl_trunc = False\<rparr>"

definition safePath :: "unixfs \<Rightarrow> string \<Rightarrow> errno + nat \<Rightarrow> open_answers \<Rightarrow> safe_path option" where
  "safePath fs path root a =
     (case unsafePath fs path of
        Inl e \<Rightarrow> Some \<lparr>sp_dirfd = 0, sp_file = '''', sp_close = [], sp_err = Some e, sp_opens = []\<rparr>
      | Inr name \<Rightarrow>
          (case root of
             Inl e \<Rightarrow> Some \<lparr>sp_dirfd = 0, sp_file = '''', sp_close = [],
                           sp_err = Some (open_error ''openat'' (basePath fs) e), sp_opens = []\<rparr>
           | Inr fsDirfd \<Rightarrow>
               (let (dir, file) = path_Split name
                in if dir = ''''
                   then Some \<lparr>sp_dirfd = fsDirfd, sp_file = file, sp_close = [fsDirfd], sp_err = None, sp_opens = []\<rparr>
                   else
                     let dir = TrimSuffix dir ''/''
                     in case ufs_openat fs dir dir_flags a of
                          None \<Rightarrow> None
                        | Some r \<Rightarrow>
                            (case or_result r of
                               Inl e \<Rightarrow> Some \<lparr>sp_dirfd = 0, sp_file = file, sp_close = [fsDirfd], sp_err = Some e,
                                             sp_opens = [(fsDirfd, dir, r)]\<rparr>
                             | Inr fd \<Rightarrow> Some \<lparr>sp_dirfd = fd, sp_file = file, sp_close = [fd, fsDirfd], sp_err = None,
                                              sp_opens = [(fsDirfd, dir, r)]\<rparr>))))"

text \<open>
  \<^verbatim>\<open>TouchPath\<close>: \<open>mkdir\<close> is what \<^verbatim>\<open>MkdirAll\<close> answers for the path it is called with, \<open>retry\<close> the
  second resolution. The last two components are the boolean result and the descriptors
  closed before the second resolution.
\<close>

definition TouchPath ::
  "safe_path \<Rightarrow> (string \<Rightarrow> ufs_error option) \<Rightarrow> safe_path \<Rightarrow> safe_path \<times> bool \<times> nat list" where
  "TouchPath first mkdir retry =
     (case sp_err first of
        None \<Rightarrow> (first, True, [])
      | Some e \<Rightarrow>
          if \<not> is_err ErrNotExist e then (first, False, [])
          else
            (case e of
               PathErr op path v \<Rightarrow>
                 (case mkdir path of
                    Some e' \<Rightarrow> (first\<lparr>sp_err := Some e'\<rparr>, False, [])
                  | None \<Rightarrow> (retry, False, sp_close first))
             | _ \<Rightarrow> (first, False, [])))"

section \<open>Creating missing directories (mkdir_unix.go)\<close>

datatype entry_type = EntDir | EntSymlink | EntOther

text \<open>
  The three operations \<^verbatim>\<open>mkdirAll\<close> calls, on an arbitrary state of the directory tree.
\<close>

record 's tree_ops =
  t_lstat :: "'s \<Rightarrow> string \<Rightarrow> ufs_error + entry_type"
  t_stat :: "'s \<Rightarrow> string \<Rightarrow> ufs_error + entry_type"
  t_mkdir :: "'s \<Rightarrow> string \<Rightarrow> ufs_error option \<times> 's"

text \<open>The two index loops: the end of the last element, and its start.\<close>

definition elem_start :: "string \<Rightarrow> nat" where
  "elem_start name =
     (let s = TrimRight name slash in length s - length (takeWhile (\<lambda>c. c \<noteq> slash) (rev s)))"

lemma elem_start_le: "elem_start name \<le> length name"
proof -
  have "length (TrimRight name slash) \<le> length name"
    using length_dropWhile_le [of "\<lambda>x. x = slash" "rev name"] by (simp add: TrimRight_def)
  then show ?thesis by (simp add: elem_start_def Let_def)
qed

function mkdirAll ::
  "'s tree_ops \<Rightarrow> string \<Rightarrow> 's \<Rightarrow> (string list \<times> ufs_error option) \<times> 's" where
  "mkdirAll ops name s =
     (case t_lstat ops s name of
        Inr dir \<Rightarrow>
          (case (if dir = EntSymlink then t_stat ops s name else Inr dir) of
             Inl e \<Rightarrow>
               if is_err ErrBadPathResolution e
               then (([], Some (PathErr ''mkdir'' name ErrNotDirectory)), s)
               else (([], Some e), s)
           | Inr dir \<Rightarrow>
               if dir = EntDir then (([], None), s)
               else (([], Some (PathErr ''mkdir'' name ErrNotDirectory)), s))
      | Inl _ \<Rightarrow>
          let j = elem_start name;
              ((created, err), s) = (if j > 1 then mkdirAll ops (take (j - 1) name) s else (([], None), s))
          in case err of
               Some e \<Rightarrow> ((created, Some e), s)
             | None \<Rightarrow>
                 (case t_mkdir ops s name of
                    (Some e, s) \<Rightarrow>
                      (case t_lstat ops s name of
                         Inr EntDir \<Rightarrow> ((created, None), s)
                       | _ \<Rightarrow> ((created, Some e), s))
                  | (None, s) \<Rightarrow> ((created @ [name], None), s)))"
  by pat_completeness auto
termination
proof (relation "measure (\<lambda>(_, name, _). length name)", goal_cases)
  case (2 ops name s a x)
  then show ?case using elem_start_le [of name] by simp
qed simp

declare mkdirAll.simps [simp del]

definition MkdirAll ::
  "unixfs \<Rightarrow> 's tree_ops \<Rightarrow> string \<Rightarrow> 's \<Rightarrow> (string list \<times> ufs_error option) \<times> 's" where
  "MkdirAll fs ops name s =
     (case unsafePath fs name of
        Inl e \<Rightarrow> (([], Some e), s)
      | Inr name \<Rightarrow> mkdirAll ops name s)"

section \<open>Renaming (fs_unix.go, server/filesystem/replace.go)\<close>

datatype rename_error = RnPath ufs_error | RnBadPath | RnLink string string string errno

text \<open>
  The answers a rename gets, and the \<^verbatim>\<open>renameat\<close> call it makes: the two directory
  descriptors and names, and whether the call refuses to replace.
\<close>

type_synonym rename_call = "nat \<times> string \<times> nat \<times> string \<times> bool"

record rename_answers =
  rn_old :: safe_path
  rn_old_lstat :: "ufs_error + entry_type"
  rn_old_regular :: bool
  rn_new :: safe_path
  rn_mkdir :: "string \<Rightarrow> ufs_error option"
  rn_retry :: safe_path
  rn_new_lstat :: "ufs_error + entry_type"
  rn_renameat :: "errno list"

definition rename_new :: "rename_answers \<Rightarrow> rename_error + safe_path" where
  "rename_new a =
     (case sp_err (rn_new a) of
        None \<Rightarrow> Inr (rn_new a)
      | Some e \<Rightarrow>
          if \<not> is_err ErrNotExist e then Inl (RnPath e)
          else
            (case e of
               PathErr op path v \<Rightarrow>
                 (case rn_mkdir a path of
                    Some e' \<Rightarrow> Inl (RnPath e')
                  | None \<Rightarrow>
                      (case sp_err (rn_retry a) of Some e' \<Rightarrow> Inl (RnPath e') | None \<Rightarrow> Inr (rn_retry a)))
             | _ \<Rightarrow> Inl (RnPath e)))"

definition Rename :: "string \<Rightarrow> string \<Rightarrow> rename_answers \<Rightarrow> rename_error option \<times> rename_call option" where
  "Rename oldpath newpath a =
     (if oldpath = newpath then (None, None)
      else case sp_err (rn_old a) of Some e \<Rightarrow> (Some (RnPath e), None) | None \<Rightarrow>
        if sp_file (rn_old a) = ''.'' then (Some (RnPath (PathErr ''rename'' ''.'' ErrBadPathResolution)), None)
        else case rn_old_lstat a of Inl e \<Rightarrow> (Some (RnPath e), None) | Inr _ \<Rightarrow>
          (case rename_new a of Inl e \<Rightarrow> (Some e, None) | Inr new \<Rightarrow>
            if sp_file new = ''.'' then (Some (RnPath (PathErr ''rename'' ''.'' ErrBadPathResolution)), None)
            else case rn_new_lstat a of
                   Inr _ \<Rightarrow> (Some (RnPath (PathErr ''rename'' (sp_file new) ErrExist)), None)
                 | Inl e \<Rightarrow>
                     if \<not> is_err ErrNotExist e then (Some (RnPath e), None)
                     else
                       ((case rn_renameat a of
                           [] \<Rightarrow> None
                         | errno # _ \<Rightarrow> Some (RnLink ''rename'' oldpath newpath errno)),
                        Some (sp_dirfd (rn_old a), sp_file (rn_old a), sp_dirfd new, sp_file new, False))))"

text \<open>
  \<^verbatim>\<open>RenameNoReplace\<close> retries while the call is interrupted; \<open>mkdir\<close> here is the creation of
  the parent of the new path.
\<close>

fun renameat2_loop :: "errno list \<Rightarrow> errno option" where
  "renameat2_loop [] = None"
| "renameat2_loop (e # es) = (if e = EINTR then renameat2_loop es else Some e)"

definition rename_noreplace_new :: "string \<Rightarrow> rename_answers \<Rightarrow> rename_error + safe_path" where
  "rename_noreplace_new newdir a =
     (case sp_err (rn_new a) of
        None \<Rightarrow> Inr (rn_new a)
      | Some e \<Rightarrow>
          if \<not> is_err ErrNotExist e then Inl (RnPath e)
          else
            (case rn_mkdir a newdir of
               Some e' \<Rightarrow> Inl (RnPath e')
             | None \<Rightarrow>
                 (case sp_err (rn_retry a) of Some e' \<Rightarrow> Inl (RnPath e') | None \<Rightarrow> Inr (rn_retry a))))"

definition RenameNoReplace ::
  "string \<Rightarrow> string \<Rightarrow> rename_answers \<Rightarrow> rename_error option \<times> rename_call option" where
  "RenameNoReplace oldpath newpath a =
     (if oldpath = newpath then (None, None)
      else case sp_err (rn_old a) of Some e \<Rightarrow> (Some (RnPath e), None) | None \<Rightarrow>
        if sp_file (rn_old a) = ''.'' then (Some RnBadPath, None)
        else case rn_old_lstat a of Inl e \<Rightarrow> (Some (RnPath e), None) | Inr t \<Rightarrow>
          if t = EntSymlink \<or> (t \<noteq> EntDir \<and> \<not> rn_old_regular a)
          then (Some RnBadPath, None)
          else case rename_noreplace_new (path_Dir newpath) a of Inl e \<Rightarrow> (Some e, None) | Inr new \<Rightarrow>
            if sp_file new = ''.'' then (Some RnBadPath, None)
            else
              (map_option (RnLink ''rename'' oldpath newpath) (renameat2_loop (rn_renameat a)),
               Some (sp_dirfd (rn_old a), sp_file (rn_old a), sp_dirfd new, sp_file new, True)))"

section \<open>Lemmas on confinement\<close>

text \<open>A base path the daemon is configured with: absolute, clean and not the root.\<close>

definition base_ok :: "string list \<Rightarrow> string \<Rightarrow> bool" where
  "base_ok bs base \<longleftrightarrow> bs \<noteq> [] \<and> list_all name_ok bs \<and> base = slash # join_on slash bs"

lemma not_slash_last:
  assumes "list_all name_ok ns" "ns \<noteq> []"
  shows "\<not> suffix ''/'' (slash # join_on slash ns)" "join_on slash ns \<noteq> ''''" "hd (join_on slash ns) \<noteq> slash"
proof -
  have last: "last ns \<noteq> ''''" "slash \<notin> set (last ns)"
    using assms by (auto simp: list_all_iff name_ok_def dest!: last_in_set)
  obtain ms where ms: "ns = ms @ [last ns]" using assms(2) by (metis append_butlast_last_id)
  have tl: "\<exists>u. join_on slash ns = u @ last ns"
    by (subst ms, cases "ms = []") (simp_all add: join_on_append)
  then obtain u where u: "join_on slash ns = u @ last ns" by blast
  have "last (join_on slash ns) \<noteq> slash" using u last by (metis last_appendR last_in_set)
  moreover show ne: "join_on slash ns \<noteq> ''''" using u last by simp
  ultimately show "\<not> suffix ''/'' (slash # join_on slash ns)"
    by (metis last_ConsR last_snoc suffix_def)
  obtain n ns' where n: "ns = n # ns'" using assms(2) by (cases ns) auto
  then have "n \<noteq> ''''" "slash \<notin> set n" using assms(1) by (auto simp: name_ok_def)
  then show "hd (join_on slash ns) \<noteq> slash" using n by (cases ns'; cases n) auto
qed

lemma TrimSuffix_clean:
  "list_all name_ok ns \<Longrightarrow> TrimSuffix (slash # join_on slash ns) ''/'' @ ''/'' = slash # slashed ns"
proof (cases "ns = []")
  case True
  then show ?thesis by (simp add: TrimSuffix_def slashed_def)
next
  case False
  assume "list_all name_ok ns"
  with not_slash_last [OF this False] False show ?thesis by (simp add: TrimSuffix_def join_slashed)
qed

lemma inside_iff_prefix:
  assumes "base_ok bs (basePath fs)" "list_all name_ok cs"
  shows "unsafeIsPathInsideOfBase fs (slash # join_on slash cs) \<longleftrightarrow> prefix bs cs"
  using assms prefix_slashed [of bs cs] TrimSuffix_clean [OF assms(2)]
  by (simp add: unsafeIsPathInsideOfBase_def base_ok_def join_slashed)

lemma unsafePath_joined:
  assumes "base_ok bs base"
  shows "path_Clean (path_Join [base, p]) = slash # join_on slash (resolve bs (split_on slash p))"
proof -
  have ok: "list_all name_ok (resolve bs (split_on slash p))"
    using assms resolve_ok split_no_slash by (auto simp: base_ok_def)
  have "path_Join [base, p] = slash # join_on slash (resolve bs (split_on slash p))"
    using assms path_Join_abs [of bs p] by (simp add: base_ok_def)
  with ok show ?thesis by (simp add: path_Clean_clean)
qed

lemma TrimPrefix_base:
  assumes "base_ok bs base" "list_all name_ok ns"
  shows "TrimPrefix (TrimPrefix (slash # join_on slash (bs @ ns)) base) ''/'' = join_on slash ns"
proof (cases "ns = []")
  case True
  then show ?thesis using assms TrimPrefix_append [of base "[]"] by (simp add: base_ok_def TrimPrefix_def)
next
  case False
  then have "slash # join_on slash (bs @ ns) = base @ slash # join_on slash ns"
    using assms by (simp add: base_ok_def join_on_append)
  then show ?thesis using TrimPrefix_append [of "''/''" "join_on slash ns"] by simp
qed

lemma unsafePath_spec:
  assumes "base_ok bs (basePath fs)"
  shows "unsafePath fs p =
    (let cs = resolve bs (split_on slash (TrimPrefix p (basePath fs)))
     in if prefix bs cs
        then Inr (if cs = bs then ''.'' else join_on slash (drop (length bs) cs))
        else Inl (PathErr ''safePath'' p ErrBadPathResolution))"
proof -
  let ?cs = "resolve bs (split_on slash (TrimPrefix p (basePath fs)))"
  have ok: "list_all name_ok ?cs"
    using assms resolve_ok split_no_slash by (auto simp: base_ok_def)
  note r = unsafePath_joined [OF assms, of "TrimPrefix p (basePath fs)"]
  show ?thesis
  proof (cases "prefix bs ?cs")
    case False
    with inside_iff_prefix [OF assms ok] r show ?thesis by (simp add: unsafePath_def Let_def)
  next
    case True
    then obtain ns where ns: "?cs = bs @ ns" by (auto simp: prefix_def)
    with ok have nok: "list_all name_ok ns" by simp
    have "join_on slash ns = '''' \<longleftrightarrow> ns = []" using not_slash_last(2) [OF nok] by auto
    with True inside_iff_prefix [OF assms ok] r TrimPrefix_base [OF assms nok] ns show ?thesis
      by (simp add: unsafePath_def Let_def)
  qed
qed

lemma unsafePath_InrE:
  assumes "base_ok bs (basePath fs)" "unsafePath fs p = Inr r"
  obtains "r = ''.''" | ns where "ns \<noteq> []" "list_all name_ok ns" "r = join_on slash ns"
proof -
  let ?cs = "resolve bs (split_on slash (TrimPrefix p (basePath fs)))"
  have ok: "list_all name_ok ?cs"
    using assms resolve_ok split_no_slash by (auto simp: base_ok_def)
  from assms obtain ns where ns: "?cs = bs @ ns" "r = (if ns = [] then ''.'' else join_on slash ns)"
    by (auto simp: unsafePath_spec Let_def prefix_def split: if_splits)
  with ok that show thesis by (cases "ns = []") auto
qed

lemma path_Split_names:
  assumes "list_all name_ok (ms @ [n])"
  shows "path_Split (join_on slash (ms @ [n])) = (if ms = [] then '''' else join_on slash ms @ ''/'', n)"
proof -
  have n: "slash \<notin> set n" using assms by (simp add: name_ok_def)
  have a: "takeWhile (\<lambda>c. c \<noteq> slash) (rev n) = rev n"
    using n by (intro takeWhile_eq_all_conv [THEN iffD2]) auto
  have b: "takeWhile (\<lambda>c. c \<noteq> slash) (rev n @ slash # x) = rev n" for x
    using n by (subst takeWhile_append2) auto
  show ?thesis
    by (cases "ms = []") (simp_all add: path_Split_def Let_def join_on_append a b)
qed

lemma openat_flags:
  assumes "ufs_openat fs name flag a = Some r" "\<not> fl_negative flag"
  shows "fl_nofollow (or_flags r)" "fl_cloexec (or_flags r)" "or_beneath r = useOpenat2 fs"
  using assms
  by (auto simp: ufs_openat_def openatResolved_def sys_openat_def sys_openat2_def Let_def
      split: option.splits sum.splits if_splits)

lemma elem_start_names:
  assumes "list_all name_ok (ms @ [n])"
  shows "elem_start (join_on slash (ms @ [n])) = (if ms = [] then 0 else length (join_on slash ms) + 1)"
proof -
  have n: "slash \<notin> set n" "n \<noteq> ''''" using assms by (auto simp: name_ok_def)
  obtain x ys where x: "rev n = x # ys" "x \<noteq> slash"
    using n by (cases "rev n") auto
  have a: "takeWhile (\<lambda>c. c \<noteq> slash) (rev n) = rev n"
    using n(1) by (intro takeWhile_eq_all_conv [THEN iffD2]) auto
  have b: "takeWhile (\<lambda>c. c \<noteq> slash) (rev n @ slash # z) = rev n" for z
    using n(1) by (subst takeWhile_append2) auto
  have tr: "TrimRight (u @ n) slash = u @ n" for u
    using x by (simp add: TrimRight_def)
  show ?thesis
    using tr [of "[]"] tr [of "join_on slash ms @ ''/''"]
    by (cases "ms = []") (simp_all add: elem_start_def Let_def join_on_append a b)
qed

lemma mkdirAll_created:
  assumes "list_all name_ok ns" "ns \<noteq> []" "mkdirAll ops (join_on slash ns) s = ((created, err), s')"
  shows "\<exists>ks. created = map (\<lambda>k. join_on slash (take k ns)) ks \<and> sorted_wrt (<) ks \<and> set ks \<subseteq> {1..length ns}"
  using assms
proof (induction ns arbitrary: s created err s' rule: rev_induct)
  case Nil
  then show ?case by simp
next
  case (snoc n ms)
  let ?name = "join_on slash (ms @ [n])"
  have j: "elem_start ?name = (if ms = [] then 0 else length (join_on slash ms) + 1)"
    using snoc.prems(1) by (rule elem_start_names)
  have parent: "take (elem_start ?name - 1) ?name = join_on slash ms" if "ms \<noteq> []"
    using that j by (simp add: join_on_append)
  have gt: "elem_start ?name > 1 \<longleftrightarrow> ms \<noteq> []"
    using j snoc.prems(1) not_slash_last(2) [of ms] by (cases "ms = []") auto
  show ?case
  proof (cases "t_lstat ops s ?name")
    case (Inr d)
    with snoc.prems(3) have "created = []"
      by (auto simp: mkdirAll.simps [of ops ?name] split: sum.splits if_splits)
    then show ?thesis by (intro exI [of _ "[]"]) simp
  next
    case (Inl e)
    obtain c1 e1 s1 where p: "(if ms \<noteq> [] then mkdirAll ops (join_on slash ms) s else (([], None), s)) = ((c1, e1), s1)"
      by (metis prod_cases3 surj_pair)
    have "\<exists>ks. c1 = map (\<lambda>k. join_on slash (take k ms)) ks \<and> sorted_wrt (<) ks \<and> set ks \<subseteq> {1..length ms}"
      using snoc.IH [of s c1 e1 s1] snoc.prems(1) p by (cases "ms = []") auto
    then obtain ks where ks': "c1 = map (\<lambda>k. join_on slash (take k ms)) ks" "sorted_wrt (<) ks" "set ks \<subseteq> {1..length ms}"
      by blast
    then have ks: "c1 = map (\<lambda>k. join_on slash (take k (ms @ [n]))) ks" "sorted_wrt (<) ks" "set ks \<subseteq> {1..length ms}"
      by (auto simp: subset_iff)
    have "created = c1 \<or> created = c1 @ [?name]"
      using snoc.prems(3) Inl p parent gt
      by (auto simp: mkdirAll.simps [of ops ?name] Let_def split: option.splits prod.splits sum.splits if_splits entry_type.splits)
    then show ?thesis
    proof
      assume "created = c1"
      with ks show ?thesis by (intro exI [of _ ks]) auto
    next
      assume "created = c1 @ [?name]"
      with ks show ?thesis by (intro exI [of _ "ks @ [Suc (length ms)]"]) (auto simp: sorted_wrt_append subset_iff)
    qed
  qed
qed

section \<open>Properties\<close>

text \<open>
  C2. Path confinement, as a refinement: with a clean absolute base path, \<^verbatim>\<open>unsafePath\<close> on any
  string whatsoever computes what walking its elements from the base computes (\<open>..\<close> goes up,
  empty and \<open>.\<close> elements stay); it answers with the components below the base when the walk
  ends inside the base and refuses the path otherwise.
\<close>

theorem unsafePath_refines_resolve:
  assumes "base_ok bs (basePath fs)"
  shows "unsafePath fs p =
    (let cs = resolve bs (split_on slash (TrimPrefix p (basePath fs)))
     in if prefix bs cs
        then Inr (if cs = bs then ''.'' else join_on slash (drop (length bs) cs))
        else Inl (PathErr ''safePath'' p ErrBadPathResolution))"
  using assms by (rule unsafePath_spec)

definition srv :: unixfs where
  "srv = \<lparr>basePath = ''/srv/a'', useOpenat2 = False\<rparr>"

lemma srv_base: "base_ok [''srv'', ''a''] (basePath srv)"
  by (simp add: base_ok_def srv_def name_ok_def)

theorem unsafePath_refines_resolve_witness:
  "unsafePath srv ''/x/../../a/./y//z'' = Inr ''y/z'' \<and>
   unsafePath srv ''/x/../../b'' = Inl (PathErr ''safePath'' ''/x/../../b'' ErrBadPathResolution)"
  using unsafePath_refines_resolve [OF srv_base, of "''/x/../../a/./y//z''"]
    unsafePath_refines_resolve [OF srv_base, of "''/x/../../b''"]
  by (simp add: srv_def TrimPrefix_def)

text \<open>
  C21. A resolved path is canonical: what \<^verbatim>\<open>unsafePath\<close> returns is \<open>.\<close> or names joined by single
  slashes, none of them empty, \<open>.\<close> or \<open>..\<close>, and resolving it again, or resolving it with the
  base path in front, gives the same path.
\<close>

theorem unsafePath_canonical:
  assumes base: "base_ok bs (basePath fs)" and r: "unsafePath fs p = Inr r"
  shows "(r = ''.'' \<or> (split_on slash r \<noteq> [] \<and> list_all name_ok (split_on slash r))) \<and>
    unsafePath fs r = Inr r \<and> unsafePath fs (basePath fs @ ''/'' @ r) = Inr r"
  using base r
proof (cases rule: unsafePath_InrE)
  case 1
  have "\<not> prefix (basePath fs) ''.''" using base by (auto simp: base_ok_def)
  with 1 base show ?thesis by (simp add: unsafePath_spec TrimPrefix_not split_on_none)
next
  case (2 ns)
  have "hd r \<noteq> slash" "r \<noteq> ''''" using not_slash_last [OF 2(2,1)] 2(3) by auto
  then have np: "\<not> prefix (basePath fs) r" using base by (cases r) (auto simp: base_ok_def)
  have sp: "split_on slash r = ns" using 2 by (simp add: split_join_names)
  have "split_on slash (''/'' @ r) = '''' # ns" using sp by simp
  moreover have "resolve bs ns = bs @ ns" using 2(2) by (rule resolve_names)
  ultimately show ?thesis using 2 sp np base by (simp add: unsafePath_spec TrimPrefix_not)
qed

theorem unsafePath_canonical_witness:
  "unsafePath srv ''y/z'' = Inr ''y/z'' \<and> unsafePath srv ''/srv/a/y/z'' = Inr ''y/z''"
proof -
  have "unsafePath srv ''q/../y/z'' = Inr ''y/z''"
    by (simp add: unsafePath_spec [OF srv_base]) (simp add: srv_def TrimPrefix_def)
  from unsafePath_canonical [OF srv_base this] show ?thesis by (simp add: srv_def)
qed



text \<open>
  C26. \<^verbatim>\<open>mkdirAll\<close> ends for every behaviour of the directory tree, and the directories it
  reports as created, also when it fails, are ancestors of the path or the path itself, in
  order from the shallowest to the deepest without repetition.
\<close>

theorem mkdirAll_creates_ancestors:
  assumes "list_all name_ok ns" "ns \<noteq> []" "mkdirAll ops (join_on slash ns) s = ((created, err), s')"
  shows "\<exists>ks. created = map (\<lambda>k. join_on slash (take k ns)) ks \<and> sorted_wrt (<) ks \<and> set ks \<subseteq> {1..length ns}"
  using assms by (rule mkdirAll_created)

definition list_tree :: "string list tree_ops" where
  "list_tree = \<lparr>t_lstat = (\<lambda>s n. if n \<in> set s then Inr EntDir else Inl (PathErr ''lstat'' n ErrNotExist)),
     t_stat = (\<lambda>s n. if n \<in> set s then Inr EntDir else Inl (PathErr ''stat'' n ErrNotExist)),
     t_mkdir = (\<lambda>s n. (None, n # s))\<rparr>"

theorem mkdirAll_creates_ancestors_witness:
  "\<exists>ks. [''a/b'', ''a/b/c''] = map (\<lambda>k. join_on slash (take k [''a'', ''b'', ''c''])) ks \<and> sorted_wrt (<) ks \<and>
     set ks \<subseteq> {1..3} \<and> fst (mkdirAll list_tree ''a/b/c'' [''a'']) = ([''a/b'', ''a/b/c''], None)"
proof -
  have run: "mkdirAll list_tree ''a/b/c'' [''a''] = (([''a/b'', ''a/b/c''], None), [''a/b/c'', ''a/b'', ''a''])"
    by code_simp
  have ns: "list_all name_ok [''a'', ''b'', ''c'']" by (simp add: name_ok_def)
  have "mkdirAll list_tree (join_on slash [''a'', ''b'', ''c'']) [''a''] =
      (([''a/b'', ''a/b/c''], None), [''a/b/c'', ''a/b'', ''a''])" using run by simp
  from mkdirAll_creates_ancestors [OF ns _ this] run show ?thesis by (simp add: numeral_3_eq_3)
qed

end
