(* ===== verification/Power_Lock.thy ===== *)
theory Power_Lock
  imports Wings_Prelude
begin

text \<open>
  The power lock of a server (\<^verbatim>\<open>system/locker.go\<close>): a channel of capacity one whose value
  marks the lock as taken, and a channel that is closed when the locker is destroyed. The
  operations that hold \<^verbatim>\<open>mu\<close> throughout are single steps; \<^verbatim>\<open>TryAcquire\<close> waits on the channel
  without \<^verbatim>\<open>mu\<close> and takes \<^verbatim>\<open>mu\<close> only after its value was sent, so it is several steps.
\<close>

section \<open>The operations\<close>

datatype locker_error = ErrLockerLocked | ErrLockerDestroyed

record locker =
  lk_ch :: bool
  lk_done :: bool

definition NewLocker :: locker where
  "NewLocker = \<lparr>lk_ch = False, lk_done = False\<rparr>"

definition IsLocked :: "locker \<Rightarrow> bool" where
  "IsLocked l = lk_ch l"

definition destroyed :: "locker \<Rightarrow> bool" where
  "destroyed l = lk_done l"

definition Acquire :: "locker \<Rightarrow> locker_error option \<times> locker" where
  "Acquire l =
     (if destroyed l then (Some ErrLockerDestroyed, l)
      else if lk_ch l then (Some ErrLockerLocked, l)
      else (None, l\<lparr>lk_ch := True\<rparr>))"

definition Release :: "locker \<Rightarrow> locker" where
  "Release l = l\<lparr>lk_ch := False\<rparr>"

definition Destroy :: "locker \<Rightarrow> locker" where
  "Destroy l = (if destroyed l then l else l\<lparr>lk_ch := False, lk_done := True\<rparr>)"

text \<open>
  The pieces of \<^verbatim>\<open>TryAcquire\<close>: the first select, the three branches of the second one, and
  what is done under \<^verbatim>\<open>mu\<close> once the value was sent.
\<close>

definition try_begin :: "locker \<Rightarrow> locker_error option" where
  "try_begin l = (if lk_done l then Some ErrLockerDestroyed else None)"

definition try_send :: "locker \<Rightarrow> locker option" where
  "try_send l = (if lk_ch l then None else Some (l\<lparr>lk_ch := True\<rparr>))"

definition try_finish :: "locker \<Rightarrow> locker_error option \<times> locker" where
  "try_finish l =
     (if destroyed l then (Some ErrLockerDestroyed, l\<lparr>lk_ch := False\<rparr>) else (None, l))"

datatype ctx_err = CtxNil | CtxDeadlineExceeded | CtxCanceled | CtxOther

definition try_ctx :: "ctx_err \<Rightarrow> locker_error option" where
  "try_ctx e = (if e = CtxDeadlineExceeded \<or> e = CtxCanceled then Some ErrLockerLocked else None)"

section \<open>Concurrent callers\<close>

text \<open>
  Where a goroutine is: not using the lock, in the second select of \<^verbatim>\<open>TryAcquire\<close>, between
  its send and the check under \<^verbatim>\<open>mu\<close>, or holding the lock after \<^verbatim>\<open>Acquire\<close> or \<^verbatim>\<open>TryAcquire\<close>
  returned nil. Only a holder calls \<^verbatim>\<open>Release\<close>. A context is done with one of the two errors
  of the \<^verbatim>\<open>context\<close> package.
\<close>

datatype lock_pc = Idle | Waiting | Sent | Holding

record lock_sys =
  ls_lock :: locker
  ls_pc :: "nat \<Rightarrow> lock_pc"

inductive lock_step :: "lock_sys \<Rightarrow> lock_sys \<Rightarrow> bool" where
  lk_acquire: "ls_pc s i = Idle \<Longrightarrow> Acquire (ls_lock s) = (err, l) \<Longrightarrow>
     lock_step s \<lparr>ls_lock = l, ls_pc = (ls_pc s)(i := if err = None then Holding else Idle)\<rparr>"
| lk_try_begin: "ls_pc s i = Idle \<Longrightarrow>
     lock_step s \<lparr>ls_lock = ls_lock s,
       ls_pc = (ls_pc s)(i := if try_begin (ls_lock s) = None then Waiting else Idle)\<rparr>"
| lk_try_send: "ls_pc s i = Waiting \<Longrightarrow> try_send (ls_lock s) = Some l \<Longrightarrow>
     lock_step s \<lparr>ls_lock = l, ls_pc = (ls_pc s)(i := Sent)\<rparr>"
| lk_try_done: "ls_pc s i = Waiting \<Longrightarrow> lk_done (ls_lock s) \<Longrightarrow>
     lock_step s \<lparr>ls_lock = ls_lock s, ls_pc = (ls_pc s)(i := Idle)\<rparr>"
| lk_try_ctx: "ls_pc s i = Waiting \<Longrightarrow> e = CtxDeadlineExceeded \<or> e = CtxCanceled \<Longrightarrow>
     lock_step s \<lparr>ls_lock = ls_lock s,
       ls_pc = (ls_pc s)(i := if try_ctx e = None then Holding else Idle)\<rparr>"
| lk_try_finish: "ls_pc s i = Sent \<Longrightarrow> try_finish (ls_lock s) = (err, l) \<Longrightarrow>
     lock_step s \<lparr>ls_lock = l, ls_pc = (ls_pc s)(i := if err = None then Holding else Idle)\<rparr>"
| lk_release: "ls_pc s i = Holding \<Longrightarrow>
     lock_step s \<lparr>ls_lock = Release (ls_lock s), ls_pc = (ls_pc s)(i := Idle)\<rparr>"
| lk_destroy: "lock_step s \<lparr>ls_lock = Destroy (ls_lock s), ls_pc = ls_pc s\<rparr>"

inductive_cases lock_stepE: "lock_step s t"

definition lock_init :: lock_sys where
  "lock_init = \<lparr>ls_lock = NewLocker, ls_pc = (\<lambda>_. Idle)\<rparr>"

definition owns :: "lock_pc \<Rightarrow> bool" where
  "owns pc \<longleftrightarrow> pc = Sent \<or> pc = Holding"

text \<open>
  Before the locker is destroyed the channel holds a value exactly when some goroutine has
  sent one, and only one has; afterwards at most the last holder is left.
\<close>

definition lock_inv :: "lock_sys \<Rightarrow> bool" where
  "lock_inv s \<longleftrightarrow>
     (if lk_done (ls_lock s)
      then (\<forall>i j. ls_pc s i = Holding \<longrightarrow> ls_pc s j = Holding \<longrightarrow> i = j)
      else (lk_ch (ls_lock s) \<longleftrightarrow> (\<exists>i. owns (ls_pc s i))) \<and>
           (\<forall>i j. owns (ls_pc s i) \<longrightarrow> owns (ls_pc s j) \<longrightarrow> i = j))"

lemmas locker_defs = Acquire_def Release_def Destroy_def destroyed_def try_begin_def try_send_def
  try_finish_def try_ctx_def

lemma owns_simps [simp]: "owns Sent" "owns Holding" "\<not> owns Idle" "\<not> owns Waiting"
  by (simp_all add: owns_def)

lemma lock_inv_step: "lock_step s t \<Longrightarrow> lock_inv s \<Longrightarrow> lock_inv t"
proof (elim lock_stepE)
  fix i err l assume "lock_inv s" "ls_pc s i = Idle" "Acquire (ls_lock s) = (err, l)"
    "t = \<lparr>ls_lock = l, ls_pc = (ls_pc s)(i := if err = None then Holding else Idle)\<rparr>"
  then show "lock_inv t" by (auto simp: lock_inv_def locker_defs split: if_splits; metis owns_simps)
next
  fix i assume "lock_inv s" "ls_pc s i = Idle"
    "t = \<lparr>ls_lock = ls_lock s, ls_pc = (ls_pc s)(i := if try_begin (ls_lock s) = None then Waiting else Idle)\<rparr>"
  then show "lock_inv t" by (auto simp: lock_inv_def locker_defs split: if_splits; metis owns_simps)
next
  fix i l assume "lock_inv s" "ls_pc s i = Waiting" "try_send (ls_lock s) = Some l"
    "t = \<lparr>ls_lock = l, ls_pc = (ls_pc s)(i := Sent)\<rparr>"
  then show "lock_inv t" by (auto simp: lock_inv_def locker_defs split: if_splits; metis owns_simps)
next
  fix i assume "lock_inv s" "ls_pc s i = Waiting" "lk_done (ls_lock s)"
    "t = \<lparr>ls_lock = ls_lock s, ls_pc = (ls_pc s)(i := Idle)\<rparr>"
  then show "lock_inv t" by (auto simp: lock_inv_def; metis owns_simps)
next
  fix i e assume "lock_inv s" "ls_pc s i = Waiting" "e = CtxDeadlineExceeded \<or> e = CtxCanceled"
    "t = \<lparr>ls_lock = ls_lock s, ls_pc = (ls_pc s)(i := if try_ctx e = None then Holding else Idle)\<rparr>"
  then show "lock_inv t" by (auto simp: lock_inv_def locker_defs split: if_splits; metis owns_simps)
next
  fix i err l assume "lock_inv s" "ls_pc s i = Sent" "try_finish (ls_lock s) = (err, l)"
    "t = \<lparr>ls_lock = l, ls_pc = (ls_pc s)(i := if err = None then Holding else Idle)\<rparr>"
  then show "lock_inv t" by (auto simp: lock_inv_def locker_defs split: if_splits; metis owns_simps)
next
  fix i assume "lock_inv s" "ls_pc s i = Holding"
    "t = \<lparr>ls_lock = Release (ls_lock s), ls_pc = (ls_pc s)(i := Idle)\<rparr>"
  then show "lock_inv t" by (auto simp: lock_inv_def locker_defs split: if_splits; metis owns_simps)
next
  assume "lock_inv s" "t = \<lparr>ls_lock = Destroy (ls_lock s), ls_pc = ls_pc s\<rparr>"
  then show "lock_inv t" by (auto simp: lock_inv_def locker_defs split: if_splits; metis owns_simps)
qed

interpretation powerlock: step_relation lock_step lock_inv
  by unfold_locales (rule lock_inv_step)

lemma lock_init_inv: "lock_inv lock_init"
  by (simp add: lock_inv_def lock_init_def NewLocker_def)

section \<open>Properties\<close>

text \<open>
  C28. The power lock excludes: whatever the interleaving of \<^verbatim>\<open>Acquire\<close>, \<^verbatim>\<open>TryAcquire\<close> with
  timeouts, \<^verbatim>\<open>Release\<close> by holders and \<^verbatim>\<open>Destroy\<close>, at most one goroutine holds the lock, and
  while a goroutine holds a lock that is not destroyed, \<^verbatim>\<open>IsLocked\<close> reports it.
\<close>

theorem power_lock_exclusive:
  assumes "rtranclp lock_step lock_init s" and "ls_pc s i = Holding"
  shows "(ls_pc s j = Holding \<longrightarrow> i = j) \<and> (\<not> destroyed (ls_lock s) \<longrightarrow> IsLocked (ls_lock s))"
proof -
  have "lock_inv s" using powerlock.reach_keeps [OF assms(1) lock_init_inv] .
  with assms(2) show ?thesis
    by (metis IsLocked_def destroyed_def lock_inv_def owns_simps(2))
qed

theorem power_lock_exclusive_witness:
  "\<exists>s. rtranclp lock_step lock_init s \<and> ls_pc s 1 = Holding \<and> (ls_pc s 2 = Holding \<longrightarrow> (1::nat) = 2) \<and> IsLocked (ls_lock s)"
proof -
  let ?s1 = "\<lparr>ls_lock = NewLocker, ls_pc = (\<lambda>_. Idle)(1 := Waiting)\<rparr>"
  let ?s2 = "\<lparr>ls_lock = NewLocker\<lparr>lk_ch := True\<rparr>, ls_pc = (\<lambda>_. Idle)(1 := Sent)\<rparr>"
  let ?s3 = "\<lparr>ls_lock = NewLocker\<lparr>lk_ch := True\<rparr>, ls_pc = (\<lambda>_. Idle)(1 := Holding)\<rparr>"
  have "lock_step lock_init ?s1"
    using lk_try_begin [of lock_init 1] by (simp add: lock_init_def try_begin_def NewLocker_def)
  moreover have "lock_step ?s1 ?s2"
    using lk_try_send [of ?s1 1 "NewLocker\<lparr>lk_ch := True\<rparr>"] by (simp add: try_send_def NewLocker_def)
  moreover have "lock_step ?s2 ?s3"
    using lk_try_finish [of ?s2 1 None "NewLocker\<lparr>lk_ch := True\<rparr>"]
    by (simp add: try_finish_def destroyed_def NewLocker_def)
  ultimately have reach: "rtranclp lock_step lock_init ?s3"
    by (meson converse_rtranclp_into_rtranclp rtranclp.rtrancl_refl)
  from power_lock_exclusive [OF this, of 1 2] reach show ?thesis
    by (intro exI [of _ ?s3]) (simp add: destroyed_def NewLocker_def)
qed

text \<open>
  A destroyed lock is never acquired again: from a state in which the locker is
  destroyed, no sequence of steps makes a goroutine a holder that was not one before.
\<close>

theorem destroyed_lock_not_acquired:
  assumes "rtranclp lock_step s t" and "destroyed (ls_lock s)"
  shows "destroyed (ls_lock t) \<and> (ls_pc t i = Holding \<longrightarrow> ls_pc s i = Holding)"
  using assms
proof (induction rule: rtranclp_induct)
  case base
  then show ?case by simp
next
  case (step t u)
  then have d: "destroyed (ls_lock t)" "ls_pc t i = Holding \<longrightarrow> ls_pc s i = Holding" by auto
  have "destroyed (ls_lock u) \<and> (ls_pc u i = Holding \<longrightarrow> ls_pc t i = Holding)"
    using step(2) d(1) by (elim lock_stepE) (auto simp: locker_defs split: if_splits)
  with d show ?case by blast
qed

theorem destroyed_lock_not_acquired_witness:
  "\<exists>s t. destroyed (ls_lock s) \<and> lock_step s t \<and> ls_lock t = \<lparr>lk_ch = True, lk_done = True\<rparr> \<and>
     (ls_pc t (3::nat) = Holding \<longrightarrow> ls_pc s 3 = Holding)"
proof -
  let ?s = "\<lparr>ls_lock = \<lparr>lk_ch = False, lk_done = True\<rparr>, ls_pc = (\<lambda>_. Waiting)\<rparr>"
  let ?t = "\<lparr>ls_lock = \<lparr>lk_ch = True, lk_done = True\<rparr>, ls_pc = (\<lambda>_. Waiting)(3 := Sent)\<rparr>"
  have d: "destroyed (ls_lock ?s)" by (simp add: destroyed_def)
  have st: "lock_step ?s ?t"
    using lk_try_send [of ?s 3 "\<lparr>lk_ch = True, lk_done = True\<rparr>"] by (simp add: try_send_def)
  then have "rtranclp lock_step ?s ?t" by (rule r_into_rtranclp)
  from destroyed_lock_not_acquired [OF this d, of 3] d st show ?thesis
    by (intro exI [of _ ?s] exI [of _ ?t]) simp
qed

end
