(* ===== verification/Power_Actions.thy ===== *)
theory Power_Actions
  imports Power_Lock Go_Strings
begin

text \<open>
  Power actions and the state of a server's process: \<^verbatim>\<open>server/power.go\<close> (the actions),
  \<^verbatim>\<open>environment/docker/power.go\<close> and \<^verbatim>\<open>environment.go\<close> (the Docker environment),
  \<^verbatim>\<open>OnStateChange\<close> of \<^verbatim>\<open>server/server.go\<close> and \<^verbatim>\<open>server/crash.go\<close> (crash detection).

  What Docker, the panel and the filesystem answer are arguments, collected in records.
\<close>

section \<open>The state of the environment (environment.go)\<close>

datatype proc_state = Offline | Starting | Running | Stopping

text \<open>\<open>ev_events\<close> are the state change events published so far, oldest first.\<close>

record env =
  ev_state :: proc_state
  ev_events :: "proc_state list"

definition SetState :: "proc_state \<Rightarrow> env \<Rightarrow> env" where
  "SetState st e =
     (if ev_state e \<noteq> st then e\<lparr>ev_state := st, ev_events := ev_events e @ [st]\<rparr> else e)"

type_synonym power_error = nat

text \<open>What inspecting the container answers.\<close>

record container_state =
  cs_running :: bool
  cs_exit_code :: int
  cs_oom :: bool

datatype inspect_result = InspNotFound | InspErr power_error | InspOk container_state

datatype exit_error = ExitInspect power_error | ExitNegative int | ExitOversized int

definition ExitState :: "inspect_result \<Rightarrow> exit_error + int \<times> bool" where
  "ExitState insp =
     (case insp of
        InspNotFound \<Rightarrow> Inr (1, False)
      | InspErr e \<Rightarrow> Inl (ExitInspect e)
      | InspOk c \<Rightarrow>
          if cs_exit_code c < 0 then Inl (ExitNegative (cs_exit_code c))
          else if cs_exit_code c > 2 ^ 32 - 1 then Inl (ExitOversized (cs_exit_code c))
          else Inr (cs_exit_code c, cs_oom c))"

section \<open>Starting and stopping the container (environment/docker/power.go)\<close>

datatype remove_result = RmOk | RmNotFound | RmErr power_error

record start_answers =
  sa_begin :: "power_error option"
  sa_inspect :: inspect_result
  sa_reconcile :: "power_error option"
  sa_log_exists :: bool
  sa_truncate :: "power_error option"
  sa_remove :: remove_result
  sa_create :: "power_error option"
  sa_attach :: "power_error option"
  sa_start :: "power_error option"
  sa_finish :: "power_error option"

definition env_onBeforeStart :: "start_answers \<Rightarrow> power_error option" where
  "env_onBeforeStart a = (case sa_remove a of RmErr e \<Rightarrow> Some e | _ \<Rightarrow> sa_create a)"

definition OnBeforeStart :: "start_answers \<Rightarrow> power_error option" where
  "OnBeforeStart a = (case sa_begin a of Some e \<Rightarrow> Some e | None \<Rightarrow> env_onBeforeStart a)"

text \<open>The part of \<^verbatim>\<open>Start\<close> after the state was set to starting, with the deferred function.\<close>

definition start_boot :: "start_answers \<Rightarrow> env \<Rightarrow> power_error option \<times> env" where
  "start_boot a e =
     (let e = SetState Starting e;
          err = (case env_onBeforeStart a of Some x \<Rightarrow> Some x | None \<Rightarrow>
                  (case sa_attach a of Some x \<Rightarrow> Some x | None \<Rightarrow>
                    (case sa_start a of Some x \<Rightarrow> Some x | None \<Rightarrow> sa_finish a)))
      in case err of
           Some x \<Rightarrow> (Some x, SetState Offline (SetState Stopping e))
         | None \<Rightarrow> (None, e))"

definition env_Start :: "start_answers \<Rightarrow> env \<Rightarrow> power_error option \<times> env" where
  "env_Start a e =
     (case sa_begin a of Some x \<Rightarrow> (Some x, e) | None \<Rightarrow>
       (case sa_inspect a of
          InspErr x \<Rightarrow> (Some x, e)
        | InspNotFound \<Rightarrow> start_boot a e
        | InspOk c \<Rightarrow>
            if cs_running c then
              (let e = SetState Running e
               in case sa_reconcile a of Some x \<Rightarrow> (Some x, e) | None \<Rightarrow> (sa_attach a, e))
            else if sa_log_exists a \<and> sa_truncate a \<noteq> None then (sa_truncate a, e)
            else start_boot a e))"

datatype kill_result = KillOk | KillNotFound | KillErr power_error

record stop_answers =
  so_inspect :: inspect_result
  so_kill :: kill_result
  so_attached :: bool
  so_send :: "power_error option"
  so_docker_stop :: kill_result

definition SignalContainer :: "stop_answers \<Rightarrow> env \<Rightarrow> power_error option \<times> env" where
  "SignalContainer a e =
     (case so_inspect a of
        InspNotFound \<Rightarrow> (None, e)
      | InspErr x \<Rightarrow> (Some x, e)
      | InspOk c \<Rightarrow>
          if \<not> cs_running c then
            (None, if ev_state e \<noteq> Offline then SetState Offline (SetState Stopping e) else e)
          else
            let e = SetState Stopping e
            in case so_kill a of KillErr x \<Rightarrow> (Some x, e) | _ \<Rightarrow> (None, e))"

definition Terminate :: "stop_answers \<Rightarrow> env \<Rightarrow> power_error option \<times> env" where
  "Terminate a e =
     (case SignalContainer a e of
        (Some x, e) \<Rightarrow> (Some x, e)
      | (None, e) \<Rightarrow> (None, SetState Offline e))"

definition stop_signal :: "string \<Rightarrow> string" where
  "stop_signal v =
     (let u = go_ToUpper (map byte_of v)
      in if u = map byte_of ''SIGABRT'' then ''SIGABRT''
         else if u = map byte_of ''SIGINT'' \<or> u = map byte_of ''C'' then ''SIGINT''
         else if u = map byte_of ''SIGTERM'' then ''SIGTERM''
         else ''SIGKILL'')"

datatype stop_action = StopSignal string | StopCommand string | StopNative

definition stop_kind :: "string \<Rightarrow> string \<Rightarrow> bool \<Rightarrow> stop_action" where
  "stop_kind ty v attached =
     (if ty = ''signal'' then StopSignal (stop_signal v)
      else if attached \<and> ty = ''command'' then StopCommand v
      else StopNative)"

definition env_Stop :: "string \<Rightarrow> string \<Rightarrow> stop_answers \<Rightarrow> env \<Rightarrow> power_error option \<times> env" where
  "env_Stop ty v a e =
     (let e = (if ev_state e \<noteq> Offline then SetState Stopping e else e)
      in case stop_kind ty v (so_attached a) of
           StopSignal _ \<Rightarrow> SignalContainer a e
         | StopCommand _ \<Rightarrow> (so_send a, e)
         | StopNative \<Rightarrow>
             (case so_docker_stop a of
                KillOk \<Rightarrow> (None, e)
              | KillNotFound \<Rightarrow> (None, SetState Offline e)
              | KillErr x \<Rightarrow> (Some x, e)))"

text \<open>How the wait for the container ends: the context of the caller, an error (or a closed
  channel) of the wait, or the container not running any more.\<close>

datatype wait_outcome = WaitCtx power_error | WaitErr "power_error option" | WaitNotFound | WaitStopped

definition WaitForStop ::
  "bool \<Rightarrow> string \<Rightarrow> string \<Rightarrow> stop_answers \<Rightarrow> wait_outcome \<Rightarrow> stop_answers \<Rightarrow> env \<Rightarrow> power_error option \<times> env" where
  "WaitForStop terminate ty v a w ka e =
     (case env_Stop ty v a e of
        (Some x, e) \<Rightarrow> if terminate then Terminate ka e else (Some x, e)
      | (None, e) \<Rightarrow>
          (case w of
             WaitCtx x \<Rightarrow> if terminate then Terminate ka e else (Some x, e)
           | WaitErr None \<Rightarrow> (None, e)
           | WaitNotFound \<Rightarrow> (None, e)
           | WaitErr (Some x) \<Rightarrow> if terminate then Terminate ka e else (Some x, e)
           | WaitStopped \<Rightarrow> (None, e)))"

section \<open>Crash detection (server.go, crash.go)\<close>

text \<open>
  \<^verbatim>\<open>OnStateChange\<close>: from the tracked state and the current state of the environment, the new
  tracked state and whether the crash handler is started.
\<close>

definition crash_pair :: "proc_state \<Rightarrow> proc_state \<Rightarrow> bool" where
  "crash_pair prev st \<longleftrightarrow> (prev = Starting \<or> prev = Running) \<and> st = Offline"

definition OnStateChange :: "proc_state \<Rightarrow> proc_state \<Rightarrow> proc_state \<times> bool" where
  "OnStateChange tracked envState = (envState, crash_pair tracked envState)"

record crash_config =
  cc_enabled :: bool
  cc_detect_clean :: bool
  cc_timeout :: int

datatype crash_decision = CrashIgnored | CrashExitError exit_error | CrashTooFrequent | CrashRestart

text \<open>Times are in nanoseconds; \<open>None\<close> is the zero time.\<close>

definition handleServerCrash ::
  "crash_config \<Rightarrow> proc_state \<Rightarrow> exit_error + int \<times> bool \<Rightarrow> int \<Rightarrow> int option \<Rightarrow> crash_decision \<times> int option" where
  "handleServerCrash cfg st exit now lastCrash =
     (if st \<noteq> Offline \<or> \<not> cc_enabled cfg then (CrashIgnored, lastCrash)
      else case exit of
             Inl e \<Rightarrow> (CrashExitError e, lastCrash)
           | Inr (code, oom) \<Rightarrow>
               if code = 0 \<and> \<not> oom \<and> \<not> cc_detect_clean cfg then (CrashIgnored, lastCrash)
               else if cc_timeout cfg \<noteq> 0 \<and>
                       (case lastCrash of None \<Rightarrow> False | Some c \<Rightarrow> c + 1000000000 * cc_timeout cfg > now)
               then (CrashTooFrequent, lastCrash)
               else (CrashRestart, Some now))"

section \<open>Power actions (server/power.go)\<close>

abbreviation "PowerActionStart \<equiv> ''start''"
abbreviation "PowerActionStop \<equiv> ''stop''"
abbreviation "PowerActionRestart \<equiv> ''restart''"
abbreviation "PowerActionTerminate \<equiv> ''kill''"

definition IsValid :: "string \<Rightarrow> bool" where
  "IsValid pa \<longleftrightarrow> pa = PowerActionStart \<or> pa = PowerActionStop \<or> pa = PowerActionTerminate \<or> pa = PowerActionRestart"

definition IsStart :: "string \<Rightarrow> bool" where
  "IsStart pa \<longleftrightarrow> pa = PowerActionStart \<or> pa = PowerActionRestart"

datatype action_error =
    ErrServerIsRestoring | ErrServerIsTransferring | ErrServerIsInstalling | ErrIsRunning | ErrSuspended
  | ErrLock locker_error | ErrUnknownAction | ErrEnv power_error

record before_answers =
  bs_sync :: "power_error option"
  bs_suspended :: bool
  bs_disk :: int
  bs_space :: "power_error option"
  bs_check_permissions :: bool
  bs_chown :: "power_error option"

definition server_onBeforeStart :: "before_answers \<Rightarrow> action_error option" where
  "server_onBeforeStart b =
     (case bs_sync b of Some x \<Rightarrow> Some (ErrEnv x) | None \<Rightarrow>
       if bs_suspended b then Some ErrSuspended
       else if bs_disk b > 0 \<and> bs_space b \<noteq> None then map_option ErrEnv (bs_space b)
       else if bs_check_permissions b then map_option ErrEnv (bs_chown b)
       else None)"

text \<open>The calls a power action makes on the lock and on the environment, in order.\<close>

datatype pa_call = CallAcquire | CallTryAcquire int | CallRelease | CallBeforeStart | CallStart
  | CallWaitForStop | CallTerminate

record action_answers =
  aa_installing :: bool
  aa_transferring :: bool
  aa_restoring :: bool
  aa_lock :: "locker_error option"
  aa_state :: proc_state
  aa_before :: before_answers
  aa_start :: "power_error option"
  aa_wait :: "power_error option"
  aa_terminate :: "power_error option"

definition boot :: "action_answers \<Rightarrow> action_error option \<times> pa_call list" where
  "boot a =
     (case server_onBeforeStart (aa_before a) of
        Some e \<Rightarrow> (Some e, [CallBeforeStart])
      | None \<Rightarrow> (map_option ErrEnv (aa_start a), [CallBeforeStart, CallStart]))"

definition action_body :: "string \<Rightarrow> action_answers \<Rightarrow> action_error option \<times> pa_call list" where
  "action_body action a =
     (if action = PowerActionStart then
        (if aa_state a \<noteq> Offline then (Some ErrIsRunning, []) else boot a)
      else if action = PowerActionStop \<or> action = PowerActionRestart then
        (case aa_wait a of
           Some x \<Rightarrow> (Some (ErrEnv x), [CallWaitForStop])
         | None \<Rightarrow>
             if action = PowerActionStop then (None, [CallWaitForStop])
             else let (err, calls) = boot a in (err, CallWaitForStop # calls))
      else if action = PowerActionTerminate then (map_option ErrEnv (aa_terminate a), [CallTerminate])
      else (Some ErrUnknownAction, []))"

definition HandlePowerAction ::
  "string \<Rightarrow> int list \<Rightarrow> action_answers \<Rightarrow> action_error option \<times> pa_call list" where
  "HandlePowerAction action waitSeconds a =
     (if aa_installing a \<or> aa_transferring a \<or> aa_restoring a then
        (Some (if aa_restoring a then ErrServerIsRestoring
               else if aa_transferring a then ErrServerIsTransferring else ErrServerIsInstalling), [])
      else
        let wait = (case waitSeconds of w # _ \<Rightarrow> if w > 0 then w else 0 | [] \<Rightarrow> 0);
            lock = (if action \<noteq> PowerActionTerminate \<and> wait > 0 then CallTryAcquire wait else CallAcquire);
            (err, calls) = action_body action a
        in case aa_lock a of
             None \<Rightarrow> (err, lock # calls @ [CallRelease])
           | Some e \<Rightarrow>
               if action \<noteq> PowerActionTerminate \<or> e = ErrLockerDestroyed then (Some (ErrLock e), [lock])
               else (err, lock # calls))"

section \<open>Delivery of state changes\<close>

text \<open>
  Each published event is handled on its own goroutine, which compares the tracked state with
  the state the environment has at that moment. A run is a sequence of state changes of the
  environment and of handled events; an event can be handled only after it was published.
\<close>

record track_sys =
  ts_env :: proc_state
  ts_tracked :: proc_state
  ts_pending :: nat
  ts_crashes :: nat

datatype track_action = ASet proc_state | AHandle

fun track_step :: "track_sys \<Rightarrow> track_action \<Rightarrow> track_sys" where
  "track_step s (ASet st) =
     (if ts_env s \<noteq> st then s\<lparr>ts_env := st, ts_pending := ts_pending s + 1\<rparr> else s)"
| "track_step s AHandle =
     (let (tracked, crash) = OnStateChange (ts_tracked s) (ts_env s)
      in s\<lparr>ts_tracked := tracked, ts_pending := ts_pending s - 1,
           ts_crashes := ts_crashes s + (if crash then 1 else 0)\<rparr>)"

fun track_ok :: "track_sys \<Rightarrow> track_action \<Rightarrow> bool" where
  "track_ok s (ASet st) = True"
| "track_ok s AHandle = (ts_pending s > 0)"

definition track_inv :: "track_sys \<Rightarrow> bool" where
  "track_inv s \<longleftrightarrow> (ts_pending s = 0 \<longrightarrow> ts_tracked s = ts_env s)"

lemma track_inv_step: "track_inv s \<Longrightarrow> track_ok s a \<Longrightarrow> track_inv (track_step s a)"
  by (cases a) (auto simp: track_inv_def OnStateChange_def)

interpretation tracking: step_system track_step track_ok track_inv
  by unfold_locales (rule track_inv_step)

text \<open>Handling every event before the next state change, as a fold over the published states.\<close>

fun crash_free :: "proc_state \<Rightarrow> proc_state list \<Rightarrow> bool" where
  "crash_free prev [] = True"
| "crash_free prev (st # sts) = (\<not> crash_pair prev st \<and> crash_free st sts)"

lemma crash_free_append:
  "crash_free p (xs @ ys) \<longleftrightarrow> crash_free p xs \<and> crash_free (if xs = [] then p else last xs) ys"
  by (induction xs arbitrary: p) auto

text \<open>The event log of an environment ends in its state.\<close>

definition log_ok :: "proc_state \<Rightarrow> env \<Rightarrow> bool" where
  "log_ok p e \<longleftrightarrow> ev_state e = (if ev_events e = [] then p else last (ev_events e))"

lemma log_ok_SetState [simp]: "log_ok p e \<Longrightarrow> log_ok p (SetState st e)"
  by (auto simp: log_ok_def SetState_def)

lemma crash_free_SetState:
  "log_ok p e \<Longrightarrow> crash_free p (ev_events (SetState st e)) \<longleftrightarrow>
     crash_free p (ev_events e) \<and> \<not> crash_pair (ev_state e) st"
  by (auto simp: log_ok_def SetState_def crash_free_append crash_pair_def)

lemma SetState_state [simp]: "ev_state (SetState st e) = st"
  by (simp add: SetState_def)

lemma crash_pair_simps [simp]:
  "\<not> crash_pair p Starting" "\<not> crash_pair p Running" "\<not> crash_pair p Stopping"
  "\<not> crash_pair Stopping q" "\<not> crash_pair Offline q"
  by (auto simp: crash_pair_def)

text \<open>The restarts that the crash handler performs over a sequence of crash reports.\<close>

type_synonym crash_report = "proc_state \<times> (exit_error + int \<times> bool) \<times> int"

fun crash_restarts :: "crash_config \<Rightarrow> int option \<Rightarrow> crash_report list \<Rightarrow> int list" where
  "crash_restarts cfg lastCrash [] = []"
| "crash_restarts cfg lastCrash ((st, exit, now) # rs) =
     (let (d, lastCrash') = handleServerCrash cfg st exit now lastCrash
      in (if d = CrashRestart then [now] else []) @ crash_restarts cfg lastCrash' rs)"

lemma crash_restarts_first:
  assumes "cc_timeout cfg > 0" "crash_restarts cfg (Some c) rs = t # ts"
  shows "c + 1000000000 * cc_timeout cfg \<le> t"
  using assms(2)
proof (induction rs arbitrary: ts)
  case (Cons r rs)
  obtain st exit now where r: "r = (st, exit, now)" by (cases r)
  obtain d l where h: "handleServerCrash cfg st exit now (Some c) = (d, l)" by (cases "handleServerCrash cfg st exit now (Some c)")
  show ?case
  proof (cases "d = CrashRestart")
    case True
    with h Cons.prems r assms(1) show ?thesis
      by (auto simp: handleServerCrash_def split: if_splits sum.splits)
  next
    case False
    with h have "l = Some c" by (auto simp: handleServerCrash_def split: if_splits sum.splits)
    with Cons False h r show ?thesis by simp
  qed
qed simp

lemma crash_restarts_spaced:
  assumes "cc_timeout cfg > 0"
  shows "sorted_wrt (\<lambda>a b. a + 1000000000 * cc_timeout cfg \<le> b) (crash_restarts cfg lastCrash rs)"
proof (induction rs arbitrary: lastCrash)
  case (Cons r rs)
  obtain st exit now where r: "r = (st, exit, now)" by (cases r)
  obtain d l where h: "handleServerCrash cfg st exit now lastCrash = (d, l)" by (cases "handleServerCrash cfg st exit now lastCrash")
  show ?case
  proof (cases "d = CrashRestart")
    case False
    with Cons h r show ?thesis by simp
  next
    case True
    with h have l: "l = Some now" by (auto simp: handleServerCrash_def split: if_splits sum.splits)
    have "\<forall>t \<in> set (crash_restarts cfg (Some now) rs). now + 1000000000 * cc_timeout cfg \<le> t"
    proof (cases "crash_restarts cfg (Some now) rs")
      case (Cons t ts)
      with crash_restarts_first [OF assms Cons] Cons.IH [of "Some now"] assms show ?thesis by force
    qed simp
    with Cons.IH [of l] True h r l show ?thesis by simp
  qed
qed simp

section \<open>Properties\<close>

text \<open>
  C29. A power action that stops, prepares or starts the server does so under the power lock:
  the lock was granted, the server is not being installed, transferred or restored, and the
  action makes exactly one release, as its last call, whatever fails in between.
\<close>

theorem power_action_holds_lock:
  assumes "HandlePowerAction action ws a = (err, calls)"
    and "CallBeforeStart \<in> set calls \<or> CallStart \<in> set calls \<or> CallWaitForStop \<in> set calls"
  shows "aa_lock a = None \<and> \<not> aa_installing a \<and> \<not> aa_transferring a \<and> \<not> aa_restoring a \<and>
    (\<exists>lock mid. calls = lock # mid @ [CallRelease] \<and> CallRelease \<notin> set mid \<and>
       (lock = CallAcquire \<or> (\<exists>w > 0. lock = CallTryAcquire w)))"
  using assms
  by (auto simp: HandlePowerAction_def action_body_def boot_def Let_def
      split: if_splits option.splits prod.splits list.splits)

definition idle_answers :: action_answers where
  "idle_answers = \<lparr>aa_installing = False, aa_transferring = False, aa_restoring = False, aa_lock = None,
     aa_state = Offline,
     aa_before = \<lparr>bs_sync = None, bs_suspended = False, bs_disk = 0, bs_space = None, bs_check_permissions = True, bs_chown = None\<rparr>,
     aa_start = Some 7, aa_wait = None, aa_terminate = None\<rparr>"

theorem power_action_holds_lock_witness:
  "HandlePowerAction ''restart'' [30] idle_answers =
     (Some (ErrEnv 7), [CallTryAcquire 30, CallWaitForStop, CallBeforeStart, CallStart, CallRelease]) \<and>
   aa_lock idle_answers = None"
proof -
  have run: "HandlePowerAction ''restart'' [30] idle_answers =
     (Some (ErrEnv 7), [CallTryAcquire 30, CallWaitForStop, CallBeforeStart, CallStart, CallRelease])"
    by (simp add: HandlePowerAction_def action_body_def boot_def server_onBeforeStart_def idle_answers_def)
  from power_action_holds_lock [OF run] run show ?thesis by simp
qed

text \<open>
  C30. The environment is started only after a complete preflight: the server was synced and is
  not suspended, and either the action is a start of an offline server, or it is a restart
  whose wait for the stop ended without an error.
\<close>

theorem start_requires_preflight:
  assumes "HandlePowerAction action ws a = (err, calls)" and "CallStart \<in> set calls"
  shows "server_onBeforeStart (aa_before a) = None \<and> \<not> bs_suspended (aa_before a) \<and>
    (action = PowerActionStart \<and> aa_state a = Offline \<and> tl calls = [CallBeforeStart, CallStart, CallRelease] \<or>
     action = PowerActionRestart \<and> aa_wait a = None \<and> tl calls = [CallWaitForStop, CallBeforeStart, CallStart, CallRelease])"
proof -
  have "server_onBeforeStart b = None \<Longrightarrow> \<not> bs_suspended b" for b
    by (auto simp: server_onBeforeStart_def split: option.splits if_splits)
  with assms show ?thesis
    by (auto simp: HandlePowerAction_def action_body_def boot_def Let_def
        split: if_splits option.splits prod.splits)
qed

theorem start_requires_preflight_witness:
  "\<not> bs_suspended (aa_before idle_answers) \<and>
   CallStart \<in> set (snd (HandlePowerAction ''start'' [] idle_answers))"
proof -
  obtain err calls where run: "HandlePowerAction ''start'' [] idle_answers = (err, calls)"
    by (cases "HandlePowerAction ''start'' [] idle_answers")
  moreover have "CallStart \<in> set (snd (HandlePowerAction ''start'' [] idle_answers))"
    by (simp add: HandlePowerAction_def action_body_def boot_def server_onBeforeStart_def idle_answers_def)
  ultimately show ?thesis using start_requires_preflight [OF run] by simp
qed

text \<open>
  Failures of a start and every way of stopping with a time limit are not mistaken for a
  crash: if each published state is handled before the next one, neither \<^verbatim>\<open>Start\<close>, however
  it fails, nor \<^verbatim>\<open>WaitForStop\<close>, whether or not it ends in a termination, triggers the crash
  handler; and a start that failed after the state was set to starting leaves it offline.
\<close>

theorem start_and_stop_not_a_crash:
  assumes "log_ok p e" "crash_free p (ev_events e)"
  shows "crash_free p (ev_events (snd (env_Start sa e))) \<and>
    crash_free p (ev_events (snd (WaitForStop terminate ty v a w ka e))) \<and>
    (fst (start_boot sa e) \<noteq> None \<longrightarrow> ev_state (snd (start_boot sa e)) = Offline)"
proof -
  have start: "crash_free p (ev_events (snd (env_Start sa e)))"
    using assms by (auto simp: env_Start_def start_boot_def Let_def crash_free_SetState
        split: option.splits inspect_result.splits)
  define e1 where "e1 = (if ev_state e \<noteq> Offline then SetState Stopping e else e)"
  have sig: "log_ok p (snd (SignalContainer b x)) \<and> crash_free p (ev_events (snd (SignalContainer b x))) \<and>
      (ev_state (snd (SignalContainer b x)) = Stopping \<or> ev_state (snd (SignalContainer b x)) = Offline)"
    if "log_ok p x" "crash_free p (ev_events x)" "ev_state x = Stopping \<or> ev_state x = Offline" for b x
    using that by (auto simp: SignalContainer_def Let_def crash_free_SetState
        split: inspect_result.splits kill_result.splits)
  have kill: "crash_free p (ev_events (snd (Terminate b x)))"
    if "log_ok p x" "crash_free p (ev_events x)" "ev_state x = Stopping \<or> ev_state x = Offline" for b x
    using sig [OF that, of b] by (auto simp: Terminate_def crash_free_SetState split: prod.splits option.splits)
  have "log_ok p e1 \<and> crash_free p (ev_events e1) \<and> (ev_state e1 = Stopping \<or> ev_state e1 = Offline)"
    using assms by (auto simp: e1_def crash_free_SetState)
  then have "log_ok p (snd (env_Stop ty v a e)) \<and> crash_free p (ev_events (snd (env_Stop ty v a e))) \<and>
      (ev_state (snd (env_Stop ty v a e)) = Stopping \<or> ev_state (snd (env_Stop ty v a e)) = Offline)"
    using sig [of e1 a]
    by (auto simp: env_Stop_def e1_def [symmetric] Let_def crash_free_SetState split: stop_action.splits kill_result.splits)
  then have "crash_free p (ev_events (snd (WaitForStop terminate ty v a w ka e)))"
    using kill by (auto simp: WaitForStop_def split: prod.splits option.splits wait_outcome.splits)
  with start show ?thesis by (auto simp: start_boot_def Let_def split: option.splits)
qed

theorem start_and_stop_not_a_crash_witness:
  "crash_free Running (ev_events (snd (WaitForStop True ''signal'' ''SIGTERM''
     \<lparr>so_inspect = InspOk \<lparr>cs_running = True, cs_exit_code = 0, cs_oom = False\<rparr>, so_kill = KillErr 3, so_attached = True,
      so_send = None, so_docker_stop = KillOk\<rparr> WaitStopped
     \<lparr>so_inspect = InspNotFound, so_kill = KillOk, so_attached = True, so_send = None, so_docker_stop = KillOk\<rparr>
     \<lparr>ev_state = Running, ev_events = []\<rparr>)))"
proof -
  have "log_ok Running \<lparr>ev_state = Running, ev_events = []\<rparr>"
    "crash_free Running (ev_events \<lparr>ev_state = Running, ev_events = []\<rparr>)" by (simp_all add: log_ok_def)
  from start_and_stop_not_a_crash [OF this] show ?thesis by blast
qed





text \<open>
  C34. The order in which events are handled decides whether a stop counts as a crash: setting
  the state to stopping and then to offline triggers no crash handler if the first event is
  handled in between, and triggers it once if both are handled after the second change.
\<close>

theorem stop_order_decides_crash:
  assumes "ts_env s = st" "ts_tracked s = st" "st = Starting \<or> st = Running"
  shows "ts_crashes (foldl track_step s [ASet Stopping, AHandle, ASet Offline, AHandle]) = ts_crashes s \<and>
    ts_crashes (foldl track_step s [ASet Stopping, ASet Offline, AHandle, AHandle]) = ts_crashes s + 1"
  using assms by (auto simp: OnStateChange_def crash_pair_def)

theorem stop_order_decides_crash_witness:
  "ts_crashes (foldl track_step \<lparr>ts_env = Starting, ts_tracked = Starting, ts_pending = 0, ts_crashes = 0\<rparr>
     [ASet Stopping, ASet Offline, AHandle, AHandle]) = 1"
  using stop_order_decides_crash [of "\<lparr>ts_env = Starting, ts_tracked = Starting, ts_pending = 0, ts_crashes = 0\<rparr>" Starting]
  by simp



end
