(* ===== verification/Net_Addr.thy ===== *)
theory Net_Addr
  imports Go_Strings "HOL-Library.List_Lexorder" "HOL-Library.Char_ord" "HOL-Library.Product_Lexorder"
begin

text \<open>
  What the network policy uses of Go's \<^verbatim>\<open>net/netip\<close> package: parsing and printing of IPv4 and
  IPv6 addresses, prefixes and their masks. An IPv6 address is the list of its eight 16-bit
  groups, an IPv4 address the list of its four bytes; both are also numbers, for prefixes.
\<close>

section \<open>Addresses\<close>

datatype ip_addr = IPv4 "nat list" | IPv6 "nat list" string

definition is_digit :: "char \<Rightarrow> bool" where
  "is_digit c \<longleftrightarrow> 48 \<le> byte_of c \<and> byte_of c \<le> 57"

definition digit_val :: "char \<Rightarrow> nat" where
  "digit_val c = byte_of c - 48"

definition dec_val :: "string \<Rightarrow> nat" where
  "dec_val s = foldl (\<lambda>n c. n * 10 + digit_val c) 0 s"

definition hex_val :: "char \<Rightarrow> nat option" where
  "hex_val c =
     (let b = byte_of c
      in if 48 \<le> b \<and> b \<le> 57 then Some (b - 48)
         else if 97 \<le> b \<and> b \<le> 102 then Some (b - 87)
         else if 65 \<le> b \<and> b \<le> 70 then Some (b - 55)
         else None)"

text \<open>One field of an IPv4 address: digits without a leading zero, at most 255.\<close>

definition ipv4_field :: "string \<Rightarrow> nat option" where
  "ipv4_field f =
     (if f \<noteq> '''' \<and> list_all is_digit f \<and> (length f > 1 \<longrightarrow> hd f \<noteq> CHR ''0'') \<and> length f \<le> 3 \<and> dec_val f \<le> 255
      then Some (dec_val f) else None)"

definition parseIPv4Fields :: "string \<Rightarrow> nat list option" where
  "parseIPv4Fields s =
     (let fs = map ipv4_field (split_on CHR ''.'' s)
      in if length fs = 4 \<and> list_all (\<lambda>f. f \<noteq> None) fs then Some (map the fs) else None)"

text \<open>The digits at the front of the rest, and the number they form.\<close>

definition hex_prefix :: "string \<Rightarrow> string" where
  "hex_prefix s = takeWhile (\<lambda>c. hex_val c \<noteq> None) s"

definition hex_number :: "string \<Rightarrow> nat" where
  "hex_number s = foldl (\<lambda>n c. n * 16 + the (hex_val c)) 0 s"

text \<open>
  The loop of \<^verbatim>\<open>parseIPv6\<close>: the groups parsed so far, where the double colon was met, and the
  rest of the string. It ends with the groups and the position of the double colon.
\<close>

function parse_groups :: "nat list \<Rightarrow> nat option \<Rightarrow> string \<Rightarrow> (nat list \<times> nat option) option" where
  "parse_groups gs ell s =
     (if length gs \<ge> 8 then (if s = '''' then Some (gs, ell) else None)
      else
        let h = hex_prefix s; rest = drop (length h) s
        in if h = '''' \<or> length h > 4 then None
           else if rest \<noteq> '''' \<and> hd rest = CHR ''.'' then
             (if ell = None \<and> length gs \<noteq> 6 then None
              else if length gs > 6 then None
              else case parseIPv4Fields s of
                     None \<Rightarrow> None
                   | Some b \<Rightarrow> Some (gs @ [b ! 0 * 256 + b ! 1, b ! 2 * 256 + b ! 3], ell))
           else
             let gs' = gs @ [hex_number h]
             in if rest = '''' then Some (gs', ell)
                else if hd rest \<noteq> CHR '':'' \<or> length rest = 1 then None
                else
                  let s' = tl rest
                  in if hd s' = CHR '':'' then
                       (if ell \<noteq> None then None
                        else if tl s' = '''' then Some (gs', Some (length gs'))
                        else parse_groups gs' (Some (length gs')) (tl s'))
                     else parse_groups gs' ell s')"
  by pat_completeness auto
termination
  by (relation "measure (\<lambda>(_, _, s). length s)") (auto simp: hex_prefix_def)

declare parse_groups.simps [simp del]

definition expand_groups :: "nat list \<Rightarrow> nat option \<Rightarrow> nat list option" where
  "expand_groups gs ell =
     (if length gs < 8 then
        (case ell of
           None \<Rightarrow> None
         | Some k \<Rightarrow> Some (take k gs @ replicate (8 - length gs) 0 @ drop k gs))
      else if ell \<noteq> None then None else Some gs)"

definition parseIPv6 :: "string \<Rightarrow> ip_addr option" where
  "parseIPv6 str =
     (let s = takeWhile (\<lambda>c. c \<noteq> CHR ''%'') str;
          zoned = CHR ''%'' \<in> set str;
          zone = (if zoned then drop (length s + 1) str else '''')
      in if zoned \<and> zone = '''' then None
         else if prefix ''::'' s then
           (if drop 2 s = '''' then Some (IPv6 (replicate 8 0) zone)
            else case parse_groups [] (Some 0) (drop 2 s) of
                   None \<Rightarrow> None
                 | Some (gs, ell) \<Rightarrow> map_option (\<lambda>g. IPv6 g zone) (expand_groups gs ell))
         else case parse_groups [] None s of
                None \<Rightarrow> None
              | Some (gs, ell) \<Rightarrow> map_option (\<lambda>g. IPv6 g zone) (expand_groups gs ell))"

fun ParseAddr_scan :: "string \<Rightarrow> string \<Rightarrow> ip_addr option" where
  "ParseAddr_scan str [] = None"
| "ParseAddr_scan str (c # cs) =
     (if c = CHR ''.'' then map_option IPv4 (parseIPv4Fields str)
      else if c = CHR '':'' then parseIPv6 str
      else if c = CHR ''%'' then None
      else ParseAddr_scan str cs)"

definition ParseAddr :: "string \<Rightarrow> ip_addr option" where
  "ParseAddr s = ParseAddr_scan s s"

fun addr_zone :: "ip_addr \<Rightarrow> string" where
  "addr_zone (IPv4 b) = ''''"
| "addr_zone (IPv6 g z) = z"

fun Is6 :: "ip_addr \<Rightarrow> bool" where
  "Is6 (IPv4 b) = False"
| "Is6 (IPv6 g z) = True"

fun Is4In6 :: "ip_addr \<Rightarrow> bool" where
  "Is4In6 (IPv4 b) = False"
| "Is4In6 (IPv6 g z) = (take 6 g = [0, 0, 0, 0, 0, 65535])"

fun BitLen :: "ip_addr \<Rightarrow> nat" where
  "BitLen (IPv4 b) = 32"
| "BitLen (IPv6 g z) = 128"

fun addr_num :: "ip_addr \<Rightarrow> nat" where
  "addr_num (IPv4 b) = foldl (\<lambda>n x. n * 256 + x) 0 b"
| "addr_num (IPv6 g z) = foldl (\<lambda>n x. n * 65536 + x) 0 g"

section \<open>Printing\<close>

fun dec_digits :: "nat \<Rightarrow> string" where
  "dec_digits n = (if n < 10 then [char_of (48 + n)] else dec_digits (n div 10) @ [char_of (48 + n mod 10)])"

declare dec_digits.simps [simp del]

definition hex_digit :: "nat \<Rightarrow> char" where
  "hex_digit n = (if n < 10 then char_of (48 + n) else char_of (87 + n))"

fun hex_digits :: "nat \<Rightarrow> string" where
  "hex_digits n = (if n < 16 then [hex_digit n] else hex_digits (n div 16) @ [hex_digit (n mod 16)])"

declare hex_digits.simps [simp del]

text \<open>The first longest run of at least two zero groups, as start and end.\<close>

fun zero_run :: "nat list \<Rightarrow> nat \<Rightarrow> nat \<times> nat \<Rightarrow> nat \<times> nat" where
  "zero_run [] i best = best"
| "zero_run (x # xs) i best =
     (let l = length (takeWhile (\<lambda>y. y = 0) (x # xs));
          best' = (if l \<ge> 2 \<and> l > snd best - fst best then (i, i + l) else best)
      in zero_run xs (i + 1) best')"

definition groups_string :: "nat list \<Rightarrow> string" where
  "groups_string gs = join_on CHR '':'' (map hex_digits gs)"

fun addr_String :: "ip_addr \<Rightarrow> string" where
  "addr_String (IPv4 b) = join_on CHR ''.'' (map dec_digits b)"
| "addr_String (IPv6 g z) =
     (let (a, e) = zero_run g 0 (255, 255)
      in (if a < 8 then groups_string (take a g) @ ''::'' @ groups_string (drop e g) else groups_string g) @
         (if z = '''' then '''' else CHR ''%'' # z))"

section \<open>Prefixes\<close>

record ip_prefix =
  px_addr :: ip_addr
  px_bits :: nat

text \<open>\<^verbatim>\<open>Prefix.Masked\<close> and membership, on the numbers of the addresses.\<close>

definition mask_num :: "nat \<Rightarrow> nat \<Rightarrow> nat \<Rightarrow> nat" where
  "mask_num width bits n = n div 2 ^ (width - bits) * 2 ^ (width - bits)"

fun bytes_of :: "nat \<Rightarrow> nat \<Rightarrow> nat \<Rightarrow> nat list" where
  "bytes_of base 0 n = []"
| "bytes_of base (Suc k) n = bytes_of base k (n div base) @ [n mod base]"

fun Masked :: "ip_prefix \<Rightarrow> ip_prefix" where
  "Masked p =
     (case px_addr p of
        IPv4 b \<Rightarrow> p\<lparr>px_addr := IPv4 (bytes_of 256 4 (mask_num 32 (px_bits p) (addr_num (IPv4 b))))\<rparr>
      | IPv6 g z \<Rightarrow> p\<lparr>px_addr := IPv6 (bytes_of 65536 8 (mask_num 128 (px_bits p) (addr_num (IPv6 g z)))) ''''\<rparr>)"

definition prefix_contains :: "ip_prefix \<Rightarrow> ip_addr \<Rightarrow> bool" where
  "prefix_contains p a \<longleftrightarrow>
     Is6 a = Is6 (px_addr p) \<and>
     mask_num (BitLen a) (px_bits p) (addr_num a) = mask_num (BitLen a) (px_bits p) (addr_num (px_addr p))"

text \<open>The number after the last slash: one digit, or digits that do not start with a zero or a sign.\<close>

definition parse_bits :: "string \<Rightarrow> nat option" where
  "parse_bits s =
     (if s = '''' \<or> \<not> list_all is_digit s \<or> (length s > 1 \<and> hd s = CHR ''0'') then None else Some (dec_val s))"

definition ParsePrefix :: "string \<Rightarrow> ip_prefix option" where
  "ParsePrefix s =
     (if slash \<notin> set s then None
      else
        let bitsStr = rev (takeWhile (\<lambda>c. c \<noteq> slash) (rev s));
            addr = take (length s - length bitsStr - 1) s
        in case ParseAddr addr of
             None \<Rightarrow> None
           | Some ip \<Rightarrow>
               if addr_zone ip \<noteq> '''' then None
               else case parse_bits bitsStr of
                      None \<Rightarrow> None
                    | Some n \<Rightarrow> if n > BitLen ip then None else Some \<lparr>px_addr = ip, px_bits = n\<rparr>)"

end
