(* ===== verification/Net_Policy.thy ===== *)
theory Net_Policy
  imports Net_Addr "HOL-Library.Code_Target_Nat"
begin

text \<open>
  The network policy document (\<^verbatim>\<open>internal/networkpolicy/policy.go\<close>): its data, the order in
  which its rules are evaluated, the administrator's bandwidth ceilings and its validation
  against the allocations of the server. JSON arrays that can be null are options. The hash
  of the canonical document (JSON encoding and SHA-256) is a parameter.
\<close>

section \<open>Data\<close>

record bandwidth =
  bw_upload :: int
  bw_download :: int

record allocation =
  al_id :: int
  al_ip :: string
  al_port :: int

record resolved_group =
  rg_id :: string
  rg_protocol :: string
  rg_allocations :: "allocation list option"

record group_sel =
  gr_id :: string
  gr_name :: string
  gr_mode :: string
  gr_protocol :: string
  gr_allocation_ids :: "int list option"
  gr_port_start :: int
  gr_port_end :: int
  gr_ip :: "string option"

record policy_chain =
  ch_id :: string
  ch_name :: string
  ch_enabled :: bool

record policy_rule =
  ru_id :: string
  ru_name :: string
  ru_enabled :: bool
  ru_chain_id :: "string option"
  ru_direction :: string
  ru_action :: string
  ru_protocol :: string
  ru_group_id :: "string option"
  ru_cidr :: "string option"

record firewall =
  fw_enabled :: bool
  fw_default_inbound :: string
  fw_default_outbound :: string
  fw_chains :: "policy_chain list option"
  fw_rules :: "policy_rule list option"

record policy =
  po_api_version :: int
  po_revision :: nat
  po_hash :: string
  po_allocations :: "allocation list option"
  po_resolved_groups :: "resolved_group list option"
  po_groups :: "group_sel list option"
  po_firewall :: firewall
  po_bandwidth :: bandwidth

definition arr :: "'a list option \<Rightarrow> 'a list" where
  "arr xs = (case xs of None \<Rightarrow> [] | Some ys \<Rightarrow> ys)"

lemma arr_simps [simp]: "arr None = []" "arr (Some xs) = xs"
  by (simp_all add: arr_def)

definition Empty :: policy where
  "Empty = \<lparr>po_api_version = 0, po_revision = 0, po_hash = '''', po_allocations = None, po_resolved_groups = None,
     po_groups = None,
     po_firewall = \<lparr>fw_enabled = False, fw_default_inbound = '''', fw_default_outbound = '''', fw_chains = None, fw_rules = None\<rparr>,
     po_bandwidth = \<lparr>bw_upload = 0, bw_download = 0\<rparr>\<rparr>"

section \<open>Bandwidth and rule order\<close>

definition Required :: "policy \<Rightarrow> bandwidth \<Rightarrow> bool" where
  "Required p ceiling \<longleftrightarrow>
     fw_enabled (po_firewall p) \<or> bw_upload (po_bandwidth p) > 0 \<or> bw_download (po_bandwidth p) > 0 \<or>
     bw_upload ceiling > 0 \<or> bw_download ceiling > 0"

definition effective_rate :: "int \<Rightarrow> int \<Rightarrow> int" where
  "effective_rate ceiling rate = (if ceiling > 0 \<and> (rate = 0 \<or> rate > ceiling) then ceiling else rate)"

definition Effective :: "policy \<Rightarrow> bandwidth \<Rightarrow> bandwidth" where
  "Effective p ceiling =
     \<lparr>bw_upload = effective_rate (bw_upload ceiling) (bw_upload (po_bandwidth p)),
      bw_download = effective_rate (bw_download ceiling) (bw_download (po_bandwidth p))\<rparr>"

definition OrderedRules :: "policy \<Rightarrow> policy_rule list" where
  "OrderedRules p =
     (let rules = arr (fw_rules (po_firewall p))
      in concat (map (\<lambda>chain. if ch_enabled chain
                               then filter (\<lambda>r. ru_enabled r \<and> ru_chain_id r = Some (ch_id chain)) rules
                               else [])
                 (arr (fw_chains (po_firewall p)))) @
         filter (\<lambda>r. ru_enabled r \<and> ru_chain_id r = None) rules)"

section \<open>Validation\<close>

datatype policy_error = PolicyInvalid string

abbreviation invalid :: "string \<Rightarrow> policy_error + 'a" where
  "invalid msg \<equiv> Inl (PolicyInvalid msg)"

definition check :: "bool \<Rightarrow> string \<Rightarrow> policy_error + unit" where
  "check ok msg = ensure ok (PolicyInvalid msg)"

definition validProtocol :: "string \<Rightarrow> bool" where
  "validProtocol v \<longleftrightarrow> v = ''tcp'' \<or> v = ''udp'' \<or> v = ''both''"

definition validAction :: "string \<Rightarrow> bool" where
  "validAction v \<longleftrightarrow> v = ''allow'' \<or> v = ''drop''"

definition maxRate :: int where
  "maxRate = 1000000000000"

definition validRate :: "int \<Rightarrow> bool" where
  "validRate rate \<longleftrightarrow> 0 \<le> rate \<and> rate \<le> maxRate"

definition validateBandwidth :: "int \<Rightarrow> int \<Rightarrow> policy_error + unit" where
  "validateBandwidth rate ceiling =
     (if \<not> validRate rate \<or> \<not> validRate ceiling then invalid ''bandwidth must be an integer from 0 through 1000000000000 bits per second''
      else if ceiling > 0 \<and> rate > ceiling then invalid ''bandwidth exceeds administrator ceiling''
      else Inr ())"

definition validName :: "string \<Rightarrow> bool" where
  "validName v \<longleftrightarrow> v \<noteq> '''' \<and> rune_count (map byte_of v) \<le> 80"

definition id_char :: "char \<Rightarrow> bool" where
  "id_char c \<longleftrightarrow>
     (let b = byte_of c
      in 97 \<le> b \<and> b \<le> 122 \<or> 65 \<le> b \<and> b \<le> 90 \<or> 48 \<le> b \<and> b \<le> 57 \<or> b = 95 \<or> b = 45)"

definition idPattern :: "string \<Rightarrow> bool" where
  "idPattern v \<longleftrightarrow> 1 \<le> length v \<and> length v \<le> 64 \<and> list_all id_char v"

definition hashPattern :: "string \<Rightarrow> bool" where
  "hashPattern v \<longleftrightarrow>
     length v = 64 \<and> list_all (\<lambda>c. let b = byte_of c in 48 \<le> b \<and> b \<le> 57 \<or> 97 \<le> b \<and> b \<le> 102) v"

definition parseIP :: "string \<Rightarrow> ip_addr option" where
  "parseIP v =
     (case ParseAddr v of
        None \<Rightarrow> None
      | Some ip \<Rightarrow> if addr_zone ip \<noteq> '''' \<or> Is4In6 ip then None else Some ip)"

text \<open>
  \<^verbatim>\<open>allocationKey\<close> prints the address and port; the pair that it prints is the key here. The
  conversion to \<^verbatim>\<open>uint16\<close> is the reduction modulo 65536.
\<close>

type_synonym alloc_key = "ip_addr \<times> int"

definition allocationKey :: "string \<Rightarrow> int \<Rightarrow> alloc_key option" where
  "allocationKey v port = (case parseIP v of None \<Rightarrow> None | Some ip \<Rightarrow> Some (ip, port mod 65536))"

definition Peer :: "string \<Rightarrow> ip_prefix option" where
  "Peer v =
     (case parseIP v of
        Some ip \<Rightarrow> Some \<lparr>px_addr = ip, px_bits = BitLen ip\<rparr>
      | None \<Rightarrow>
          (case ParsePrefix v of
             None \<Rightarrow> None
           | Some px \<Rightarrow> if addr_zone (px_addr px) \<noteq> '''' \<or> Is4In6 (px_addr px) then None else Some (Masked px)))"

text \<open>The assigned allocations are a map from hosts to ports, given as the list of its entries.\<close>

type_synonym assigned_map = "(string \<times> int list) list"

definition assigned_port :: "string \<Rightarrow> alloc_key list \<Rightarrow> int \<Rightarrow> policy_error + alloc_key list" where
  "assigned_port host owned port =
     (if port < 1 \<or> port > 65535 then invalid ''server configuration contains invalid assigned port''
      else case allocationKey host port of
             None \<Rightarrow> invalid ''server configuration contains invalid assigned IP''
           | Some key \<Rightarrow>
               if key \<in> set owned then invalid ''server configuration contains ambiguous duplicate allocation''
               else Inr (key # owned))"

definition assignedAllocations :: "assigned_map \<Rightarrow> policy_error + alloc_key list" where
  "assignedAllocations assigned =
     fold_res (\<lambda>owned (host, ports). fold_res (assigned_port host) owned ports) [] assigned"

definition hasAllocation :: "assigned_map \<Rightarrow> allocation \<Rightarrow> bool" where
  "hasAllocation assigned a =
     (case allocationKey (al_ip a) (al_port a) of
        None \<Rightarrow> False
      | Some wanted \<Rightarrow>
          list_ex (\<lambda>(host, ports). al_port a \<in> set ports \<and> allocationKey host (al_port a) = Some wanted) assigned)"

text \<open>The maps the validation builds are association lists; a key is added only when it is new.\<close>

type_synonym alloc_map = "(int \<times> allocation) list"
type_synonym group_map = "(string \<times> group_sel) list"

text \<open>The allocations loop of \<^verbatim>\<open>validateStatic\<close>, with the two maps it builds.\<close>

definition static_allocation ::
  "alloc_map \<times> (alloc_key \<times> int) list \<Rightarrow> allocation \<Rightarrow> policy_error + alloc_map \<times> (alloc_key \<times> int) list" where
  "static_allocation m a =
     (let (allocs, tuples) = m
      in if al_id a \<le> 0 \<or> al_port a < 1 \<or> al_port a > 65535
         then invalid ''allocation IDs and ports must be positive and ports must not exceed 65535''
         else if map_of allocs (al_id a) \<noteq> None then invalid ''duplicate allocation ID''
         else case allocationKey (al_ip a) (al_port a) of
                None \<Rightarrow> invalid ''address must be an IPv4 or IPv6 address without a zone''
              | Some key \<Rightarrow>
                  if map_of tuples key \<noteq> None then invalid ''allocation IDs ambiguously identify the same address and port''
                  else Inr ((al_id a, a) # allocs, (key, al_id a) # tuples))"

definition static_group :: "group_map \<Rightarrow> group_sel \<Rightarrow> policy_error + group_map" where
  "static_group groups g =
     (if \<not> idPattern (gr_id g) then invalid ''invalid group ID''
      else if map_of groups (gr_id g) \<noteq> None then invalid ''duplicate group ID''
      else if \<not> validName (gr_name g) then invalid ''invalid group name''
      else if gr_mode g \<noteq> ''allocations'' \<and> gr_mode g \<noteq> ''range'' then invalid ''invalid group mode''
      else if \<not> validProtocol (gr_protocol g) then invalid ''invalid group protocol''
      else if gr_allocation_ids g = None \<or> length (arr (gr_allocation_ids g)) > 1000
        then invalid ''group allocation_ids must be an array with at most 1000 entries''
      else if gr_port_start g < 1 \<or> gr_port_end g > 65535 \<or> gr_port_start g > gr_port_end g
        then invalid ''invalid port range''
      else if (case gr_ip g of None \<Rightarrow> False | Some v \<Rightarrow> parseIP v = None) then invalid ''invalid IP for group''
      else if \<not> list_all (\<lambda>i. i > 0) (arr (gr_allocation_ids g)) then invalid ''group contains an invalid allocation ID''
      else Inr ((gr_id g, g) # groups))"

text \<open>\<^verbatim>\<open>selectedAllocations\<close>: the set of the selected allocation IDs.\<close>

fun select_range :: "group_sel \<Rightarrow> ip_addr option \<Rightarrow> allocation list \<Rightarrow> int set \<Rightarrow> policy_error + int set" where
  "select_range g matchIP [] sel = Inr sel"
| "select_range g matchIP (a # as) sel =
     (if al_port a < gr_port_start g \<or> al_port a > gr_port_end g then select_range g matchIP as sel
      else case matchIP of
             None \<Rightarrow> select_range g matchIP as (insert (al_id a) sel)
           | Some m \<Rightarrow>
               (case parseIP (al_ip a) of
                  None \<Rightarrow> invalid ''address must be an IPv4 or IPv6 address without a zone''
                | Some ip \<Rightarrow>
                    if ip \<noteq> m then select_range g matchIP as sel
                    else select_range g matchIP as (insert (al_id a) sel)))"

definition selectedAllocations :: "group_sel \<Rightarrow> allocation list \<Rightarrow> policy_error + int set" where
  "selectedAllocations g as =
     (if gr_mode g = ''allocations''
      then Inr (set (filter (\<lambda>i. i \<in> al_id ` set as) (arr (gr_allocation_ids g))))
      else case gr_ip g of
             None \<Rightarrow> select_range g None as {}
           | Some v \<Rightarrow>
               (case parseIP v of
                  None \<Rightarrow> invalid ''address must be an IPv4 or IPv6 address without a zone''
                | Some m \<Rightarrow> select_range g (Some m) as {}))"

definition resolved_allocation ::
  "alloc_map \<Rightarrow> int set \<Rightarrow> allocation \<Rightarrow> policy_error + int set" where
  "resolved_allocation allocs expected a =
     (if map_of allocs (al_id a) \<noteq> Some a \<or> al_id a \<notin> expected
      then invalid ''resolved group contains an allocation outside its selection''
      else Inr (expected - {al_id a}))"

definition resolved_step ::
  "group_map \<Rightarrow> alloc_map \<Rightarrow> allocation list \<Rightarrow> string set \<Rightarrow> resolved_group
   \<Rightarrow> policy_error + string set" where
  "resolved_step groups allocs all seen r =
     (case map_of groups (rg_id r) of
        None \<Rightarrow> invalid ''unknown or duplicate resolved group''
      | Some g \<Rightarrow>
          if rg_id r \<in> seen then invalid ''unknown or duplicate resolved group''
          else if rg_protocol r \<noteq> gr_protocol g then invalid ''resolved group protocol does not match its group''
          else if rg_allocations r = None then invalid ''resolved group allocations must be an array''
          else case selectedAllocations g all of
                 Inl e \<Rightarrow> Inl e
               | Inr expected \<Rightarrow>
                   if length (arr (rg_allocations r)) \<noteq> card expected
                   then invalid ''resolved group does not contain the exact selected allocation set''
                   else case fold_res (resolved_allocation allocs) expected (arr (rg_allocations r)) of
                          Inl e \<Rightarrow> Inl e
                        | Inr left \<Rightarrow>
                            if left \<noteq> {} then invalid ''resolved group omits a selected allocation''
                            else Inr (insert (rg_id r) seen))"

definition validateResolvedGroups ::
  "policy \<Rightarrow> group_map \<Rightarrow> alloc_map \<Rightarrow> policy_error + unit" where
  "validateResolvedGroups p groups allocs =
     (if length (arr (po_resolved_groups p)) \<noteq> length groups
      then invalid ''resolved_groups must contain exactly one entry for every group''
      else rbind (fold_res (resolved_step groups allocs (arr (po_allocations p))) {} (arr (po_resolved_groups p)))
             (\<lambda>_. Inr ()))"

definition firewall_chain :: "string set \<Rightarrow> policy_chain \<Rightarrow> policy_error + string set" where
  "firewall_chain cids c =
     (if \<not> idPattern (ch_id c) \<or> \<not> validName (ch_name c) then invalid ''invalid chain ID or name''
      else if ch_id c \<in> cids then invalid ''duplicate chain ID''
      else Inr (insert (ch_id c) cids))"

definition firewall_rule ::
  "group_map \<Rightarrow> string set \<Rightarrow> string set \<Rightarrow> policy_rule \<Rightarrow> policy_error + string set" where
  "firewall_rule groups cids rules r =
     (if \<not> idPattern (ru_id r) \<or> \<not> validName (ru_name r) then invalid ''invalid rule ID or name''
      else if ru_id r \<in> rules then invalid ''duplicate rule ID''
      else if ru_direction r \<noteq> ''inbound'' \<and> ru_direction r \<noteq> ''outbound'' then invalid ''invalid direction''
      else if \<not> validAction (ru_action r) \<or> \<not> validProtocol (ru_protocol r) then invalid ''invalid action or protocol''
      else if (case ru_chain_id r of None \<Rightarrow> False | Some c \<Rightarrow> c \<notin> cids) then invalid ''rule references unknown chain''
      else case (case ru_group_id r of
                   None \<Rightarrow> Inr ()
                 | Some gid \<Rightarrow>
                     (case map_of groups gid of
                        None \<Rightarrow> invalid ''rule references unknown group''
                      | Some g \<Rightarrow>
                          if ru_protocol r \<noteq> ''both'' \<and> gr_protocol g \<noteq> ''both'' \<and> ru_protocol r \<noteq> gr_protocol g
                          then invalid ''rule and group protocols do not overlap'' else Inr ())) of
             Inl e \<Rightarrow> Inl e
           | Inr _ \<Rightarrow>
               if (case ru_cidr r of None \<Rightarrow> False | Some v \<Rightarrow> Peer v = None) then invalid ''invalid CIDR''
               else Inr (insert (ru_id r) rules))"

definition validateFirewall :: "policy \<Rightarrow> group_map \<Rightarrow> policy_error + unit" where
  "validateFirewall p groups =
     (let fw = po_firewall p
      in if \<not> validAction (fw_default_inbound fw) \<or> \<not> validAction (fw_default_outbound fw)
         then invalid ''firewall defaults must be allow or drop''
         else rbind (fold_res firewall_chain {} (arr (fw_chains fw)))
                (\<lambda>cids. rbind (fold_res (firewall_rule groups cids) {} (arr (fw_rules fw))) (\<lambda>_. Inr ())))"

text \<open>\<open>calc\<close> is \<^verbatim>\<open>CalculatedHash\<close>; it fails when the encoded policy exceeds one mebibyte.\<close>

definition validateStatic :: "(policy \<Rightarrow> policy_error + string) \<Rightarrow> policy \<Rightarrow> policy_error + unit" where
  "validateStatic calc p =
     rbind (check (po_api_version p = 1) ''api_version must be 1'') (\<lambda>_.
     rbind (check (po_revision p \<noteq> 0) ''revision must be a positive integer'') (\<lambda>_.
     rbind (check (hashPattern (po_hash p)) ''policy_hash must be 64 lowercase hexadecimal characters'') (\<lambda>_.
     rbind (check (po_allocations p \<noteq> None \<and> po_resolved_groups p \<noteq> None \<and> po_groups p \<noteq> None \<and>
                   fw_chains (po_firewall p) \<noteq> None \<and> fw_rules (po_firewall p) \<noteq> None) ''policy arrays must not be null'') (\<lambda>_.
     rbind (check (length (arr (po_groups p)) \<le> 50) ''maximum 50 groups'') (\<lambda>_.
     rbind (check (length (arr (fw_chains (po_firewall p))) \<le> 25) ''maximum 25 chains'') (\<lambda>_.
     rbind (check (length (arr (fw_rules (po_firewall p))) \<le> 100) ''maximum 100 rules'') (\<lambda>_.
     rbind (fold_res static_allocation ([], []) (arr (po_allocations p))) (\<lambda>(allocs, _).
     rbind (fold_res static_group [] (arr (po_groups p))) (\<lambda>groups.
     rbind (validateResolvedGroups p groups allocs) (\<lambda>_.
     rbind (validateFirewall p groups) (\<lambda>_.
     rbind (validateBandwidth (bw_upload (po_bandwidth p)) 0) (\<lambda>_.
     rbind (validateBandwidth (bw_download (po_bandwidth p)) 0) (\<lambda>_.
     rbind (calc p) (\<lambda>hash.
     check (po_hash p = hash) ''policy_hash does not match the complete policy envelope''))))))))))))))"

definition owned_allocation :: "alloc_key list \<Rightarrow> allocation \<Rightarrow> policy_error + unit" where
  "owned_allocation owned a =
     (case allocationKey (al_ip a) (al_port a) of
        None \<Rightarrow> invalid ''address must be an IPv4 or IPv6 address without a zone''
      | Some key \<Rightarrow> check (key \<in> set owned) ''allocation is not assigned to this server'')"

definition Validate ::
  "(policy \<Rightarrow> policy_error + string) \<Rightarrow> assigned_map \<Rightarrow> bandwidth \<Rightarrow> policy \<Rightarrow> policy_error + unit" where
  "Validate calc assigned ceiling p =
     (if p = Empty then
        rbind (validateBandwidth 0 (bw_upload ceiling)) (\<lambda>_. validateBandwidth 0 (bw_download ceiling))
      else
        rbind (validateStatic calc p) (\<lambda>_.
        rbind (validateBandwidth (bw_upload (po_bandwidth p)) (bw_upload ceiling)) (\<lambda>_.
        rbind (validateBandwidth (bw_download (po_bandwidth p)) (bw_download ceiling)) (\<lambda>_.
        rbind (assignedAllocations assigned) (\<lambda>owned.
        rbind (check (length owned = length (arr (po_allocations p)))
                 ''policy allocations do not exactly match the assigned allocations of the server'') (\<lambda>_.
        fold_res (\<lambda>_ a. owned_allocation owned a) () (arr (po_allocations p))))))))"

text \<open>\<^verbatim>\<open>Ports\<close>: the owned ports of the named groups whose protocol overlaps.\<close>

definition Ports :: "policy \<Rightarrow> string list \<Rightarrow> string \<Rightarrow> assigned_map \<Rightarrow> int list" where
  "Ports p names proto assigned =
     sort (remdups (concat (map (\<lambda>g.
       if rg_id g \<notin> set names \<or> (rg_protocol g \<noteq> ''both'' \<and> rg_protocol g \<noteq> proto) then []
       else map al_port (filter (hasAllocation assigned) (arr (rg_allocations g))))
       (arr (po_resolved_groups p)))))"

section \<open>Lemmas on the validation\<close>

lemma check_Inr_iff [res_iffs]: "check b m = Inr u \<longleftrightarrow> b"
  by (simp add: check_def ensure_Inr_iff)

definition akey :: "allocation \<Rightarrow> alloc_key" where
  "akey a = the (allocationKey (al_ip a) (al_port a))"

lemma static_allocation_InrD:
  assumes "static_allocation (m, t) a = Inr r"
  shows "r = ((al_id a, a) # m, (akey a, al_id a) # t)" "al_id a \<notin> fst ` set m" "akey a \<notin> fst ` set t"
    "allocationKey (al_ip a) (al_port a) = Some (akey a)" "1 \<le> al_port a \<and> al_port a \<le> 65535"
  using assms
  by (auto simp: static_allocation_def akey_def map_of_eq_None_iff split: if_splits option.splits)

lemma static_allocations_fold:
  "fold_res static_allocation (m, t) as = Inr (m', t') \<Longrightarrow> distinct (map fst m) \<Longrightarrow> distinct (map fst t) \<Longrightarrow>
   m' = rev (map (\<lambda>a. (al_id a, a)) as) @ m \<and> t' = rev (map (\<lambda>a. (akey a, al_id a)) as) @ t \<and>
   distinct (map fst m') \<and> distinct (map fst t') \<and>
   list_all (\<lambda>a. allocationKey (al_ip a) (al_port a) = Some (akey a) \<and> 1 \<le> al_port a \<and> al_port a \<le> 65535) as"
proof (induction as arbitrary: m t)
  case (Cons a as)
  from Cons.prems(1) obtain r where r: "static_allocation (m, t) a = Inr r" "fold_res static_allocation r as = Inr (m', t')"
    by (auto split: sum.splits)
  note d = static_allocation_InrD [OF r(1)]
  have "distinct (map fst ((al_id a, a) # m))" "distinct (map fst ((akey a, al_id a) # t))"
    using d(2,3) Cons.prems(2,3) by auto
  from Cons.IH [OF r(2) [unfolded d(1)] this] d(4,5) show ?case
    by (elim conjE) (intro conjI; (assumption | simp))
qed simp

lemma static_groups_fold:
  "fold_res static_group m gs = Inr m' \<Longrightarrow> distinct (map fst m) \<Longrightarrow>
   m' = rev (map (\<lambda>g. (gr_id g, g)) gs) @ m \<and> distinct (map fst m')"
proof (induction gs arbitrary: m)
  case (Cons g gs)
  from Cons.prems(1) obtain r where r: "static_group m g = Inr r" "fold_res static_group r gs = Inr m'"
    by (auto split: sum.splits)
  then have "r = (gr_id g, g) # m" "gr_id g \<notin> fst ` set m"
    by (auto simp: static_group_def map_of_eq_None_iff split: if_splits option.splits)
  moreover from this Cons.prems(2) have "distinct (map fst r)" by simp
  note Cons.IH [OF r(2) this]
  ultimately show ?case
    by (elim conjE) (intro conjI; (assumption | simp))
qed simp

text \<open>Which allocations a group selects.\<close>

definition selects :: "group_sel \<Rightarrow> allocation \<Rightarrow> bool" where
  "selects g a \<longleftrightarrow>
     (if gr_mode g = ''allocations'' then al_id a \<in> set (arr (gr_allocation_ids g))
      else gr_port_start g \<le> al_port a \<and> al_port a \<le> gr_port_end g \<and>
           (case gr_ip g of None \<Rightarrow> True | Some v \<Rightarrow> parseIP (al_ip a) = parseIP v))"

lemma select_range_Inr:
  "select_range g mip as sel = Inr sel' \<Longrightarrow>
   sel' = sel \<union> al_id ` set (filter (\<lambda>a. gr_port_start g \<le> al_port a \<and> al_port a \<le> gr_port_end g \<and>
     (case mip of None \<Rightarrow> True | Some m \<Rightarrow> parseIP (al_ip a) = Some m)) as)"
proof (induction as arbitrary: sel)
  case (Cons a as)
  then show ?case
    by (cases mip; cases "parseIP (al_ip a)") (auto split: if_splits simp del: set_filter dest!: Cons.IH)
qed simp

lemma selectedAllocations_Inr:
  assumes "selectedAllocations g as = Inr E"
  shows "E = al_id ` {a \<in> set as. selects g a}"
proof (cases "gr_mode g = ''allocations''")
  case True
  with assms show ?thesis by (auto simp: selectedAllocations_def selects_def)
next
  case False
  show ?thesis
  proof (cases "gr_ip g")
    case None
    with False assms select_range_Inr [of g None as "{}" E] show ?thesis
      by (simp add: selectedAllocations_def selects_def)
  next
    case (Some v)
    with False assms obtain m where m: "parseIP v = Some m" "select_range g (Some m) as {} = Inr E"
      by (auto simp: selectedAllocations_def split: option.splits)
    with False Some select_range_Inr [OF m(2)] show ?thesis by (simp add: selects_def)
  qed
qed

lemma resolved_allocations_fold:
  "fold_res (resolved_allocation allocs) E as = Inr left \<Longrightarrow>
   left = E - al_id ` set as \<and> al_id ` set as \<subseteq> E \<and> (\<forall>a \<in> set as. map_of allocs (al_id a) = Some a) \<and> distinct (map al_id as)"
proof (induction as arbitrary: E)
  case (Cons a as)
  from Cons.prems obtain E' where E': "resolved_allocation allocs E a = Inr E'" "fold_res (resolved_allocation allocs) E' as = Inr left"
    by (auto split: sum.splits)
  then have "E' = E - {al_id a}" "al_id a \<in> E" "map_of allocs (al_id a) = Some a"
    by (auto simp: resolved_allocation_def split: if_splits)
  with Cons.IH [OF E'(2)] show ?case by auto
qed simp

lemma resolved_step_InrD:
  assumes "resolved_step groups allocs all seen r = Inr seen'"
  obtains g where "map_of groups (rg_id r) = Some g" "rg_id r \<notin> seen" "seen' = insert (rg_id r) seen"
    "rg_protocol r = gr_protocol g" "rg_allocations r \<noteq> None" "distinct (map al_id (arr (rg_allocations r)))"
    "al_id ` set (arr (rg_allocations r)) = al_id ` {a \<in> set all. selects g a}"
    "\<forall>a \<in> set (arr (rg_allocations r)). map_of allocs (al_id a) = Some a"
proof -
  from assms obtain g E left where g: "map_of groups (rg_id r) = Some g" "rg_id r \<notin> seen"
    "seen' = insert (rg_id r) seen" "rg_protocol r = gr_protocol g" "rg_allocations r \<noteq> None"
    and E: "selectedAllocations g all = Inr E"
    "fold_res (resolved_allocation allocs) E (arr (rg_allocations r)) = Inr left" "left = {}"
    by (auto simp: resolved_step_def split: option.splits if_splits sum.splits)
  from resolved_allocations_fold [OF E(2)] E(3) selectedAllocations_Inr [OF E(1)] that [OF g] show thesis by blast
qed

lemma resolved_steps_fold:
  "fold_res (resolved_step groups allocs all) seen rs = Inr seen' \<Longrightarrow>
   seen' = seen \<union> rg_id ` set rs \<and> distinct (map rg_id rs) \<and> rg_id ` set rs \<inter> seen = {} \<and>
   (\<forall>r \<in> set rs. \<exists>g. map_of groups (rg_id r) = Some g \<and> rg_protocol r = gr_protocol g \<and> rg_allocations r \<noteq> None \<and>
      distinct (map al_id (arr (rg_allocations r))) \<and>
      al_id ` set (arr (rg_allocations r)) = al_id ` {a \<in> set all. selects g a} \<and>
      (\<forall>a \<in> set (arr (rg_allocations r)). map_of allocs (al_id a) = Some a))"
proof (induction rs arbitrary: seen)
  case (Cons r rs)
  from Cons.prems obtain s1 where s1: "resolved_step groups allocs all seen r = Inr s1"
    "fold_res (resolved_step groups allocs all) s1 rs = Inr seen'"
    by (auto split: sum.splits)
  from s1(1) obtain g where g: "map_of groups (rg_id r) = Some g" "rg_id r \<notin> seen" "s1 = insert (rg_id r) seen"
    "rg_protocol r = gr_protocol g" "rg_allocations r \<noteq> None" "distinct (map al_id (arr (rg_allocations r)))"
    "al_id ` set (arr (rg_allocations r)) = al_id ` {a \<in> set all. selects g a}"
    "\<forall>a \<in> set (arr (rg_allocations r)). map_of allocs (al_id a) = Some a"
    by (rule resolved_step_InrD)
  from Cons.IH [OF s1(2)] g show ?case by auto
qed simp

lemma assigned_port_Inr_iff:
  "assigned_port host owned port = Inr owned' \<longleftrightarrow>
   (\<exists>k. 1 \<le> port \<and> port \<le> 65535 \<and> allocationKey host port = Some k \<and> k \<notin> set owned \<and> owned' = k # owned)"
  by (auto simp: assigned_port_def split: option.splits)

lemma assigned_ports_fold:
  "fold_res (assigned_port host) owned ports = Inr owned' \<Longrightarrow> distinct owned \<Longrightarrow>
   distinct owned' \<and> set owned' = set owned \<union> {k. \<exists>port \<in> set ports. allocationKey host port = Some k} \<and>
   (\<forall>port \<in> set ports. 1 \<le> port \<and> port \<le> 65535)"
proof (induction ports arbitrary: owned)
  case (Cons port ports)
  from Cons.prems(1) obtain o1 where o1: "assigned_port host owned port = Inr o1"
    "fold_res (assigned_port host) o1 ports = Inr owned'"
    by (auto split: sum.splits)
  from o1(1) obtain k where k: "1 \<le> port" "port \<le> 65535" "allocationKey host port = Some k" "k \<notin> set owned" "o1 = k # owned"
    by (auto simp: assigned_port_Inr_iff)
  from Cons.IH [OF o1(2)] k Cons.prems(2) show ?case by auto
qed simp

text \<open>The keys of the map of assigned allocations.\<close>

definition assigned_keys :: "assigned_map \<Rightarrow> alloc_key set" where
  "assigned_keys assigned = {k. \<exists>(host, ports) \<in> set assigned. \<exists>port \<in> set ports. allocationKey host port = Some k}"

lemma assigned_hosts_fold:
  "fold_res (\<lambda>owned (host, ports). fold_res (assigned_port host) owned ports) owned assigned = Inr owned' \<Longrightarrow>
   distinct owned \<Longrightarrow>
   distinct owned' \<and> set owned' = set owned \<union> assigned_keys assigned \<and>
   (\<forall>(host, ports) \<in> set assigned. \<forall>port \<in> set ports. 1 \<le> port \<and> port \<le> 65535)"
proof (induction assigned arbitrary: owned)
  case (Cons hp assigned)
  obtain host ports where hp: "hp = (host, ports)" by (cases hp)
  with Cons.prems(1) obtain o1 where o1: "fold_res (assigned_port host) owned ports = Inr o1"
    "fold_res (\<lambda>owned (host, ports). fold_res (assigned_port host) owned ports) o1 assigned = Inr owned'"
    by (auto split: sum.splits)
  have keys: "assigned_keys (hp # assigned) = {k. \<exists>port \<in> set ports. allocationKey host port = Some k} \<union> assigned_keys assigned"
    by (auto simp: assigned_keys_def hp)
  note f = assigned_ports_fold [OF o1(1) Cons.prems(2)]
  from Cons.IH [OF o1(2)] f show ?case unfolding keys by (simp add: hp) blast
qed (simp add: assigned_keys_def)

lemma assigned_ports_keys_Some:
  "fold_res (assigned_port host) owned ports = Inr owned' \<Longrightarrow> port \<in> set ports \<Longrightarrow> allocationKey host port \<noteq> None"
  by (induction ports arbitrary: owned) (auto simp: assigned_port_Inr_iff split: sum.splits)

lemma assignedAllocations_keys_Some:
  assumes "assignedAllocations assigned = Inr owned" and "(host, ports) \<in> set assigned" and "port \<in> set ports"
  shows "allocationKey host port \<noteq> None"
proof -
  have "fold_res (\<lambda>owned (host, ports). fold_res (assigned_port host) owned ports) o1 assigned = Inr owned \<Longrightarrow>
    allocationKey host port \<noteq> None" for o1
    using assms(2,3)
    by (induction assigned arbitrary: o1) (auto split: sum.splits dest: assigned_ports_keys_Some)
  from this [of "[]"] assms(1) show ?thesis by (simp add: assignedAllocations_def)
qed

lemma assigned_keys_Some:
  assumes "assignedAllocations assigned = Inr owned"
  shows "Some ` assigned_keys assigned =
    {allocationKey host port | host ports port. (host, ports) \<in> set assigned \<and> port \<in> set ports}"
proof (intro equalityI subsetI)
  fix x assume "x \<in> Some ` assigned_keys assigned"
  then obtain host ports port where "(host, ports) \<in> set assigned" "port \<in> set ports" "allocationKey host port = x"
    unfolding assigned_keys_def by auto
  then show "x \<in> {allocationKey host port | host ports port. (host, ports) \<in> set assigned \<and> port \<in> set ports}" by blast
next
  fix x assume "x \<in> {allocationKey host port | host ports port. (host, ports) \<in> set assigned \<and> port \<in> set ports}"
  then obtain host ports port where h: "(host, ports) \<in> set assigned" "port \<in> set ports" "x = allocationKey host port"
    by blast
  with assignedAllocations_keys_Some [OF assms h(1,2)] show "x \<in> Some ` assigned_keys assigned"
    unfolding assigned_keys_def by (cases x) auto
qed

lemma owned_allocations_fold:
  "fold_res (\<lambda>_ a. owned_allocation owned a) () as = Inr u \<longleftrightarrow>
   (\<forall>a \<in> set as. \<exists>k \<in> set owned. allocationKey (al_ip a) (al_port a) = Some k)"
proof (induction as)
  case (Cons a as)
  then show ?case
    by (cases "allocationKey (al_ip a) (al_port a)") (auto simp: owned_allocation_def check_def ensure_def split: sum.splits if_splits)
qed simp

text \<open>What an accepted policy satisfies, group by group of the checks.\<close>

lemma validateStatic_InrD:
  assumes "validateStatic calc p = Inr ()"
  obtains allocs tuples groups where
    "fold_res static_allocation ([], []) (arr (po_allocations p)) = Inr (allocs, tuples)"
    "fold_res static_group [] (arr (po_groups p)) = Inr groups"
    "validateResolvedGroups p groups allocs = Inr ()" "validateFirewall p groups = Inr ()"
    "0 \<le> bw_upload (po_bandwidth p)" "0 \<le> bw_download (po_bandwidth p)" "calc p = Inr (po_hash p)"
  using assms
  by (auto simp: validateStatic_def res_iffs validateBandwidth_def validRate_def split: prod.splits if_splits)

lemma Validate_InrD:
  assumes "Validate calc assigned ceiling p = Inr ()" "p \<noteq> Empty"
  obtains owned where "validateStatic calc p = Inr ()" "assignedAllocations assigned = Inr owned"
    "length owned = length (arr (po_allocations p))"
    "\<forall>a \<in> set (arr (po_allocations p)). \<exists>k \<in> set owned. allocationKey (al_ip a) (al_port a) = Some k"
  using assms by (auto simp: Validate_def res_iffs owned_allocations_fold)

lemma static_allocations_distinct:
  assumes "validateStatic calc p = Inr ()"
  shows "distinct (map al_id (arr (po_allocations p)))" "distinct (map akey (arr (po_allocations p)))"
    "\<forall>a \<in> set (arr (po_allocations p)). allocationKey (al_ip a) (al_port a) = Some (akey a) \<and> 1 \<le> al_port a \<and> al_port a \<le> 65535"
proof -
  from assms obtain allocs tuples where "fold_res static_allocation ([], []) (arr (po_allocations p)) = Inr (allocs, tuples)"
    by (rule validateStatic_InrD)
  then have f: "allocs = rev (map (\<lambda>a. (al_id a, a)) (arr (po_allocations p)))"
    "tuples = rev (map (\<lambda>a. (akey a, al_id a)) (arr (po_allocations p)))" "distinct (map fst allocs)" "distinct (map fst tuples)"
    and l: "list_all (\<lambda>a. allocationKey (al_ip a) (al_port a) = Some (akey a) \<and> 1 \<le> al_port a \<and> al_port a \<le> 65535) (arr (po_allocations p))"
    using static_allocations_fold [of "[]" "[]" "arr (po_allocations p)" allocs tuples, simplified] by blast+
  from f(3) show "distinct (map al_id (arr (po_allocations p)))" unfolding f(1) by (simp add: rev_map [symmetric] o_def)
  from f(4) show "distinct (map akey (arr (po_allocations p)))" unfolding f(2) by (simp add: rev_map [symmetric] o_def)
  from l show "\<forall>a \<in> set (arr (po_allocations p)). allocationKey (al_ip a) (al_port a) = Some (akey a) \<and> 1 \<le> al_port a \<and> al_port a \<le> 65535"
    by (simp add: list_all_iff)
qed

lemma map_of_rev_keyed:
  "distinct (map f xs) \<Longrightarrow> map_of (rev (map (\<lambda>x. (f x, x)) xs)) k = Some x \<longleftrightarrow> x \<in> set xs \<and> f x = k"
  by (subst map_of_eq_Some_iff) (auto simp: rev_map [symmetric] o_def)

text \<open>A resolved group holds exactly what its group selects.\<close>

definition keyed :: "('a \<Rightarrow> 'k) \<Rightarrow> 'a list \<Rightarrow> ('k \<times> 'a) list" where
  "keyed f xs = rev (map (\<lambda>x. (f x, x)) xs)"

lemma keyed_Some_iff: "distinct (map f xs) \<Longrightarrow> map_of (keyed f xs) k = Some x \<longleftrightarrow> x \<in> set xs \<and> f x = k"
  unfolding keyed_def by (rule map_of_rev_keyed)

lemma validateStatic_maps:
  assumes "validateStatic calc p = Inr ()"
  obtains seen where "distinct (map gr_id (arr (po_groups p)))"
    "length (arr (po_resolved_groups p)) = length (arr (po_groups p))"
    "fold_res (resolved_step (keyed gr_id (arr (po_groups p))) (keyed al_id (arr (po_allocations p))) (arr (po_allocations p)))
       {} (arr (po_resolved_groups p)) = Inr seen"
proof -
  from assms obtain allocs tuples groups where f:
    "fold_res static_allocation ([], []) (arr (po_allocations p)) = Inr (allocs, tuples)"
    "fold_res static_group [] (arr (po_groups p)) = Inr groups" "validateResolvedGroups p groups allocs = Inr ()"
    by (rule validateStatic_InrD)
  have a: "allocs = keyed al_id (arr (po_allocations p))"
    using static_allocations_fold [OF f(1), simplified] unfolding keyed_def by blast
  have g: "groups = keyed gr_id (arr (po_groups p))" and d: "distinct (map fst groups)"
    using static_groups_fold [OF f(2), simplified] unfolding keyed_def by blast+
  from d have "distinct (map gr_id (arr (po_groups p)))" unfolding g keyed_def by (simp add: rev_map [symmetric] o_def)
  moreover from f(3) have "length (arr (po_resolved_groups p)) = length (arr (po_groups p))"
    unfolding validateResolvedGroups_def g keyed_def by (simp split: if_splits)
  moreover from f(3) obtain seen where
    "fold_res (resolved_step groups allocs (arr (po_allocations p))) {} (arr (po_resolved_groups p)) = Inr seen"
    unfolding validateResolvedGroups_def by (auto simp: rbind_Inr_iff split: if_splits)
  ultimately show thesis using that unfolding a g by blast
qed

lemma validateStatic_resolved_ids:
  assumes "validateStatic calc p = Inr ()"
  shows "distinct (map rg_id (arr (po_resolved_groups p)))"
    "rg_id ` set (arr (po_resolved_groups p)) = gr_id ` set (arr (po_groups p))"
proof -
  let ?gs = "arr (po_groups p)" and ?rs = "arr (po_resolved_groups p)"
  from assms obtain seen where dG: "distinct (map gr_id ?gs)" and len: "length ?rs = length ?gs" and
    seen: "fold_res (resolved_step (keyed gr_id ?gs) (keyed al_id (arr (po_allocations p))) (arr (po_allocations p))) {} ?rs = Inr seen"
    by (rule validateStatic_maps)
  from resolved_steps_fold [OF seen] show dR: "distinct (map rg_id ?rs)" by blast
  have "rg_id ` set ?rs \<subseteq> gr_id ` set ?gs"
  proof (intro image_subsetI)
    fix r assume "r \<in> set ?rs"
    with resolved_steps_fold [OF seen] obtain g where "map_of (keyed gr_id ?gs) (rg_id r) = Some g" by metis
    then show "rg_id r \<in> gr_id ` set ?gs" by (auto simp: keyed_Some_iff [OF dG] intro: rev_image_eqI)
  qed
  moreover have "card (rg_id ` set ?rs) = card (gr_id ` set ?gs)"
    using distinct_card [OF dR] distinct_card [OF dG] len by simp
  ultimately show "rg_id ` set ?rs = gr_id ` set ?gs" by (simp add: card_subset_eq)
qed

lemma validateStatic_resolved:
  assumes "validateStatic calc p = Inr ()"
    and r: "r \<in> set (arr (po_resolved_groups p))" "g \<in> set (arr (po_groups p))" "gr_id g = rg_id r"
  shows "rg_protocol r = gr_protocol g"
    "mset (arr (rg_allocations r)) = mset (filter (selects g) (arr (po_allocations p)))"
proof -
  let ?as = "arr (po_allocations p)" and ?rs = "arr (rg_allocations r)"
  from assms(1) obtain seen where dG: "distinct (map gr_id (arr (po_groups p)))" and
    seen: "fold_res (resolved_step (keyed gr_id (arr (po_groups p))) (keyed al_id ?as) ?as) {} (arr (po_resolved_groups p)) = Inr seen"
    by (rule validateStatic_maps)
  have dA: "distinct (map al_id ?as)" by (rule static_allocations_distinct(1) [OF assms(1)])
  have "map_of (keyed gr_id (arr (po_groups p))) (rg_id r) = Some g" using r keyed_Some_iff [OF dG] by blast
  then have R: "rg_protocol r = gr_protocol g" "distinct (map al_id ?rs)" "al_id ` set ?rs = al_id ` {a \<in> set ?as. selects g a}"
    "\<forall>a \<in> set ?rs. map_of (keyed al_id ?as) (al_id a) = Some a"
    using resolved_steps_fold [OF seen] r(1) by (metis option.inject)+
  then have sub: "set ?rs \<subseteq> set ?as" by (simp add: keyed_Some_iff [OF dA] subsetI)
  have "inj_on al_id (set ?as)" using dA by (simp add: distinct_map)
  from inj_on_image_eq_iff [OF this sub, of "{a \<in> set ?as. selects g a}"] R(3)
  have "set ?rs = set (filter (selects g) ?as)" by auto
  moreover have "distinct ?rs" "distinct (filter (selects g) ?as)" using R(2) dA by (simp_all add: distinct_map)
  ultimately show "mset ?rs = mset (filter (selects g) ?as)" using set_eq_iff_mset_eq_distinct by blast
  show "rg_protocol r = gr_protocol g" by (rule R(1))
qed

text \<open>The firewall checks: distinct identifiers, known chains and groups.\<close>

lemma firewall_chains_fold:
  "fold_res firewall_chain cids cs = Inr cids' \<Longrightarrow>
   cids' = cids \<union> ch_id ` set cs \<and> distinct (map ch_id cs) \<and> ch_id ` set cs \<inter> cids = {}"
proof (induction cs arbitrary: cids)
  case (Cons c cs)
  then obtain c1 where c1: "firewall_chain cids c = Inr c1" "fold_res firewall_chain c1 cs = Inr cids'"
    by (auto split: sum.splits)
  then have "c1 = insert (ch_id c) cids" "ch_id c \<notin> cids" by (auto simp: firewall_chain_def split: if_splits)
  with Cons.IH [OF c1(2)] show ?case by auto
qed simp

lemma firewall_rules_fold:
  "fold_res (firewall_rule groups cids) ids rs = Inr ids' \<Longrightarrow>
   ids' = ids \<union> ru_id ` set rs \<and> distinct (map ru_id rs) \<and> ru_id ` set rs \<inter> ids = {} \<and>
   (\<forall>r \<in> set rs. set_option (ru_chain_id r) \<subseteq> cids)"
proof (induction rs arbitrary: ids)
  case (Cons r rs)
  then obtain i1 where i1: "firewall_rule groups cids ids r = Inr i1" "fold_res (firewall_rule groups cids) i1 rs = Inr ids'"
    by (auto split: sum.splits)
  then have "i1 = insert (ru_id r) ids" "ru_id r \<notin> ids" "set_option (ru_chain_id r) \<subseteq> cids"
    by (auto simp: firewall_rule_def split: if_splits sum.splits option.splits)
  with Cons.IH [OF i1(2)] show ?case by auto
qed simp

lemma validateStatic_firewall:
  assumes "validateStatic calc p = Inr ()"
  shows "distinct (map ch_id (arr (fw_chains (po_firewall p))))"
    "distinct (map ru_id (arr (fw_rules (po_firewall p))))"
    "\<forall>r \<in> set (arr (fw_rules (po_firewall p))). set_option (ru_chain_id r) \<subseteq> ch_id ` set (arr (fw_chains (po_firewall p)))"
proof -
  from assms obtain groups where "validateFirewall p groups = Inr ()" by (rule validateStatic_InrD)
  then obtain cids ids where f: "fold_res firewall_chain {} (arr (fw_chains (po_firewall p))) = Inr cids"
    "fold_res (firewall_rule groups cids) {} (arr (fw_rules (po_firewall p))) = Inr ids"
    unfolding validateFirewall_def by (auto simp: rbind_Inr_iff Let_def split: if_splits)
  from firewall_chains_fold [OF f(1)] firewall_rules_fold [OF f(2)]
  show "distinct (map ch_id (arr (fw_chains (po_firewall p))))" "distinct (map ru_id (arr (fw_rules (po_firewall p))))"
    "\<forall>r \<in> set (arr (fw_rules (po_firewall p))). set_option (ru_chain_id r) \<subseteq> ch_id ` set (arr (fw_chains (po_firewall p)))"
    by simp_all
qed

text \<open>A rule is active when it is enabled and its chain, if it names one, is enabled.\<close>

definition rule_active :: "policy \<Rightarrow> policy_rule \<Rightarrow> bool" where
  "rule_active p r \<longleftrightarrow>
     ru_enabled r \<and>
     (case ru_chain_id r of
        None \<Rightarrow> True
      | Some c \<Rightarrow> list_ex (\<lambda>ch. ch_id ch = c \<and> ch_enabled ch) (arr (fw_chains (po_firewall p))))"

lemma filter_mset_disj:
  "(\<And>x. x \<in># M \<Longrightarrow> P x \<Longrightarrow> Q x \<Longrightarrow> False) \<Longrightarrow> filter_mset (\<lambda>x. P x \<or> Q x) M = filter_mset P M + filter_mset Q M"
  by (induction M) auto

lemma chain_blocks_mset:
  fixes rs :: "policy_rule list"
  shows "distinct (map ch_id cs) \<Longrightarrow>
   mset (concat (map (\<lambda>c. if ch_enabled c then filter (\<lambda>r. ru_enabled r \<and> ru_chain_id r = Some (ch_id c)) rs else []) cs)) =
   mset (filter (\<lambda>r. ru_enabled r \<and> (\<exists>c \<in> set cs. ch_enabled c \<and> ru_chain_id r = Some (ch_id c))) rs)"
proof (induction cs)
  case (Cons c cs)
  show ?case
  proof (cases "ch_enabled c")
    case True
    have "mset (filter (\<lambda>r. ru_enabled r \<and> (\<exists>d \<in> set (c # cs). ch_enabled d \<and> ru_chain_id r = Some (ch_id d))) rs) =
      filter_mset (\<lambda>r. ru_enabled r \<and> ru_chain_id r = Some (ch_id c) \<or>
        ru_enabled r \<and> (\<exists>d \<in> set cs. ch_enabled d \<and> ru_chain_id r = Some (ch_id d))) (mset rs)"
      using True by (auto intro!: filter_mset_cong)
    also have "\<dots> = filter_mset (\<lambda>r. ru_enabled r \<and> ru_chain_id r = Some (ch_id c)) (mset rs) +
      filter_mset (\<lambda>r. ru_enabled r \<and> (\<exists>d \<in> set cs. ch_enabled d \<and> ru_chain_id r = Some (ch_id d))) (mset rs)"
      using Cons.prems by (intro filter_mset_disj) auto
    finally show ?thesis using Cons True by simp
  next
    case False
    with Cons show ?thesis by simp
  qed
qed simp

lemma OrderedRules_mset:
  assumes "distinct (map ch_id (arr (fw_chains (po_firewall p))))"
  shows "mset (OrderedRules p) = mset (filter (rule_active p) (arr (fw_rules (po_firewall p))))"
proof -
  let ?rs = "arr (fw_rules (po_firewall p))" and ?cs = "arr (fw_chains (po_firewall p))"
  have "mset (OrderedRules p) =
      filter_mset (\<lambda>r. ru_enabled r \<and> (\<exists>c \<in> set ?cs. ch_enabled c \<and> ru_chain_id r = Some (ch_id c))) (mset ?rs) +
      filter_mset (\<lambda>r. ru_enabled r \<and> ru_chain_id r = None) (mset ?rs)"
    unfolding OrderedRules_def Let_def mset_append chain_blocks_mset [OF assms] by (simp only: mset_filter)
  also have "\<dots> = filter_mset (rule_active p) (mset ?rs)"
    by (subst filter_mset_disj [symmetric])
      (auto simp: rule_active_def list_ex_iff split: option.splits intro!: filter_mset_cong)
  finally show ?thesis by simp
qed

section \<open>Properties of accepted policies\<close>

text \<open>A concrete policy for the witnesses: two ports, one range group and a chain with two rules.\<close>

definition sample_policy :: policy where
  "sample_policy = \<lparr>po_api_version = 1, po_revision = 1, po_hash = replicate 64 (CHR ''a''),
     po_allocations = Some [\<lparr>al_id = 1, al_ip = ''10.0.0.1'', al_port = 80\<rparr>, \<lparr>al_id = 2, al_ip = ''10.0.0.1'', al_port = 90\<rparr>],
     po_resolved_groups = Some [\<lparr>rg_id = ''g'', rg_protocol = ''tcp'',
        rg_allocations = Some [\<lparr>al_id = 1, al_ip = ''10.0.0.1'', al_port = 80\<rparr>]\<rparr>],
     po_groups = Some [\<lparr>gr_id = ''g'', gr_name = ''web'', gr_mode = ''range'', gr_protocol = ''tcp'', gr_allocation_ids = Some [],
        gr_port_start = 70, gr_port_end = 85, gr_ip = None\<rparr>],
     po_firewall = \<lparr>fw_enabled = True, fw_default_inbound = ''drop'', fw_default_outbound = ''allow'',
        fw_chains = Some [\<lparr>ch_id = ''c'', ch_name = ''c'', ch_enabled = True\<rparr>],
        fw_rules = Some [\<lparr>ru_id = ''r1'', ru_name = ''r'', ru_enabled = True, ru_chain_id = None, ru_direction = ''inbound'',
             ru_action = ''allow'', ru_protocol = ''tcp'', ru_group_id = Some ''g'', ru_cidr = None\<rparr>,
           \<lparr>ru_id = ''r2'', ru_name = ''r'', ru_enabled = True, ru_chain_id = Some ''c'', ru_direction = ''outbound'',
             ru_action = ''drop'', ru_protocol = ''udp'', ru_group_id = None, ru_cidr = Some ''10.1.0.0/16''\<rparr>]\<rparr>,
     po_bandwidth = \<lparr>bw_upload = 0, bw_download = 5000\<rparr>\<rparr>"

definition sample_assigned :: assigned_map where
  "sample_assigned = [(''10.0.0.1'', [80, 90])]"

definition sample_hash :: "policy \<Rightarrow> policy_error + string" where
  "sample_hash p = Inr (replicate 64 (CHR ''a''))"

definition sample_ceiling :: bandwidth where
  "sample_ceiling = \<lparr>bw_upload = 100, bw_download = 9000\<rparr>"

lemma sample_valid: "Validate sample_hash sample_assigned sample_ceiling sample_policy = Inr ()"
  by code_simp

lemma sample_not_Empty: "sample_policy \<noteq> Empty"
  by (simp add: sample_policy_def Empty_def)

lemma sample_static: "validateStatic sample_hash sample_policy = Inr ()"
  using Validate_InrD [OF sample_valid sample_not_Empty] by blast

text \<open>
  C35. A policy that \<^verbatim>\<open>Validate\<close> accepts names exactly the allocations the server has: as
  address and port pairs, the allocations of the policy are pairwise different, and they are
  precisely the pairs the server configuration assigns. The code only compares the two
  lengths and looks each allocation up; equality follows because both sides are duplicate
  free.
\<close>

theorem Validate_allocations_exact:
  assumes "Validate calc assigned ceiling p = Inr ()" and "p \<noteq> Empty"
  shows "distinct (map (\<lambda>a. allocationKey (al_ip a) (al_port a)) (arr (po_allocations p))) \<and>
    (\<lambda>a. allocationKey (al_ip a) (al_port a)) ` set (arr (po_allocations p)) =
    {allocationKey host port | host ports port. (host, ports) \<in> set assigned \<and> port \<in> set ports}"
proof -
  let ?as = "arr (po_allocations p)"
  from assms obtain owned where v: "validateStatic calc p = Inr ()" "assignedAllocations assigned = Inr owned"
    "length owned = length ?as" "\<forall>a \<in> set ?as. \<exists>k \<in> set owned. allocationKey (al_ip a) (al_port a) = Some k"
    by (rule Validate_InrD)
  note st = static_allocations_distinct [OF v(1)]
  from v(2) have ow: "distinct owned" "set owned = assigned_keys assigned"
    using assigned_hosts_fold [of "[]" assigned owned] by (simp_all add: assignedAllocations_def)
  have keys: "map (\<lambda>a. allocationKey (al_ip a) (al_port a)) ?as = map Some (map akey ?as)" using st(3) by simp
  have sub: "akey ` set ?as \<subseteq> set owned" using v(4) st(3) by force
  have "card (akey ` set ?as) = card (set owned)"
    using distinct_card [OF st(2)] distinct_card [OF ow(1)] v(3) by simp
  with sub have eq: "akey ` set ?as = set owned" by (simp add: card_subset_eq)
  have "(\<lambda>a. allocationKey (al_ip a) (al_port a)) ` set ?as = Some ` assigned_keys assigned"
    using eq ow(2) st(3) by (metis (no_types, lifting) image_cong image_image)
  also have "\<dots> = {allocationKey host port | host ports port. (host, ports) \<in> set assigned \<and> port \<in> set ports}"
    by (rule assigned_keys_Some [OF v(2)])
  finally show ?thesis using st(2) by (simp add: keys distinct_map comp_inj_on)
qed

theorem Validate_allocations_exact_witness:
  "distinct (map (\<lambda>a. allocationKey (al_ip a) (al_port a)) (arr (po_allocations sample_policy))) \<and>
    (\<lambda>a. allocationKey (al_ip a) (al_port a)) ` set (arr (po_allocations sample_policy)) =
    {allocationKey host port | host ports port. (host, ports) \<in> set sample_assigned \<and> port \<in> set ports}"
  by (rule Validate_allocations_exact [OF sample_valid sample_not_Empty])

text \<open>
  The groups the panel resolved are the groups of an accepted policy, one entry each, with
  the protocol of the group, and the allocations of each entry are exactly the ones the
  group selects, by identifier or by port range and address: none is missing, none is
  added, none is repeated.
\<close>

theorem validateStatic_groups_resolved:
  assumes "validateStatic calc p = Inr ()"
  shows "mset (map rg_id (arr (po_resolved_groups p))) = mset (map gr_id (arr (po_groups p))) \<and>
    (\<forall>r \<in> set (arr (po_resolved_groups p)). \<exists>g \<in> set (arr (po_groups p)).
       gr_id g = rg_id r \<and> rg_protocol r = gr_protocol g \<and>
       mset (arr (rg_allocations r)) = mset (filter (selects g) (arr (po_allocations p))))"
proof
  note ids = validateStatic_resolved_ids [OF assms]
  from assms have "distinct (map gr_id (arr (po_groups p)))" by (rule validateStatic_maps)
  with ids show "mset (map rg_id (arr (po_resolved_groups p))) = mset (map gr_id (arr (po_groups p)))"
    by (simp add: set_eq_iff_mset_eq_distinct [symmetric] del: mset_map)
  show "\<forall>r \<in> set (arr (po_resolved_groups p)). \<exists>g \<in> set (arr (po_groups p)).
       gr_id g = rg_id r \<and> rg_protocol r = gr_protocol g \<and>
       mset (arr (rg_allocations r)) = mset (filter (selects g) (arr (po_allocations p)))"
  proof
    fix r assume r: "r \<in> set (arr (po_resolved_groups p))"
    then obtain g where "g \<in> set (arr (po_groups p))" "gr_id g = rg_id r" using ids(2) by (metis imageE imageI)
    with validateStatic_resolved [OF assms r this] show "\<exists>g \<in> set (arr (po_groups p)). gr_id g = rg_id r \<and>
        rg_protocol r = gr_protocol g \<and> mset (arr (rg_allocations r)) = mset (filter (selects g) (arr (po_allocations p)))"
      by blast
  qed
qed

theorem validateStatic_groups_resolved_witness:
  "mset (map rg_id (arr (po_resolved_groups sample_policy))) = mset (map gr_id (arr (po_groups sample_policy))) \<and>
   mset (arr (rg_allocations (hd (arr (po_resolved_groups sample_policy))))) =
   mset (filter (selects (hd (arr (po_groups sample_policy)))) (arr (po_allocations sample_policy)))"
  using validateStatic_groups_resolved [OF sample_static] by (simp add: sample_policy_def)

text \<open>
  C36. The rules that \<^verbatim>\<open>OrderedRules\<close> puts in evaluation order are, for an accepted policy,
  every active rule exactly once: a rule is active when it is enabled and its chain, if it
  names one, is enabled.
\<close>

theorem OrderedRules_each_active_once:
  assumes "validateStatic calc p = Inr ()"
  shows "mset (OrderedRules p) = mset (filter (rule_active p) (arr (fw_rules (po_firewall p)))) \<and>
    distinct (map ru_id (OrderedRules p))"
proof -
  note fw = validateStatic_firewall [OF assms]
  note m = OrderedRules_mset [OF fw(1)]
  have "mset (map ru_id (OrderedRules p)) = mset (map ru_id (filter (rule_active p) (arr (fw_rules (po_firewall p)))))"
    using m by simp
  moreover have "distinct (map ru_id (filter (rule_active p) (arr (fw_rules (po_firewall p)))))"
    using fw(2) by (rule distinct_map_filter)
  ultimately have "distinct (map ru_id (OrderedRules p))" by (metis mset_eq_imp_distinct_iff)
  with m show ?thesis by blast
qed

theorem OrderedRules_each_active_once_witness:
  "mset (OrderedRules sample_policy) = mset (filter (rule_active sample_policy) (arr (fw_rules (po_firewall sample_policy)))) \<and>
    distinct (map ru_id (OrderedRules sample_policy))"
  by (rule OrderedRules_each_active_once [OF sample_static])

text \<open>
  The rate that is put into effect allows exactly what both the policy and the
  administrator's ceiling allow, where a rate of zero is no limit; in particular a ceiling is
  never exceeded and never lifted by a policy that sets none.
\<close>

definition rate_allows :: "int \<Rightarrow> int \<Rightarrow> bool" where
  "rate_allows limit bps \<longleftrightarrow> limit = 0 \<or> bps \<le> limit"

theorem Effective_meets_both_limits:
  assumes "validRate (bw_upload (po_bandwidth p))" "validRate (bw_download (po_bandwidth p))"
    and "validRate (bw_upload ceiling)" "validRate (bw_download ceiling)"
  shows "(rate_allows (bw_upload (Effective p ceiling)) bps \<longleftrightarrow>
      rate_allows (bw_upload (po_bandwidth p)) bps \<and> rate_allows (bw_upload ceiling) bps) \<and>
    (rate_allows (bw_download (Effective p ceiling)) bps \<longleftrightarrow>
      rate_allows (bw_download (po_bandwidth p)) bps \<and> rate_allows (bw_download ceiling) bps)"
  using assms by (auto simp: rate_allows_def Effective_def effective_rate_def validRate_def)

theorem Effective_meets_both_limits_witness:
  "rate_allows (bw_upload (Effective sample_policy sample_ceiling)) 100 \<and>
   \<not> rate_allows (bw_upload (Effective sample_policy sample_ceiling)) 101 \<and>
   \<not> rate_allows (bw_download (Effective sample_policy sample_ceiling)) 5001"
  using Effective_meets_both_limits [of sample_policy sample_ceiling 100]
    Effective_meets_both_limits [of sample_policy sample_ceiling 101]
    Effective_meets_both_limits [of sample_policy sample_ceiling 5001]
  by (simp add: sample_policy_def sample_ceiling_def rate_allows_def validRate_def maxRate_def)

text \<open>Every allocation of an accepted policy is owned, so \<^verbatim>\<open>Ports\<close> never drops one.\<close>

lemma allocationKey_port:
  assumes "allocationKey host port = allocationKey v port'" "allocationKey v port' \<noteq> None"
    and "1 \<le> port \<and> port \<le> 65535" "1 \<le> port' \<and> port' \<le> 65535"
  shows "port = port'"
  using assms by (auto simp: allocationKey_def split: option.splits)

lemma Validate_hasAllocation:
  assumes "Validate calc assigned ceiling p = Inr ()" and "p \<noteq> Empty" and a: "a \<in> set (arr (po_allocations p))"
  shows "hasAllocation assigned a"
proof -
  from assms(1,2) obtain owned where v: "validateStatic calc p = Inr ()" "assignedAllocations assigned = Inr owned"
    "\<forall>a \<in> set (arr (po_allocations p)). \<exists>k \<in> set owned. allocationKey (al_ip a) (al_port a) = Some k"
    by (rule Validate_InrD)
  from v(2) have ow: "set owned = assigned_keys assigned"
    "\<forall>(host, ports) \<in> set assigned. \<forall>port \<in> set ports. 1 \<le> port \<and> port \<le> 65535"
    using assigned_hosts_fold [of "[]" assigned owned] by (simp_all add: assignedAllocations_def)
  from v(3) a ow(1) obtain k where k: "allocationKey (al_ip a) (al_port a) = Some k" "k \<in> assigned_keys assigned" by metis
  then obtain host ports port where h: "(host, ports) \<in> set assigned" "port \<in> set ports" "allocationKey host port = Some k"
    unfolding assigned_keys_def by blast
  have "port = al_port a"
    using allocationKey_port [of host port "al_ip a" "al_port a"] k h ow(2) static_allocations_distinct(3) [OF v(1)] a
    by auto
  with h k show ?thesis unfolding hasAllocation_def by (auto simp: list_ex_iff)
qed

lemma set_Ports:
  "set (Ports p names proto assigned) =
   {al_port a | r a. r \<in> set (arr (po_resolved_groups p)) \<and> rg_id r \<in> set names \<and>
      (rg_protocol r = ''both'' \<or> rg_protocol r = proto) \<and> a \<in> set (arr (rg_allocations r)) \<and> hasAllocation assigned a}"
  by (auto simp: Ports_def split: if_splits)

text \<open>
  For an accepted policy \<^verbatim>\<open>Ports\<close> returns, in increasing order and without repetition,
  the ports of exactly those allocations of the server that a named group with an
  overlapping protocol selects.
\<close>

theorem Ports_of_accepted_policy:
  assumes "Validate calc assigned ceiling p = Inr ()" and "p \<noteq> Empty"
  shows "sorted_wrt (<) (Ports p names proto assigned) \<and>
    set (Ports p names proto assigned) =
    {al_port a | g a. g \<in> set (arr (po_groups p)) \<and> gr_id g \<in> set names \<and>
       (gr_protocol g = ''both'' \<or> gr_protocol g = proto) \<and> a \<in> set (arr (po_allocations p)) \<and> selects g a}"
proof -
  from assms have st: "validateStatic calc p = Inr ()" by (rule Validate_InrD)
  note ids = validateStatic_resolved_ids [OF st]
  have same: "rg_protocol r = gr_protocol g \<and> set (arr (rg_allocations r)) = {a \<in> set (arr (po_allocations p)). selects g a}"
    if "r \<in> set (arr (po_resolved_groups p))" "g \<in> set (arr (po_groups p))" "gr_id g = rg_id r" for r g
    using validateStatic_resolved(1) [OF st that] mset_eq_setD [OF validateStatic_resolved(2) [OF st that]] by simp
  have own: "hasAllocation assigned a" if "a \<in> set (arr (po_allocations p))" for a
    using assms that by (rule Validate_hasAllocation)
  have "set (Ports p names proto assigned) =
    {al_port a | g a. g \<in> set (arr (po_groups p)) \<and> gr_id g \<in> set names \<and>
       (gr_protocol g = ''both'' \<or> gr_protocol g = proto) \<and> a \<in> set (arr (po_allocations p)) \<and> selects g a}" (is "_ = ?R")
  proof (intro equalityI subsetI)
    fix x assume "x \<in> set (Ports p names proto assigned)"
    then obtain r a where r: "r \<in> set (arr (po_resolved_groups p))" "rg_id r \<in> set names"
      "rg_protocol r = ''both'' \<or> rg_protocol r = proto" "a \<in> set (arr (rg_allocations r))" "x = al_port a"
      unfolding set_Ports by blast
    then obtain g where g: "g \<in> set (arr (po_groups p))" "gr_id g = rg_id r" using ids(2) by (metis imageE imageI)
    from same [OF r(1) g] r g show "x \<in> ?R" by force
  next
    fix x assume "x \<in> ?R"
    then obtain g a where g: "g \<in> set (arr (po_groups p))" "gr_id g \<in> set names"
      "gr_protocol g = ''both'' \<or> gr_protocol g = proto" "a \<in> set (arr (po_allocations p))" "selects g a" "x = al_port a"
      by blast
    have "gr_id g \<in> rg_id ` set (arr (po_resolved_groups p))" using g(1) ids(2) by simp
    then obtain r where r: "r \<in> set (arr (po_resolved_groups p))" "gr_id g = rg_id r" by (rule imageE)
    from same [OF r(1) g(1) r(2)] r g own show "x \<in> set (Ports p names proto assigned)" unfolding set_Ports by force
  qed
  moreover have "sorted_wrt (<) (Ports p names proto assigned)"
    unfolding Ports_def by (simp add: strict_sorted_iff)
  ultimately show ?thesis by blast
qed

lemma sample_Ports: "Ports sample_policy [''g''] ''tcp'' sample_assigned = [80]"
  by code_simp

theorem Ports_of_accepted_policy_witness:
  "{80} = {al_port a | g a. g \<in> set (arr (po_groups sample_policy)) \<and> gr_id g \<in> set [''g''] \<and>
       (gr_protocol g = ''both'' \<or> gr_protocol g = ''tcp'') \<and> a \<in> set (arr (po_allocations sample_policy)) \<and> selects g a}"
  using Ports_of_accepted_policy [OF sample_valid sample_not_Empty, of "[''g'']" "''tcp''"]
  unfolding sample_Ports by simp

end
