(* ===== verification/Net_Ruleset.thy ===== *)
theory Net_Ruleset
  imports Net_Policy
begin

text \<open>
  The compiler from a network policy to nftables (\<^verbatim>\<open>internal/networkpolicy/linux.go\<close> from
  \<^verbatim>\<open>Names\<close> to \<^verbatim>\<open>prefix\<close>, \<^verbatim>\<open>allocation.go\<close>, \<^verbatim>\<open>icmp.go\<close> and \<^verbatim>\<open>replies.go\<close>). The document
  it emits is a list of commands whose expressions are the constructors of \<open>nft_expr\<close> and
  \<open>nft_stmt\<close>, one per shape of JSON object the code builds.

  What the kernel does with the document is stated over an arbitrary packet: a packet is a
  function that gives each selector its value, if the packet has one. A rule applies when all
  its matches hold; \<open>run\<close> walks a chain as nft(8) describes it, with \<^verbatim>\<open>return\<close> and the end
  of a chain going back to the chain that jumped, and \<^verbatim>\<open>goto\<close> giving the chain up. The depth
  argument bounds nested jumps; the emitted tables never need more than two.
\<close>

section \<open>The document\<close>

datatype nft_expr =
    NStr string
  | NNum int
  | NTrue
  | NPayload string string
  | NMeta string
  | NCt string "string option"
  | NAnd nft_expr nft_expr
  | NExthdr string
  | NConcat "nft_expr list"
  | NSet "nft_expr list"
  | NPrefix string nat

datatype nft_stmt =
    NMatch string nft_expr nft_expr
  | NVerdict string
  | NJump string
  | NGoto string

type_synonym nft_rule = "nft_stmt list"

datatype nft_command =
    AddTable string string
  | AddChain string
  | AddBaseChain string string int
  | AddRule string nft_rule

type_synonym nft_document = "nft_command list"

definition ownerPrefix :: string where
  "ownerPrefix = ''wings-networkstats:''"

definition maxCompiledAllocationMatches :: nat where
  "maxCompiledAllocationMatches = 16 * 1024"

text \<open>
  \<^verbatim>\<open>Names\<close>: \<open>uuid_ok\<close> is "\<^verbatim>\<open>uuid.Parse\<close> succeeds and prints back the same text"; the names are
  those of the Docker network, the bridge and the table.
\<close>

definition Names :: "(string \<Rightarrow> bool) \<Rightarrow> string \<Rightarrow> policy_error + string \<times> string \<times> string" where
  "Names uuid_ok sid =
     (if \<not> uuid_ok sid then invalid ''invalid server UUID''
      else let hex = filter (\<lambda>c. c \<noteq> CHR ''-'') sid
           in Inr (''wings-nsm-'' @ sid, ''nsm'' @ take 12 hex, ''wings_nsm_'' @ hex))"

section \<open>Expressions\<close>

definition nmatch :: "nft_expr \<Rightarrow> nft_expr \<Rightarrow> nft_stmt" where
  "nmatch l r = NMatch ''=='' l r"

definition nmatch_op :: "nft_expr \<Rightarrow> nft_expr \<Rightarrow> string \<Rightarrow> nft_stmt" where
  "nmatch_op l r op = NMatch op l r"

definition ct :: "string \<Rightarrow> string \<Rightarrow> string \<Rightarrow> nft_expr" where
  "ct key family direction =
     NCt (if family \<noteq> '''' then family @ '' '' @ key else key)
       (if key \<noteq> ''protocol'' then Some direction else None)"

definition matchCTStatus :: "string \<Rightarrow> string \<Rightarrow> nft_stmt" where
  "matchCTStatus flag op = NMatch op (NAnd (NCt ''status'' None) (NStr flag)) (NStr flag)"

definition intSet :: "int list \<Rightarrow> nft_expr" where
  "intSet vs = (if length vs = 1 then NNum (hd vs) else NSet (map NNum vs))"

type_synonym allocation_tuple = "string \<times> int"

definition tupleSet :: "allocation_tuple list \<Rightarrow> nft_expr" where
  "tupleSet as = NSet (map (\<lambda>(addr, port). NConcat [NStr addr, NNum port]) as)"

text \<open>\<^verbatim>\<open>prefix\<close>: the text before the slash of the printed prefix is the printed address.\<close>

definition nprefix :: "ip_prefix \<Rightarrow> nft_expr" where
  "nprefix px =
     (if px_bits px = BitLen (px_addr px) then NStr (addr_String (px_addr px))
      else NPrefix (addr_String (px_addr px)) (px_bits px))"

section \<open>Allocations of a rule\<close>

record allocation_match =
  am_family :: string
  am_ports :: "int list"
  am_allocations :: "allocation_tuple list"

record policy_allocation_match =
  pm_match :: allocation_match
  pm_path :: string
  pm_drop :: bool

definition no_allocation :: allocation_match where
  "no_allocation = \<lparr>am_family = '''', am_ports = [], am_allocations = []\<rparr>"

definition ip_family :: "ip_addr \<Rightarrow> string" where
  "ip_family ip = (if Is6 ip then ''ip6'' else ''ip'')"

text \<open>
  The loop over the allocations of the group collects, per family, the sets of ports and of
  tuples; here each allocation that is kept gives one triple.
\<close>

definition resolved_tuple ::
  "assigned_map \<Rightarrow> (string \<times> string \<times> int) list \<Rightarrow> allocation \<Rightarrow> policy_error + (string \<times> string \<times> int) list" where
  "resolved_tuple assigned acc a =
     (if \<not> hasAllocation assigned a then Inr acc
      else case parseIP (al_ip a) of
             None \<Rightarrow> invalid ''address must be an IPv4 or IPv6 address without a zone''
           | Some ip \<Rightarrow> Inr (acc @ [(ip_family ip, addr_String ip, al_port a)]))"

definition family_match :: "(string \<times> string \<times> int) list \<Rightarrow> string \<Rightarrow> allocation_match list" where
  "family_match found family =
     (let mine = filter (\<lambda>t. fst t = family) found
      in if mine = [] then []
         else [\<lparr>am_family = family, am_ports = sort (remdups (map (\<lambda>t. snd (snd t)) mine)),
                am_allocations = sort (remdups (map snd mine))\<rparr>])"

definition resolvedMatches ::
  "policy \<Rightarrow> string \<Rightarrow> string \<Rightarrow> assigned_map \<Rightarrow> policy_error + allocation_match list" where
  "resolvedMatches p groupID proto assigned =
     (case find (\<lambda>g. rg_id g = groupID \<and> (rg_protocol g = ''both'' \<or> rg_protocol g = proto)) (arr (po_resolved_groups p)) of
        None \<Rightarrow> Inr []
      | Some g \<Rightarrow>
          rbind (fold_res (resolved_tuple assigned) [] (arr (rg_allocations g)))
            (\<lambda>found. Inr (family_match found ''ip'' @ family_match found ''ip6'')))"

definition shared_ports ::
  "allocation_match \<Rightarrow> int list \<Rightarrow> string \<times> int list \<Rightarrow> policy_error + int list" where
  "shared_ports variant shared hp =
     (case parseIP (fst hp) of
        None \<Rightarrow> invalid ''address must be an IPv4 or IPv6 address without a zone''
      | Some ip \<Rightarrow>
          if ip_family ip \<noteq> am_family variant then Inr shared
          else Inr (shared @ filter (\<lambda>port. port \<in> set (am_ports variant) \<and>
                                            (addr_String ip, port) \<notin> set (am_allocations variant)) (snd hp)))"

definition directAllocationPorts ::
  "allocation_match \<Rightarrow> assigned_map \<Rightarrow> policy_error + int list \<times> int list" where
  "directAllocationPorts variant assigned =
     rbind (fold_res (shared_ports variant) [] assigned)
       (\<lambda>shared. Inr (filter (\<lambda>port. port \<notin> set shared) (am_ports variant),
                      filter (\<lambda>port. port \<in> set shared) (am_ports variant)))"

definition ensurePortScope :: "allocation_match \<Rightarrow> assigned_map \<Rightarrow> policy_error + unit" where
  "ensurePortScope variant assigned =
     rbind (directAllocationPorts variant assigned)
       (\<lambda>(_, ambiguous). check (ambiguous = []) ''cannot preserve outbound allocation IP scope'')"

definition direct_paths ::
  "allocation_match \<Rightarrow> int list \<Rightarrow> int list \<Rightarrow> string \<Rightarrow> policy_allocation_match list" where
  "direct_paths variant ports ambiguous path =
     (if ports \<noteq> [] then [\<lparr>pm_match = variant\<lparr>am_ports := ports\<rparr>, pm_path = path, pm_drop = False\<rparr>] else []) @
     (if ambiguous \<noteq> [] then [\<lparr>pm_match = variant\<lparr>am_ports := ambiguous\<rparr>, pm_path = path, pm_drop = True\<rparr>] else [])"

definition variant_matches ::
  "policy_rule \<Rightarrow> assigned_map \<Rightarrow> bool \<Rightarrow> policy_allocation_match list \<Rightarrow> allocation_match
   \<Rightarrow> policy_error + policy_allocation_match list" where
  "variant_matches rule assigned original acc variant =
     (if ru_direction rule \<noteq> ''inbound'' \<or> ru_group_id rule = None \<and> (ru_cidr rule = None \<or> original)
      then Inr (acc @ [\<lparr>pm_match = variant, pm_path = '''', pm_drop = False\<rparr>])
      else if ru_group_id rule = None
      then Inr (acc @ map (\<lambda>path. \<lparr>pm_match = variant, pm_path = path, pm_drop = False\<rparr>) [''dnat'', ''direct'', ''reply''])
      else rbind (directAllocationPorts variant assigned)
             (\<lambda>(ports, ambiguous).
                Inr (acc @ [\<lparr>pm_match = variant, pm_path = ''dnat'', pm_drop = False\<rparr>] @
                     concat (map (direct_paths variant ports ambiguous) (if original then [''direct''] else [''direct'', ''reply''])))))"

definition policyAllocationMatches ::
  "policy_rule \<Rightarrow> allocation_match list \<Rightarrow> assigned_map \<Rightarrow> bool \<Rightarrow> policy_error + policy_allocation_match list" where
  "policyAllocationMatches rule variants assigned original =
     fold_res (variant_matches rule assigned original) [] variants"

section \<open>Rules\<close>

text \<open>The expressions for the path, the allocation and the peer of one variant.\<close>

definition path_exprs :: "policy_allocation_match \<Rightarrow> bool \<Rightarrow> nft_rule" where
  "path_exprs v original =
     (if pm_path v = '''' then []
      else if pm_path v = ''direct'' then [matchCTStatus ''dnat'' ''!='']
      else matchCTStatus ''dnat'' ''=='' #
           (if original then []
            else [nmatch (NCt ''direction'' None) (NStr (if pm_path v = ''reply'' then ''reply'' else ''original''))]))"

definition allocation_exprs :: "policy_rule \<Rightarrow> string \<Rightarrow> bool \<Rightarrow> policy_allocation_match \<Rightarrow> nft_rule" where
  "allocation_exprs rule proto original v =
     (let m = pm_match v; inbound = (ru_direction rule = ''inbound'')
      in if am_family m = '''' then []
         else [nmatch (NPayload ''ether'' ''type'') (NStr (am_family m)),
               nmatch (if original then ct (if inbound then ''proto-dst'' else ''proto-src'') '''' ''original''
                       else NPayload proto (if inbound then ''dport'' else ''sport''))
                 (intSet (am_ports m))] @
              (if inbound \<and> pm_path v = ''dnat''
               then [nmatch (NConcat [ct ''daddr'' (am_family m) ''original'', ct ''proto-dst'' '''' ''original''])
                       (tupleSet (am_allocations m))]
               else []))"

text \<open>\<open>Inr None\<close>: the peer is of the other family, the variant is skipped.\<close>

definition peer_exprs :: "policy_rule \<Rightarrow> bool \<Rightarrow> policy_allocation_match \<Rightarrow> policy_error + nft_rule option" where
  "peer_exprs rule original v =
     (case ru_cidr rule of
        None \<Rightarrow> Inr (Some [])
      | Some c \<Rightarrow>
          (case Peer c of
             None \<Rightarrow> invalid ''invalid CIDR''
           | Some px \<Rightarrow>
               let family = ip_family (px_addr px); mine = am_family (pm_match v);
                   inbound = (ru_direction rule = ''inbound''); field = (if inbound then ''saddr'' else ''daddr'')
               in if mine \<noteq> '''' \<and> mine \<noteq> family then Inr None
                  else Inr (Some ((if mine = '''' then [nmatch (NPayload ''ether'' ''type'') (NStr family)] else []) @
                         [nmatch (if original \<or> inbound \<and> pm_path v = ''dnat'' then ct field family ''original''
                                  else NPayload family field) (nprefix px)]))))"

definition variant_rule ::
  "policy_rule \<Rightarrow> string \<Rightarrow> bool \<Rightarrow> nft_document \<Rightarrow> policy_allocation_match \<Rightarrow> policy_error + nft_document" where
  "variant_rule rule proto original doc v =
     rbind (peer_exprs rule original v) (\<lambda>peer.
       case peer of
         None \<Rightarrow> Inr doc
       | Some peer_es \<Rightarrow>
           Inr (doc @ [AddRule (ru_direction rule @ (if original then ''_origin'' else ''''))
             (nmatch (if original then ct ''protocol'' '''' ''original'' else NMeta ''l4proto'') (NStr proto) #
              path_exprs v original @ allocation_exprs rule proto original v @ peer_es @
              [NVerdict (if ru_action rule = ''allow'' \<and> \<not> pm_drop v then ''return'' else ''drop'')])]))"

definition budget_step :: "nat \<Rightarrow> allocation_match \<Rightarrow> policy_error + nat" where
  "budget_step budget v =
     (let n = budget + length (am_allocations v)
      in if n > maxCompiledAllocationMatches
         then invalid ''compiled allocation matches exceed the backend limit'' else Inr n)"

definition rule_variants ::
  "policy \<Rightarrow> assigned_map \<Rightarrow> policy_rule \<Rightarrow> string \<Rightarrow> nat \<Rightarrow> policy_error + allocation_match list \<times> nat" where
  "rule_variants p assigned rule proto budget =
     (case ru_group_id rule of
        None \<Rightarrow> Inr ([no_allocation], budget)
      | Some gid \<Rightarrow>
          rbind (resolvedMatches p gid proto assigned) (\<lambda>variants.
          rbind (fold_res budget_step budget variants) (\<lambda>budget'.
          rbind (if ru_direction rule = ''outbound''
                 then fold_res (\<lambda>_ v. ensurePortScope v assigned) () variants else Inr ())
            (\<lambda>_. Inr (variants, budget')))))"

definition proto_rules ::
  "policy \<Rightarrow> assigned_map \<Rightarrow> policy_rule \<Rightarrow> bool \<Rightarrow> nft_document \<times> nat \<Rightarrow> string \<Rightarrow> policy_error + nft_document \<times> nat" where
  "proto_rules p assigned rule original st proto =
     (let (doc, budget) = st
      in if ru_protocol rule \<noteq> ''both'' \<and> ru_protocol rule \<noteq> proto then Inr st
         else rbind (rule_variants p assigned rule proto budget) (\<lambda>(variants, budget').
              if variants = [] then Inr (doc, budget')
              else rbind (policyAllocationMatches rule variants assigned original) (\<lambda>matches.
                   rbind (fold_res (variant_rule rule proto original) doc matches) (\<lambda>doc'. Inr (doc', budget')))))"

definition addPolicyRule ::
  "policy \<Rightarrow> assigned_map \<Rightarrow> policy_rule \<Rightarrow> bool \<Rightarrow> nft_document \<times> nat \<Rightarrow> policy_error + nft_document \<times> nat" where
  "addPolicyRule p assigned rule original st =
     fold_res (proto_rules p assigned rule original) st [''tcp'', ''udp'']"

definition opposite :: "string \<Rightarrow> string" where
  "opposite direction = (if direction = ''inbound'' then ''outbound'' else ''inbound'')"

definition addEstablishedReplies :: "string \<Rightarrow> nft_command" where
  "addEstablishedReplies direction =
     AddRule direction
       [nmatch (NPayload ''ether'' ''type'') (NSet [NStr ''ip'', NStr ''ip6'']),
        nmatch (NMeta ''l4proto'') (NSet [NStr ''tcp'', NStr ''udp'']),
        nmatch (NCt ''state'' None) (NStr ''established''),
        nmatch (NCt ''direction'' None) (NStr ''reply''),
        matchCTStatus ''confirmed'' ''=='',
        NGoto (opposite direction @ ''_origin'')]"

definition icmp_rules :: "string \<Rightarrow> string \<Rightarrow> nft_document" where
  "icmp_rules chain direction =
     (let origin = (if direction = ''reply'' then opposite chain else chain);
          tail = [nmatch (NCt ''state'' None) (NStr ''related''), nmatch (NCt ''direction'' None) (NStr direction),
                  NGoto (origin @ ''_origin'')]
      in [AddRule chain ([nmatch (NPayload ''ether'' ''type'') (NStr ''ip''), nmatch (NMeta ''l4proto'') (NStr ''icmp''),
            nmatch (NPayload ''icmp'' ''type'')
              (NSet [NStr ''destination-unreachable'', NStr ''time-exceeded'', NStr ''parameter-problem''])] @ tail),
          AddRule chain ([nmatch (NPayload ''ether'' ''type'') (NStr ''ip6''), nmatch (NMeta ''l4proto'') (NStr ''ipv6-icmp''),
            nmatch (NPayload ''icmpv6'' ''type'')
              (NSet [NStr ''destination-unreachable'', NStr ''packet-too-big'', NStr ''time-exceeded'',
                     NStr ''parameter-problem''])] @ tail)])"

definition addRelatedICMPRules :: "string \<Rightarrow> nft_document" where
  "addRelatedICMPRules chain = icmp_rules chain ''original'' @ icmp_rules chain ''reply''"

section \<open>The compiler\<close>

definition ip4_fragment :: nft_rule where
  "ip4_fragment =
     [nmatch (NPayload ''ether'' ''type'') (NStr ''ip''),
      nmatch_op (NAnd (NPayload ''ip'' ''frag-off'') (NNum 0x3fff)) (NNum 0) ''!='', NVerdict ''drop'']"

definition ip6_fragment :: nft_rule where
  "ip6_fragment =
     [nmatch (NPayload ''ether'' ''type'') (NStr ''ip6''), nmatch (NExthdr ''frag'') NTrue, NVerdict ''drop'']"

definition fragment_chain :: "string \<Rightarrow> nft_document" where
  "fragment_chain bridge =
     [AddBaseChain ''outbound_fragments'' ''prerouting'' (- 201),
      AddRule ''outbound_fragments'' (nmatch (NMeta ''ibrname'') (NStr bridge) # ip4_fragment),
      AddRule ''outbound_fragments'' (nmatch (NMeta ''ibrname'') (NStr bridge) # ip6_fragment)]"

definition direction_chains :: "string \<Rightarrow> string \<Rightarrow> nft_document" where
  "direction_chains bridge direction =
     (let inbound = (direction = ''inbound'')
      in [AddChain direction,
          AddBaseChain (direction @ ''_hook'') (if inbound then ''postrouting'' else ''prerouting'') (- 199),
          AddRule (direction @ ''_hook'')
            [nmatch (NMeta (if inbound then ''obrname'' else ''ibrname'')) (NStr bridge), NJump direction]])"

definition control_plane :: "string \<Rightarrow> nft_document" where
  "control_plane direction =
     [AddRule direction [nmatch (NPayload ''ether'' ''type'') (NStr ''arp''), NVerdict ''return''],
      AddRule direction ip4_fragment,
      AddRule direction ip6_fragment,
      AddRule direction
        [nmatch (NPayload ''ether'' ''type'') (NStr ''ip6''), nmatch (NMeta ''l4proto'') (NStr ''ipv6-icmp''),
         nmatch (NPayload ''ip6'' ''hoplimit'') (NNum 255),
         nmatch (NPayload ''icmpv6'' ''type'') (NSet [NStr ''nd-neighbor-solicit'', NStr ''nd-neighbor-advert'']),
         NVerdict ''return'']]"

definition fallback_rules :: "string \<Rightarrow> string \<Rightarrow> nft_document" where
  "fallback_rules fallback chain =
     (if fallback = ''allow''
      then [AddRule chain [nmatch (NPayload ''ether'' ''type'') (NSet [NStr ''ip'', NStr ''ip6'']), NVerdict ''return'']] else []) @
     [AddRule chain [NVerdict ''drop'']]"

definition rule_step ::
  "policy \<Rightarrow> assigned_map \<Rightarrow> string \<Rightarrow> nft_document \<times> nat \<Rightarrow> policy_rule \<Rightarrow> policy_error + nft_document \<times> nat" where
  "rule_step p assigned direction st rule =
     (if ru_direction rule \<noteq> direction then Inr st
      else rbind (addPolicyRule p assigned rule False st) (addPolicyRule p assigned rule True))"

definition compile_direction ::
  "string \<Rightarrow> policy \<Rightarrow> assigned_map \<Rightarrow> bool \<Rightarrow> nft_document \<times> nat \<Rightarrow> string \<Rightarrow> policy_error + nft_document \<times> nat" where
  "compile_direction bridge p assigned gate st direction =
     (let (doc, budget) = st; doc = doc @ direction_chains bridge direction; fw = po_firewall p
      in if gate then Inr (doc @ [AddRule direction [NVerdict ''drop'']], budget)
         else if \<not> fw_enabled fw then Inr (doc @ [AddRule direction [NVerdict ''return'']], budget)
         else rbind (fold_res (rule_step p assigned direction) (doc @ control_plane direction, budget) (OrderedRules p))
           (\<lambda>(doc, budget).
              let fallback = (if direction = ''inbound'' then fw_default_inbound fw else fw_default_outbound fw)
              in Inr (doc @ [addEstablishedReplies direction] @ addRelatedICMPRules direction @
                      fallback_rules fallback direction @ fallback_rules fallback (direction @ ''_origin''), budget)))"

definition compileRuleset ::
  "(string \<Rightarrow> bool) \<Rightarrow> string \<Rightarrow> policy \<Rightarrow> assigned_map \<Rightarrow> bool \<Rightarrow> policy_error + nft_document" where
  "compileRuleset uuid_ok sid p assigned gate =
     rbind (Names uuid_ok sid) (\<lambda>(_, bridge, table).
     let doc = [AddTable table (ownerPrefix @ sid)] @
           (if \<not> gate \<and> fw_enabled (po_firewall p)
            then fragment_chain bridge @ [AddChain ''outbound_origin'', AddChain ''inbound_origin''] else [])
     in rbind (fold_res (compile_direction bridge p assigned gate) (doc, 0) [''outbound'', ''inbound''])
          (\<lambda>(doc, _). Inr doc))"

text \<open>\<^verbatim>\<open>ValidateEnforcement\<close>: the token bucket only takes whole bytes per second.\<close>

definition ValidateEnforcement ::
  "(string \<Rightarrow> bool) \<Rightarrow> (policy \<Rightarrow> policy_error + string) \<Rightarrow> policy \<Rightarrow> assigned_map \<Rightarrow> bandwidth \<Rightarrow> policy_error + unit" where
  "ValidateEnforcement uuid_ok calc p assigned ceiling =
     rbind (Validate calc assigned ceiling p) (\<lambda>_.
     let eff = Effective p ceiling
     in if \<not> list_all (\<lambda>rate. rate = 0 \<or> rate mod 8 = 0) [bw_upload eff, bw_download eff]
        then invalid ''bandwidth must be divisible by 8 bits per second''
        else if \<not> fw_enabled (po_firewall p) then Inr ()
        else rbind (compileRuleset uuid_ok ''00000000-0000-4000-8000-000000000000'' p assigned False) (\<lambda>_. Inr ()))"

section \<open>What a document does to a packet\<close>

type_synonym nft_packet = "nft_expr \<Rightarrow> nft_expr option"

fun field_value :: "nft_packet \<Rightarrow> nft_expr \<Rightarrow> nft_expr option" where
  "field_value pk (NConcat [a, b]) =
     (case (pk a, pk b) of (Some x, Some y) \<Rightarrow> Some (NConcat [x, y]) | _ \<Rightarrow> None)"
| "field_value pk e = pk e"

fun value_in :: "nft_expr \<Rightarrow> nft_expr \<Rightarrow> bool" where
  "value_in v (NSet vs) = (v \<in> set vs)"
| "value_in v (NPrefix a n) =
     (case v of
        NStr t \<Rightarrow> (case (ParseAddr a, ParseAddr t) of
                     (Some x, Some y) \<Rightarrow> prefix_contains \<lparr>px_addr = x, px_bits = n\<rparr> y
                   | _ \<Rightarrow> False)
      | _ \<Rightarrow> False)"
| "value_in v r = (v = r)"

fun stmt_holds :: "nft_packet \<Rightarrow> nft_stmt \<Rightarrow> bool" where
  "stmt_holds pk (NMatch op l r) =
     (case field_value pk l of None \<Rightarrow> False | Some v \<Rightarrow> if op = ''!='' then \<not> value_in v r else value_in v r)"
| "stmt_holds pk _ = True"

definition applies :: "nft_packet \<Rightarrow> nft_rule \<Rightarrow> bool" where
  "applies pk r = list_all (stmt_holds pk) r"

definition chain_rules :: "nft_document \<Rightarrow> string \<Rightarrow> nft_rule list" where
  "chain_rules doc chain = concat (map (\<lambda>c. case c of AddRule ch r \<Rightarrow> if ch = chain then [r] else [] | _ \<Rightarrow> []) doc)"

datatype nft_outcome = Dropped | Returned | Too_Deep

fun run :: "nat \<Rightarrow> nft_document \<Rightarrow> nft_packet \<Rightarrow> nft_rule list \<Rightarrow> nft_outcome" where
  "run d doc pk [] = Returned"
| "run d doc pk (r # rs) =
     (if \<not> applies pk r then run d doc pk rs
      else case last r of
             NVerdict v \<Rightarrow> if v = ''drop'' then Dropped else Returned
           | NGoto t \<Rightarrow> (case d of 0 \<Rightarrow> Too_Deep | Suc d' \<Rightarrow> run d' doc pk (chain_rules doc t))
           | NJump t \<Rightarrow>
               (case d of
                  0 \<Rightarrow> Too_Deep
                | Suc d' \<Rightarrow>
                    (case run d' doc pk (chain_rules doc t) of
                       Returned \<Rightarrow> run d doc pk rs
                     | out \<Rightarrow> out))
           | NMatch _ _ _ \<Rightarrow> run d doc pk rs)"

text \<open>A hook's base chain has the policy accept: a packet that comes back from it passes.\<close>

definition hook_passes :: "nft_document \<Rightarrow> nft_packet \<Rightarrow> string \<Rightarrow> bool" where
  "hook_passes doc pk hook \<longleftrightarrow> run 2 doc pk (chain_rules doc hook) = Returned"

section \<open>The chains of a compiled document\<close>

lemma chain_rules_simps [simp]:
  "chain_rules [] c = []"
  "chain_rules (AddTable n t # doc) c = chain_rules doc c"
  "chain_rules (AddChain n # doc) c = chain_rules doc c"
  "chain_rules (AddBaseChain n h i # doc) c = chain_rules doc c"
  "chain_rules (AddRule n r # doc) c = (if n = c then r # chain_rules doc c else chain_rules doc c)"
  "chain_rules (xs @ ys) c = chain_rules xs c @ chain_rules ys c"
  by (simp_all add: chain_rules_def)

lemma chain_rules_map_AddRule [simp]: "chain_rules (map (AddRule n) rs) c = (if n = c then rs else [])"
  by (induction rs) auto

lemma fold_res_appends:
  assumes "fold_res f s xs = Inr t" and "\<And>s x s'. x \<in> set xs \<Longrightarrow> f s x = Inr s' \<Longrightarrow> s' = s @ g x"
  shows "t = s @ concat (map g xs)"
  using assms by (induction xs arbitrary: s) (fastforce split: sum.splits)+

lemma fold_res_two: "fold_res f s [a, b] = rbind (f s a) (\<lambda>t. f t b)"
  by (cases "f s a") (auto split: sum.splits)

text \<open>The rules that one policy rule emits into a chain, as a function of the policy alone.\<close>

definition emit_variant :: "policy_rule \<Rightarrow> string \<Rightarrow> bool \<Rightarrow> policy_allocation_match \<Rightarrow> nft_rule list" where
  "emit_variant rule proto original v =
     (case peer_exprs rule original v of
        Inr (Some peer_es) \<Rightarrow>
          [nmatch (if original then ct ''protocol'' '''' ''original'' else NMeta ''l4proto'') (NStr proto) #
           path_exprs v original @ allocation_exprs rule proto original v @ peer_es @
           [NVerdict (if ru_action rule = ''allow'' \<and> \<not> pm_drop v then ''return'' else ''drop'')]]
      | _ \<Rightarrow> [])"

definition variants_of :: "policy \<Rightarrow> assigned_map \<Rightarrow> policy_rule \<Rightarrow> string \<Rightarrow> allocation_match list" where
  "variants_of p assigned rule proto =
     (case ru_group_id rule of
        None \<Rightarrow> [no_allocation]
      | Some gid \<Rightarrow> (case resolvedMatches p gid proto assigned of Inl _ \<Rightarrow> [] | Inr vs \<Rightarrow> vs))"

definition emit_proto :: "policy \<Rightarrow> assigned_map \<Rightarrow> policy_rule \<Rightarrow> bool \<Rightarrow> string \<Rightarrow> nft_rule list" where
  "emit_proto p assigned rule original proto =
     (if ru_protocol rule \<noteq> ''both'' \<and> ru_protocol rule \<noteq> proto then []
      else case policyAllocationMatches rule (variants_of p assigned rule proto) assigned original of
             Inl _ \<Rightarrow> []
           | Inr ms \<Rightarrow> concat (map (emit_variant rule proto original) ms))"

definition emit_rule :: "policy \<Rightarrow> assigned_map \<Rightarrow> bool \<Rightarrow> policy_rule \<Rightarrow> nft_rule list" where
  "emit_rule p assigned original rule = emit_proto p assigned rule original ''tcp'' @ emit_proto p assigned rule original ''udp''"

definition rule_chain :: "policy_rule \<Rightarrow> bool \<Rightarrow> string" where
  "rule_chain rule original = ru_direction rule @ (if original then ''_origin'' else '''')"

lemma variant_rule_Inr:
  assumes "variant_rule rule proto original doc v = Inr doc'"
  shows "doc' = doc @ map (AddRule (rule_chain rule original)) (emit_variant rule proto original v)"
  using assms by (auto simp: variant_rule_def emit_variant_def rule_chain_def rbind_Inr_iff split: option.splits)

lemma rule_variants_Inr:
  assumes "rule_variants p assigned rule proto budget = Inr (vs, budget')"
  shows "vs = variants_of p assigned rule proto"
  using assms by (auto simp: rule_variants_def variants_of_def rbind_Inr_iff split: option.splits)

lemma policyAllocationMatches_Nil [simp]: "policyAllocationMatches rule [] assigned original = Inr []"
  by (simp add: policyAllocationMatches_def)

lemma proto_rules_Inr:
  assumes "proto_rules p assigned rule original (doc, b) proto = Inr (doc', b')"
  shows "doc' = doc @ map (AddRule (rule_chain rule original)) (emit_proto p assigned rule original proto)"
proof (cases "ru_protocol rule \<noteq> ''both'' \<and> ru_protocol rule \<noteq> proto")
  case True
  with assms show ?thesis by (simp add: proto_rules_def emit_proto_def)
next
  case False
  with assms obtain vs where vs: "rule_variants p assigned rule proto b = Inr (vs, b')"
    and d: "vs = [] \<and> doc' = doc \<or> (\<exists>ms. policyAllocationMatches rule vs assigned original = Inr ms \<and>
      fold_res (variant_rule rule proto original) doc ms = Inr doc')"
    by (auto simp: proto_rules_def rbind_Inr_iff split: if_splits)
  have vs': "vs = variants_of p assigned rule proto" using vs by (rule rule_variants_Inr)
  from d show ?thesis
  proof (elim disjE conjE exE)
    fix ms assume ms: "policyAllocationMatches rule vs assigned original = Inr ms"
      and f: "fold_res (variant_rule rule proto original) doc ms = Inr doc'"
    from fold_res_appends [OF f, where g = "\<lambda>v. map (AddRule (rule_chain rule original)) (emit_variant rule proto original v)"]
    have "doc' = doc @ concat (map (\<lambda>v. map (AddRule (rule_chain rule original)) (emit_variant rule proto original v)) ms)"
      using variant_rule_Inr by blast
    with False ms vs' show ?thesis by (auto simp: emit_proto_def map_concat o_def)
  next
    assume "vs = []" "doc' = doc"
    with False vs' show ?thesis by (auto simp: emit_proto_def)
  qed
qed

lemma addPolicyRule_Inr:
  assumes "addPolicyRule p assigned rule original (doc, b) = Inr (doc', b')"
  shows "doc' = doc @ map (AddRule (rule_chain rule original)) (emit_rule p assigned original rule)"
proof -
  from assms obtain d1 b1 where "proto_rules p assigned rule original (doc, b) ''tcp'' = Inr (d1, b1)"
    "proto_rules p assigned rule original (d1, b1) ''udp'' = Inr (doc', b')"
    by (auto simp: addPolicyRule_def split: sum.splits)
  from this [THEN proto_rules_Inr] show ?thesis by (simp add: emit_rule_def)
qed

definition rule_block :: "policy \<Rightarrow> assigned_map \<Rightarrow> string \<Rightarrow> policy_rule \<Rightarrow> nft_document" where
  "rule_block p assigned dir rule =
     (if ru_direction rule = dir
      then map (AddRule dir) (emit_rule p assigned False rule) @ map (AddRule (dir @ ''_origin'')) (emit_rule p assigned True rule)
      else [])"

lemma rule_step_Inr:
  assumes "rule_step p assigned dir (doc, b) rule = Inr (doc', b')"
  shows "doc' = doc @ rule_block p assigned dir rule"
  using assms
  by (auto simp: rule_step_def rule_block_def rbind_Inr_iff rule_chain_def dest!: addPolicyRule_Inr split: if_splits)

lemma rule_steps_Inr:
  "fold_res (rule_step p assigned dir) (doc, b) rules = Inr (doc', b') \<Longrightarrow>
   doc' = doc @ concat (map (rule_block p assigned dir) rules)"
proof (induction rules arbitrary: doc b)
  case (Cons rule rules)
  then obtain d1 b1 where s: "rule_step p assigned dir (doc, b) rule = Inr (d1, b1)"
    "fold_res (rule_step p assigned dir) (d1, b1) rules = Inr (doc', b')"
    by (auto split: sum.splits)
  from Cons.IH [OF s(2)] rule_step_Inr [OF s(1)] show ?case by simp
qed simp

definition emit_rules :: "policy \<Rightarrow> assigned_map \<Rightarrow> string \<Rightarrow> bool \<Rightarrow> nft_rule list" where
  "emit_rules p assigned dir original =
     concat (map (emit_rule p assigned original) (filter (\<lambda>r. ru_direction r = dir) (OrderedRules p)))"

lemma chain_rules_blocks:
  "chain_rules (concat (map (rule_block p assigned dir) rules)) c =
   (if c = dir then concat (map (emit_rule p assigned False) (filter (\<lambda>r. ru_direction r = dir) rules))
    else if c = dir @ ''_origin'' then concat (map (emit_rule p assigned True) (filter (\<lambda>r. ru_direction r = dir) rules))
    else [])"
  by (induction rules) (auto simp: rule_block_def)

text \<open>The part of the document that one direction contributes.\<close>

definition fallback_of :: "policy \<Rightarrow> string \<Rightarrow> string" where
  "fallback_of p dir = (if dir = ''inbound'' then fw_default_inbound (po_firewall p) else fw_default_outbound (po_firewall p))"

definition direction_doc :: "string \<Rightarrow> policy \<Rightarrow> assigned_map \<Rightarrow> string \<Rightarrow> nft_document" where
  "direction_doc bridge p assigned dir =
     direction_chains bridge dir @ control_plane dir @ concat (map (rule_block p assigned dir) (OrderedRules p)) @
     [addEstablishedReplies dir] @ addRelatedICMPRules dir @
     fallback_rules (fallback_of p dir) dir @ fallback_rules (fallback_of p dir) (dir @ ''_origin'')"

lemma compile_direction_Inr:
  assumes "compile_direction bridge p assigned False (doc, b) dir = Inr (doc', b')" and "fw_enabled (po_firewall p)"
  shows "doc' = doc @ direction_doc bridge p assigned dir"
proof -
  from assms obtain d1 b1 where
    s: "fold_res (rule_step p assigned dir) (doc @ direction_chains bridge dir @ control_plane dir, b) (OrderedRules p) = Inr (d1, b1)"
    and d: "doc' = d1 @ [addEstablishedReplies dir] @ addRelatedICMPRules dir @
      fallback_rules (fallback_of p dir) dir @ fallback_rules (fallback_of p dir) (dir @ ''_origin'')"
    by (auto simp: compile_direction_def fallback_of_def rbind_Inr_iff Let_def)
  from rule_steps_Inr [OF s] d show ?thesis by (simp add: direction_doc_def)
qed

lemma compileRuleset_enabled:
  assumes "compileRuleset uuid_ok sid p assigned False = Inr doc" and "fw_enabled (po_firewall p)"
  obtains net bridge table where "Names uuid_ok sid = Inr (net, bridge, table)"
    "doc = [AddTable table (ownerPrefix @ sid)] @ fragment_chain bridge @ [AddChain ''outbound_origin'', AddChain ''inbound_origin''] @
      direction_doc bridge p assigned ''outbound'' @ direction_doc bridge p assigned ''inbound''"
proof -
  from assms obtain net bridge table d1 b1 b2 where n: "Names uuid_ok sid = Inr (net, bridge, table)"
    and c: "compile_direction bridge p assigned False ([AddTable table (ownerPrefix @ sid)] @ fragment_chain bridge @
        [AddChain ''outbound_origin'', AddChain ''inbound_origin''], 0) ''outbound'' = Inr (d1, b1)"
      "compile_direction bridge p assigned False (d1, b1) ''inbound'' = Inr (doc, b2)"
    by (auto simp: compileRuleset_def rbind_Inr_iff Let_def fold_res_two simp del: fold_res.simps)
  from compile_direction_Inr [OF c(1) assms(2)] compile_direction_Inr [OF c(2) assms(2)] that [OF n] show thesis by simp
qed

section \<open>Walking the chains\<close>

lemma run_skip: "(\<forall>r \<in> set rs. \<not> applies pk r) \<Longrightarrow> run d doc pk (rs @ ss) = run d doc pk ss"
  by (induction rs) auto

definition verdict_of :: "string \<Rightarrow> nft_outcome" where
  "verdict_of v = (if v = ''drop'' then Dropped else Returned)"

lemma run_hit:
  assumes "applies pk r" "last r = NVerdict v"
  shows "run d doc pk (r # rs) = verdict_of v"
  using assms by (simp add: verdict_of_def)

lemma run_block:
  "(\<forall>r \<in> set rs. applies pk r \<longrightarrow> last r = NVerdict v) \<Longrightarrow>
   run d doc pk (rs @ ss) = (if \<exists>r \<in> set rs. applies pk r then verdict_of v else run d doc pk ss)"
  by (induction rs) (auto simp: verdict_of_def)

text \<open>First match over the policy rules, each of which is a block of nft rules.\<close>

lemma run_blocks:
  assumes "\<And>r. r \<in> set rules \<Longrightarrow> (\<exists>x \<in> set (emit r). applies pk x) \<longleftrightarrow> M r"
    and "\<And>r x. r \<in> set rules \<Longrightarrow> x \<in> set (emit r) \<Longrightarrow> applies pk x \<Longrightarrow> last x = NVerdict (V r)"
  shows "run d doc pk (concat (map emit rules) @ ss) =
    (case find M rules of None \<Rightarrow> run d doc pk ss | Some r \<Rightarrow> verdict_of (V r))"
  using assms
proof (induction rules)
  case (Cons r rules)
  have "run d doc pk (emit r @ concat (map emit rules) @ ss) =
      (if M r then verdict_of (V r) else run d doc pk (concat (map emit rules) @ ss))"
    using run_block [of "emit r" pk "V r" d doc] Cons.prems by auto
  with Cons show ?case by simp
qed simp

lemma applies_simps [simp]:
  "applies pk []"
  "applies pk (s # r) \<longleftrightarrow> stmt_holds pk s \<and> applies pk r"
  "applies pk (r @ r') \<longleftrightarrow> applies pk r \<and> applies pk r'"
  by (simp_all add: applies_def)

lemma holds_eq:
  assumes "\<And>a b. l \<noteq> NConcat [a, b]"
  shows "stmt_holds pk (nmatch l r) \<longleftrightarrow> (\<exists>v. pk l = Some v \<and> value_in v r)"
proof -
  have "field_value pk l = pk l" using assms by (cases "(pk, l)" rule: field_value.cases) auto
  then show ?thesis by (simp add: nmatch_def split: option.split)
qed

lemma value_in_intSet: "value_in v (intSet ps) \<longleftrightarrow> (\<exists>n \<in> set ps. v = NNum n)"
  by (cases ps; cases "tl ps") (auto simp: intSet_def)

lemma holds_simps [simp]:
  "stmt_holds pk (nmatch (NPayload a b) r) \<longleftrightarrow> (\<exists>v. pk (NPayload a b) = Some v \<and> value_in v r)"
  "stmt_holds pk (nmatch (NMeta a) r) \<longleftrightarrow> (\<exists>v. pk (NMeta a) = Some v \<and> value_in v r)"
  "stmt_holds pk (nmatch (NCt a b') r) \<longleftrightarrow> (\<exists>v. pk (NCt a b') = Some v \<and> value_in v r)"
  "stmt_holds pk (nmatch (ct a f d) r) \<longleftrightarrow> (\<exists>v. pk (ct a f d) = Some v \<and> value_in v r)"
  "stmt_holds pk (nmatch (NExthdr a) r) \<longleftrightarrow> (\<exists>v. pk (NExthdr a) = Some v \<and> value_in v r)"
  by (rule holds_eq, simp add: ct_def)+

text \<open>The matches that one emitted variant consists of.\<close>

definition proto_sel :: "bool \<Rightarrow> nft_expr" where
  "proto_sel original = (if original then ct ''protocol'' '''' ''original'' else NMeta ''l4proto'')"

lemma emit_variant_applies:
  "(\<exists>x \<in> set (emit_variant rule proto original v). applies pk x) \<longleftrightarrow>
   pk (proto_sel original) = Some (NStr proto) \<and> applies pk (path_exprs v original) \<and>
   applies pk (allocation_exprs rule proto original v) \<and>
   (\<exists>es. peer_exprs rule original v = Inr (Some es) \<and> applies pk es)"
proof (cases "peer_exprs rule original v")
  case (Inr x)
  then show ?thesis by (cases x; cases original) (auto simp: emit_variant_def proto_sel_def)
qed (simp add: emit_variant_def)

lemma emit_variant_last:
  "x \<in> set (emit_variant rule proto original v) \<Longrightarrow>
   last x = NVerdict (if ru_action rule = ''allow'' \<and> \<not> pm_drop v then ''return'' else ''drop'')"
  by (auto simp: emit_variant_def split: sum.splits option.splits)

abbreviation ether :: "nft_packet \<Rightarrow> string \<Rightarrow> bool" where
  "ether pk family \<equiv> pk (NPayload ''ether'' ''type'') = Some (NStr family)"

text \<open>The peer of a rule: \<open>sel\<close> selects the address of the packet in the family.\<close>

definition peer_holds :: "nft_packet \<Rightarrow> (string \<Rightarrow> nft_expr) \<Rightarrow> string option \<Rightarrow> bool" where
  "peer_holds pk sel cidr =
     (case cidr of
        None \<Rightarrow> True
      | Some c \<Rightarrow>
          (case Peer c of
             None \<Rightarrow> False
           | Some px \<Rightarrow>
               ether pk (ip_family (px_addr px)) \<and>
               (case pk (sel (ip_family (px_addr px))) of None \<Rightarrow> False | Some v \<Rightarrow> value_in v (nprefix px))))"

definition peer_sel :: "policy_rule \<Rightarrow> bool \<Rightarrow> string \<Rightarrow> string \<Rightarrow> nft_expr" where
  "peer_sel rule original path family =
     (let inbound = (ru_direction rule = ''inbound''); field = (if inbound then ''saddr'' else ''daddr'')
      in if original \<or> inbound \<and> path = ''dnat'' then ct field family ''original'' else NPayload family field)"

lemma ip_family_nonempty [simp]: "ip_family ip \<noteq> ''''" "ip_family ip = ''ip'' \<or> ip_family ip = ''ip6''"
  by (auto simp: ip_family_def)

lemma peer_exprs_applies:
  assumes "am_family (pm_match v) \<noteq> '''' \<Longrightarrow> ether pk (am_family (pm_match v))"
  shows "(\<exists>es. peer_exprs rule original v = Inr (Some es) \<and> applies pk es) \<longleftrightarrow>
    peer_holds pk (peer_sel rule original (pm_path v)) (ru_cidr rule)"
proof (cases "ru_cidr rule")
  case None
  then show ?thesis by (simp add: peer_exprs_def peer_holds_def)
next
  case (Some c)
  then show ?thesis
    using assms
    by (cases "Peer c") (auto simp: peer_exprs_def peer_holds_def peer_sel_def Let_def split: option.splits if_splits)
qed

section \<open>Outbound rules\<close>

text \<open>
  A rule that is not inbound has one variant per family of its group, or a single one without
  allocation; the port is read from the packet, or from the tracked original flow.
\<close>

definition port_sel :: "policy_rule \<Rightarrow> bool \<Rightarrow> string \<Rightarrow> nft_expr" where
  "port_sel rule original proto =
     (let inbound = (ru_direction rule = ''inbound'')
      in if original then ct (if inbound then ''proto-dst'' else ''proto-src'') '''' ''original''
         else NPayload proto (if inbound then ''dport'' else ''sport''))"

definition variant_holds :: "nft_packet \<Rightarrow> nft_expr \<Rightarrow> allocation_match \<Rightarrow> bool" where
  "variant_holds pk sel v \<longleftrightarrow>
     am_family v = '''' \<or> ether pk (am_family v) \<and> (\<exists>n \<in> set (am_ports v). pk sel = Some (NNum n))"

lemma holds_port_sel [simp]:
  "stmt_holds pk (nmatch (port_sel rule original proto) r) \<longleftrightarrow> (\<exists>v. pk (port_sel rule original proto) = Some v \<and> value_in v r)"
  by (simp add: port_sel_def Let_def)

lemma plain_allocation_exprs:
  assumes "ru_direction rule \<noteq> ''inbound'' \<or> pm_path v \<noteq> ''dnat''"
  shows "applies pk (allocation_exprs rule proto original v) \<longleftrightarrow> variant_holds pk (port_sel rule original proto) (pm_match v)"
proof -
  have "allocation_exprs rule proto original v =
    (if am_family (pm_match v) = '''' then []
     else [nmatch (NPayload ''ether'' ''type'') (NStr (am_family (pm_match v))),
           nmatch (port_sel rule original proto) (intSet (am_ports (pm_match v)))])"
    using assms by (auto simp: allocation_exprs_def port_sel_def Let_def)
  then show ?thesis by (auto simp: variant_holds_def value_in_intSet)
qed

lemma outbound_matches:
  "ru_direction rule \<noteq> ''inbound'' \<Longrightarrow>
   policyAllocationMatches rule vs assigned original = Inr (map (\<lambda>v. \<lparr>pm_match = v, pm_path = '''', pm_drop = False\<rparr>) vs)"
proof -
  assume "ru_direction rule \<noteq> ''inbound''"
  then have "fold_res (variant_matches rule assigned original) acc vs =
    Inr (acc @ map (\<lambda>v. \<lparr>pm_match = v, pm_path = '''', pm_drop = False\<rparr>) vs)" for acc
    by (induction vs arbitrary: acc) (auto simp: variant_matches_def)
  then show ?thesis by (simp add: policyAllocationMatches_def)
qed

lemma plain_variant_applies:
  assumes "ru_direction rule \<noteq> ''inbound'' \<or> path \<noteq> ''dnat''"
  shows "(\<exists>x \<in> set (emit_variant rule proto original \<lparr>pm_match = v, pm_path = path, pm_drop = dr\<rparr>). applies pk x) \<longleftrightarrow>
    pk (proto_sel original) = Some (NStr proto) \<and> applies pk (path_exprs \<lparr>pm_match = v, pm_path = path, pm_drop = dr\<rparr> original) \<and>
    variant_holds pk (port_sel rule original proto) v \<and> peer_holds pk (peer_sel rule original path) (ru_cidr rule)"
  using plain_allocation_exprs [of rule "\<lparr>pm_match = v, pm_path = path, pm_drop = dr\<rparr>" pk proto original] assms
    peer_exprs_applies [of "\<lparr>pm_match = v, pm_path = path, pm_drop = dr\<rparr>" pk rule original]
  by (auto simp: emit_variant_applies variant_holds_def)

lemma outbound_emit_proto:
  assumes "ru_direction rule \<noteq> ''inbound''"
  shows "(\<exists>x \<in> set (emit_proto p assigned rule original proto). applies pk x) \<longleftrightarrow>
    (ru_protocol rule = ''both'' \<or> ru_protocol rule = proto) \<and> pk (proto_sel original) = Some (NStr proto) \<and>
    (\<exists>v \<in> set (variants_of p assigned rule proto). variant_holds pk (port_sel rule original proto) v) \<and>
    peer_holds pk (peer_sel rule original '''') (ru_cidr rule)"
proof -
  have "(\<exists>x \<in> set (emit_variant rule proto original \<lparr>pm_match = v, pm_path = '''', pm_drop = False\<rparr>). applies pk x) \<longleftrightarrow>
    pk (proto_sel original) = Some (NStr proto) \<and> variant_holds pk (port_sel rule original proto) v \<and>
    peer_holds pk (peer_sel rule original '''') (ru_cidr rule)" for v
    using plain_variant_applies [of rule "''''" proto original v False pk] by (simp add: path_exprs_def)
  then show ?thesis using outbound_matches [OF assms] by (auto simp: emit_proto_def)
qed

lemma outbound_emit_last:
  assumes "ru_direction rule \<noteq> ''inbound''" "x \<in> set (emit_rule p assigned original rule)"
  shows "last x = NVerdict (if ru_action rule = ''allow'' then ''return'' else ''drop'')"
  using assms(2)
  by (auto simp: emit_rule_def emit_proto_def outbound_matches [OF assms(1)] dest!: emit_variant_last split: if_splits)

text \<open>The variants of a rule with a group cover exactly the owned allocations of the resolved group.\<close>

definition group_allocations :: "policy \<Rightarrow> assigned_map \<Rightarrow> string \<Rightarrow> string \<Rightarrow> allocation list" where
  "group_allocations p assigned gid proto =
     (case find (\<lambda>g. rg_id g = gid \<and> (rg_protocol g = ''both'' \<or> rg_protocol g = proto)) (arr (po_resolved_groups p)) of
        None \<Rightarrow> []
      | Some g \<Rightarrow> filter (hasAllocation assigned) (arr (rg_allocations g)))"

definition alloc_tuple :: "allocation \<Rightarrow> string \<times> string \<times> int" where
  "alloc_tuple a = (let ip = the (parseIP (al_ip a)) in (ip_family ip, addr_String ip, al_port a))"

lemma hasAllocation_parseIP: "hasAllocation assigned a \<Longrightarrow> parseIP (al_ip a) \<noteq> None"
  by (auto simp: hasAllocation_def allocationKey_def split: option.splits)

lemma resolved_tuples_fold:
  "fold_res (resolved_tuple assigned) acc as = Inr (acc @ map alloc_tuple (filter (hasAllocation assigned) as))"
proof (induction as arbitrary: acc)
  case (Cons a as)
  then show ?case
    using hasAllocation_parseIP [of assigned a]
    by (auto simp: resolved_tuple_def alloc_tuple_def Let_def split: option.splits)
qed simp

lemma resolvedMatches_eq:
  "resolvedMatches p gid proto assigned =
   (let found = map alloc_tuple (group_allocations p assigned gid proto)
    in Inr (family_match found ''ip'' @ family_match found ''ip6''))"
  by (auto simp: resolvedMatches_def group_allocations_def resolved_tuples_fold family_match_def Let_def split: option.splits)

lemma family_match_holds:
  "(\<exists>v \<in> set (family_match found f). variant_holds pk sel v) \<longleftrightarrow>
   (\<exists>t \<in> set found. fst t = f \<and> (f = '''' \<or> ether pk f \<and> pk sel = Some (NNum (snd (snd t)))))"
  by (force simp: family_match_def Let_def variant_holds_def filter_empty_conv)

lemma group_allocation_family:
  "a \<in> set (group_allocations p assigned gid proto) \<Longrightarrow> fst (alloc_tuple a) = ''ip'' \<or> fst (alloc_tuple a) = ''ip6''"
  by (simp add: alloc_tuple_def Let_def)

text \<open>Which allocation the packet uses, if the rule has a group.\<close>

definition allocation_holds :: "nft_packet \<Rightarrow> nft_expr \<Rightarrow> allocation \<Rightarrow> bool" where
  "allocation_holds pk sel a =
     (case parseIP (al_ip a) of
        None \<Rightarrow> False
      | Some ip \<Rightarrow> ether pk (ip_family ip) \<and> pk sel = Some (NNum (al_port a)))"

lemma group_allocations_parseIP:
  "a \<in> set (group_allocations p assigned gid proto) \<Longrightarrow> parseIP (al_ip a) \<noteq> None"
  by (auto simp: group_allocations_def dest: hasAllocation_parseIP split: option.splits)

lemma variants_of_holds:
  "(\<exists>v \<in> set (variants_of p assigned rule proto). variant_holds pk sel v) \<longleftrightarrow>
   (case ru_group_id rule of
      None \<Rightarrow> True
    | Some gid \<Rightarrow> \<exists>a \<in> set (group_allocations p assigned gid proto). allocation_holds pk sel a)"
proof (cases "ru_group_id rule")
  case None
  then show ?thesis by (simp add: variants_of_def variant_holds_def no_allocation_def)
next
  case (Some gid)
  have "fst (alloc_tuple a) = f \<and> (f = '''' \<or> ether pk f \<and> pk sel = Some (NNum (snd (snd (alloc_tuple a))))) \<longleftrightarrow>
      fst (alloc_tuple a) = f \<and> allocation_holds pk sel a"
    if "a \<in> set (group_allocations p assigned gid proto)" for a f
    using group_allocations_parseIP [OF that] by (auto simp: alloc_tuple_def allocation_holds_def Let_def)
  with Some group_allocation_family [of _ p assigned gid proto] show ?thesis
    by (simp add: variants_of_def resolvedMatches_eq Let_def bex_Un family_match_holds) blast
qed

text \<open>
  When a rule holds for the packet: \<open>orig\<close> selects whether the packet itself is read, or the
  original direction of its tracked flow.
\<close>

definition outbound_match :: "policy \<Rightarrow> assigned_map \<Rightarrow> bool \<Rightarrow> nft_packet \<Rightarrow> string \<Rightarrow> policy_rule \<Rightarrow> bool" where
  "outbound_match p assigned orig pk proto rule \<longleftrightarrow>
     (ru_protocol rule = ''both'' \<or> ru_protocol rule = proto) \<and>
     (case ru_group_id rule of
        None \<Rightarrow> True
      | Some gid \<Rightarrow>
          \<exists>a \<in> set (group_allocations p assigned gid proto).
            allocation_holds pk (if orig then ct ''proto-src'' '''' ''original'' else NPayload proto ''sport'') a) \<and>
     peer_holds pk (\<lambda>family. if orig then ct ''daddr'' family ''original'' else NPayload family ''daddr'') (ru_cidr rule)"

lemma outbound_emit_rule:
  assumes "ru_direction rule = ''outbound''" and "pk (proto_sel original) = Some (NStr proto)" and "proto = ''tcp'' \<or> proto = ''udp''"
  shows "(\<exists>x \<in> set (emit_rule p assigned original rule). applies pk x) \<longleftrightarrow> outbound_match p assigned original pk proto rule"
proof -
  have "port_sel rule original proto = (if original then ct ''proto-src'' '''' ''original'' else NPayload proto ''sport'')"
    "peer_sel rule original '''' = (\<lambda>family. if original then ct ''daddr'' family ''original'' else NPayload family ''daddr'')"
    using assms(1) by (auto simp: port_sel_def peer_sel_def)
  then have e: "(\<exists>x \<in> set (emit_proto p assigned rule original proto). applies pk x) \<longleftrightarrow> outbound_match p assigned original pk proto rule"
    using outbound_emit_proto [of rule p assigned original proto pk] assms(1,2)
    by (simp add: variants_of_holds outbound_match_def)
  have other: "\<not> applies pk x" if "x \<in> set (emit_proto p assigned rule original proto')" "proto' \<noteq> proto" for proto' x
    using outbound_emit_proto [of rule p assigned original proto' pk] assms(1,2) that by auto
  from assms(3) show ?thesis unfolding emit_rule_def using e other by (auto simp: bex_Un)
qed

text \<open>Hence a chain of outbound rules is first match.\<close>

lemma run_outbound_rules:
  assumes "pk (proto_sel original) = Some (NStr proto)" and "proto = ''tcp'' \<or> proto = ''udp''"
  shows "run d doc pk (emit_rules p assigned ''outbound'' original @ ss) =
    (case find (outbound_match p assigned original pk proto) (filter (\<lambda>r. ru_direction r = ''outbound'') (OrderedRules p)) of
       None \<Rightarrow> run d doc pk ss
     | Some r \<Rightarrow> if ru_action r = ''allow'' then Returned else Dropped)"
proof -
  have "run d doc pk (emit_rules p assigned ''outbound'' original @ ss) =
    (case find (outbound_match p assigned original pk proto) (filter (\<lambda>r. ru_direction r = ''outbound'') (OrderedRules p)) of
       None \<Rightarrow> run d doc pk ss
     | Some r \<Rightarrow> verdict_of (if ru_action r = ''allow'' then ''return'' else ''drop''))"
    unfolding emit_rules_def
    by (rule run_blocks) (auto simp: outbound_emit_rule [where pk = pk, OF _ assms(1) assms(2)] dest: outbound_emit_last [rotated])
  then show ?thesis by (simp add: verdict_of_def split: option.split)
qed

end
