(* ===== verification/Net_Filter.thy ===== *)
theory Net_Filter
  imports Net_Ruleset
begin

text \<open>
  What the compiled tables let through. The chains of a document are first split into the
  blocks the compiler appends; the outbound and the inbound hook are then shown to decide
  first match over the active rules of the policy, with the default of the direction at the
  end, for TCP and UDP packets that are not fragments. Replies of tracked flows and ICMP
  errors are decided by the chain of the original direction.
\<close>

section \<open>Blocks of the two directions\<close>

definition control_rules :: "nft_rule list" where
  "control_rules = chain_rules (control_plane ''outbound'') ''outbound''"

definition stateful_rules :: "string \<Rightarrow> nft_rule list" where
  "stateful_rules dir = chain_rules (addEstablishedReplies dir # addRelatedICMPRules dir) dir"

definition default_rules :: "string \<Rightarrow> nft_rule list" where
  "default_rules fallback = chain_rules (fallback_rules fallback ''x'') ''x''"

definition direction :: "string \<Rightarrow> bool" where
  "direction dir \<longleftrightarrow> dir = ''outbound'' \<or> dir = ''inbound''"

lemma direction_doc_chains:
  assumes "direction dir"
  shows "chain_rules (direction_doc bridge p assigned dir) dir =
      control_rules @ emit_rules p assigned dir False @ stateful_rules dir @ default_rules (fallback_of p dir)"
    "chain_rules (direction_doc bridge p assigned dir) (dir @ ''_origin'') =
      emit_rules p assigned dir True @ default_rules (fallback_of p dir)"
    "chain_rules (direction_doc bridge p assigned dir) (dir @ ''_hook'') =
      [[nmatch (NMeta (if dir = ''inbound'' then ''obrname'' else ''ibrname'')) (NStr bridge), NJump dir]]"
    "chain_rules (direction_doc bridge p assigned dir) (opposite dir) = []"
    "chain_rules (direction_doc bridge p assigned dir) (opposite dir @ ''_origin'') = []"
    "chain_rules (direction_doc bridge p assigned dir) (opposite dir @ ''_hook'') = []"
  using assms
  by (auto simp: direction_def direction_doc_def chain_rules_blocks emit_rules_def control_rules_def control_plane_def
      stateful_rules_def default_rules_def fallback_rules_def addRelatedICMPRules_def icmp_rules_def addEstablishedReplies_def
      direction_chains_def opposite_def Let_def)

lemma enabled_chains:
  assumes "compileRuleset uuid_ok sid p assigned False = Inr doc" and "fw_enabled (po_firewall p)" and d: "direction dir"
    and n: "Names uuid_ok sid = Inr (net, bridge, table)"
  shows "chain_rules doc dir = control_rules @ emit_rules p assigned dir False @ stateful_rules dir @ default_rules (fallback_of p dir)"
    "chain_rules doc (dir @ ''_origin'') = emit_rules p assigned dir True @ default_rules (fallback_of p dir)"
    "chain_rules doc (dir @ ''_hook'') =
      [[nmatch (NMeta (if dir = ''inbound'' then ''obrname'' else ''ibrname'')) (NStr bridge), NJump dir]]"
proof -
  from assms(1,2) obtain net' bridge' table' where n': "Names uuid_ok sid = Inr (net', bridge', table')"
    and d': "doc = [AddTable table' (ownerPrefix @ sid)] @ fragment_chain bridge' @
      [AddChain ''outbound_origin'', AddChain ''inbound_origin''] @
      direction_doc bridge' p assigned ''outbound'' @ direction_doc bridge' p assigned ''inbound''"
    by (rule compileRuleset_enabled)
  from n n' d' have doc: "doc = [AddTable table (ownerPrefix @ sid)] @ fragment_chain bridge @
      [AddChain ''outbound_origin'', AddChain ''inbound_origin''] @
      direction_doc bridge p assigned ''outbound'' @ direction_doc bridge p assigned ''inbound''"
    by simp
  have o: "direction ''outbound''" "direction ''inbound''" by (simp_all add: direction_def)
  note c = direction_doc_chains [OF o(1), of bridge p assigned, simplified opposite_def, simplified]
    direction_doc_chains [OF o(2), of bridge p assigned, simplified opposite_def, simplified]
  show "chain_rules doc dir = control_rules @ emit_rules p assigned dir False @ stateful_rules dir @ default_rules (fallback_of p dir)"
    using d unfolding direction_def by (elim disjE; simp add: doc fragment_chain_def c)
  show "chain_rules doc (dir @ ''_origin'') = emit_rules p assigned dir True @ default_rules (fallback_of p dir)"
    using d unfolding direction_def by (elim disjE; simp add: doc fragment_chain_def c)
  show "chain_rules doc (dir @ ''_hook'') =
      [[nmatch (NMeta (if dir = ''inbound'' then ''obrname'' else ''ibrname'')) (NStr bridge), NJump dir]]"
    using d unfolding direction_def by (elim disjE; simp add: doc fragment_chain_def c)
qed

section \<open>Packets\<close>

text \<open>A TCP or UDP packet over IPv4 or IPv6 that is not a fragment.\<close>

definition plain_packet :: "nft_packet \<Rightarrow> string \<Rightarrow> bool" where
  "plain_packet pk proto \<longleftrightarrow>
     (ether pk ''ip'' \<or> ether pk ''ip6'') \<and> (proto = ''tcp'' \<or> proto = ''udp'') \<and> pk (NMeta ''l4proto'') = Some (NStr proto) \<and>
     pk (NAnd (NPayload ''ip'' ''frag-off'') (NNum 0x3fff)) \<in> {None, Some (NNum 0)} \<and> pk (NExthdr ''frag'') \<noteq> Some NTrue"

definition fragment :: "nft_packet \<Rightarrow> bool" where
  "fragment pk \<longleftrightarrow>
     ether pk ''ip'' \<and> (\<exists>n. pk (NAnd (NPayload ''ip'' ''frag-off'') (NNum 0x3fff)) = Some (NNum n) \<and> n \<noteq> 0) \<or>
     ether pk ''ip6'' \<and> pk (NExthdr ''frag'') = Some NTrue"

definition tracked_reply :: "nft_packet \<Rightarrow> bool" where
  "tracked_reply pk \<longleftrightarrow>
     pk (NCt ''state'' None) = Some (NStr ''established'') \<and> pk (NCt ''direction'' None) = Some (NStr ''reply'') \<and>
     pk (NAnd (NCt ''status'' None) (NStr ''confirmed'')) = Some (NStr ''confirmed'')"

lemma holds_status [simp]:
  "stmt_holds pk (matchCTStatus flag ''=='') \<longleftrightarrow> pk (NAnd (NCt ''status'' None) (NStr flag)) = Some (NStr flag)"
  "stmt_holds pk (matchCTStatus flag ''!='') \<longleftrightarrow>
     (\<exists>v. pk (NAnd (NCt ''status'' None) (NStr flag)) = Some v \<and> v \<noteq> NStr flag)"
  by (auto simp: matchCTStatus_def split: option.splits)

lemma holds_frag [simp]:
  "stmt_holds pk (nmatch_op (NAnd a b) r ''!='') \<longleftrightarrow> (\<exists>v. pk (NAnd a b) = Some v \<and> \<not> value_in v r)"
  by (auto simp: nmatch_op_def split: option.splits)

lemmas rule_defs = control_rules_def control_plane_def ip4_fragment_def ip6_fragment_def stateful_rules_def
  addEstablishedReplies_def addRelatedICMPRules_def icmp_rules_def default_rules_def fallback_rules_def

lemma run_control_plain: "plain_packet pk proto \<Longrightarrow> run d doc pk (control_rules @ ss) = run d doc pk ss"
  by (rule run_skip) (auto simp: rule_defs plain_packet_def)

lemma run_control_fragment: "fragment pk \<Longrightarrow> run d doc pk (control_rules @ ss) = Dropped"
  by (auto simp: rule_defs fragment_def)

lemma run_default:
  "ether pk ''ip'' \<or> ether pk ''ip6'' \<Longrightarrow> run d doc pk (default_rules f) = (if f = ''allow'' then Returned else Dropped)"
  by (auto simp: rule_defs)

lemma run_stateful:
  assumes "plain_packet pk proto"
  shows "run d doc pk (stateful_rules dir @ ss) =
    (if tracked_reply pk then (case d of 0 \<Rightarrow> Too_Deep | Suc d' \<Rightarrow> run d' doc pk (chain_rules doc (opposite dir @ ''_origin'')))
     else run d doc pk ss)"
proof -
  obtain r rs where s: "stateful_rules dir = r # rs" "last r = NGoto (opposite dir @ ''_origin'')"
    "applies pk r \<longleftrightarrow> tracked_reply pk" "\<forall>x \<in> set rs. \<not> applies pk x"
    using assms by (auto simp: rule_defs plain_packet_def tracked_reply_def Let_def)
  then show ?thesis using run_skip [of rs pk d doc ss] by simp
qed

lemma run_hook:
  assumes "pk (NMeta m) = Some (NStr bridge)"
  shows "run (Suc d) doc pk [[nmatch (NMeta m) (NStr bridge), NJump dir]] = run d doc pk (chain_rules doc dir)"
  using assms by (simp split: nft_outcome.split)

lemma other_bridge_passes:
  assumes "pk (NMeta m) \<noteq> Some (NStr bridge)"
  shows "run d doc pk [[nmatch (NMeta m) (NStr bridge), NJump dir]] = Returned"
  using assms by simp

section \<open>The outbound hook\<close>

text \<open>
  The meaning of a rule in terms of the policy document: its protocol, an allocation that its
  group selects, and its peer. \<open>port\<close> and \<open>peer\<close> say where the packet carries the server's
  port and the address of the other side.
\<close>

definition policy_match ::
  "policy \<Rightarrow> nft_packet \<Rightarrow> string \<Rightarrow> nft_expr \<Rightarrow> (string \<Rightarrow> nft_expr) \<Rightarrow> policy_rule \<Rightarrow> bool" where
  "policy_match p pk proto port peer rule \<longleftrightarrow>
     (ru_protocol rule = ''both'' \<or> ru_protocol rule = proto) \<and>
     (case ru_group_id rule of
        None \<Rightarrow> True
      | Some gid \<Rightarrow>
          \<exists>g \<in> set (arr (po_groups p)). \<exists>a \<in> set (arr (po_allocations p)).
            gr_id g = gid \<and> (gr_protocol g = ''both'' \<or> gr_protocol g = proto) \<and> selects g a \<and> allocation_holds pk port a) \<and>
     peer_holds pk peer (ru_cidr rule)"

lemma find_unique:
  assumes "distinct (map f xs)" "\<And>x. P x \<Longrightarrow> f x = k"
  shows "find P xs = Some x \<longleftrightarrow> x \<in> set xs \<and> P x"
  using assms(1)
proof (induction xs)
  case (Cons y ys)
  show ?case
  proof (cases "P y")
    case True
    then have "\<not> (x \<in> set ys \<and> P x)" using Cons.prems assms(2) by (metis distinct.simps(2) image_eqI list.set_map list.simps(9))
    with True show ?thesis by auto
  qed (use Cons in auto)
qed simp

lemma group_allocations_iff:
  assumes "distinct (map rg_id (arr (po_resolved_groups p)))"
  shows "a \<in> set (group_allocations p assigned gid proto) \<longleftrightarrow>
    (\<exists>r \<in> set (arr (po_resolved_groups p)). (rg_id r = gid \<and> (rg_protocol r = ''both'' \<or> rg_protocol r = proto)) \<and>
       a \<in> set (arr (rg_allocations r)) \<and> hasAllocation assigned a)"
proof -
  define P :: "resolved_group \<Rightarrow> bool" where "P = (\<lambda>g. rg_id g = gid \<and> (rg_protocol g = ''both'' \<or> rg_protocol g = proto))"
  have u: "find P (arr (po_resolved_groups p)) = Some r \<longleftrightarrow> r \<in> set (arr (po_resolved_groups p)) \<and> P r" for r
    by (rule find_unique [OF assms, of P gid]) (simp add: P_def)
  have "a \<in> set (group_allocations p assigned gid proto) \<longleftrightarrow>
    (\<exists>r. find P (arr (po_resolved_groups p)) = Some r \<and> a \<in> set (arr (rg_allocations r)) \<and> hasAllocation assigned a)"
    unfolding group_allocations_def P_def [symmetric] by (cases "find P (arr (po_resolved_groups p))") auto
  then show ?thesis unfolding u by (auto simp: P_def)
qed

lemma group_allocations_selected:
  assumes "Validate calc assigned ceiling p = Inr ()" and "p \<noteq> Empty"
  shows "a \<in> set (group_allocations p assigned gid proto) \<longleftrightarrow>
    a \<in> set (arr (po_allocations p)) \<and>
    (\<exists>g \<in> set (arr (po_groups p)). gr_id g = gid \<and> (gr_protocol g = ''both'' \<or> gr_protocol g = proto) \<and> selects g a)"
proof -
  let ?P = "\<lambda>g. rg_id g = gid \<and> (rg_protocol g = ''both'' \<or> rg_protocol g = proto)"
  from assms have st: "validateStatic calc p = Inr ()" by (rule Validate_InrD)
  note ids = validateStatic_resolved_ids [OF st]
  from st have dG: "distinct (map gr_id (arr (po_groups p)))" by (rule validateStatic_maps)
  have same: "rg_protocol r = gr_protocol g \<and> set (arr (rg_allocations r)) = {a \<in> set (arr (po_allocations p)). selects g a}"
    if "r \<in> set (arr (po_resolved_groups p))" "g \<in> set (arr (po_groups p))" "gr_id g = rg_id r" for r g
    using validateStatic_resolved(1) [OF st that] mset_eq_setD [OF validateStatic_resolved(2) [OF st that]] by simp
  have "a \<in> set (group_allocations p assigned gid proto) \<longleftrightarrow>
      (\<exists>r \<in> set (arr (po_resolved_groups p)). ?P r \<and> a \<in> set (arr (rg_allocations r)) \<and> hasAllocation assigned a)"
    by (rule group_allocations_iff [OF ids(1)])
  also have "\<dots> \<longleftrightarrow> a \<in> set (arr (po_allocations p)) \<and>
    (\<exists>g \<in> set (arr (po_groups p)). gr_id g = gid \<and> (gr_protocol g = ''both'' \<or> gr_protocol g = proto) \<and> selects g a)"
  proof (intro iffI)
    assume "\<exists>r \<in> set (arr (po_resolved_groups p)). ?P r \<and> a \<in> set (arr (rg_allocations r)) \<and> hasAllocation assigned a"
    then obtain r where r: "r \<in> set (arr (po_resolved_groups p))" "?P r" "a \<in> set (arr (rg_allocations r))" by blast
    then have "rg_id r \<in> gr_id ` set (arr (po_groups p))" using ids(2) by blast
    then obtain g where g: "g \<in> set (arr (po_groups p))" "gr_id g = rg_id r" by auto
    from same [OF r(1) g] r g show "a \<in> set (arr (po_allocations p)) \<and>
      (\<exists>g \<in> set (arr (po_groups p)). gr_id g = gid \<and> (gr_protocol g = ''both'' \<or> gr_protocol g = proto) \<and> selects g a)" by auto
  next
    assume "a \<in> set (arr (po_allocations p)) \<and>
      (\<exists>g \<in> set (arr (po_groups p)). gr_id g = gid \<and> (gr_protocol g = ''both'' \<or> gr_protocol g = proto) \<and> selects g a)"
    then obtain g where a: "a \<in> set (arr (po_allocations p))" and g: "g \<in> set (arr (po_groups p))" "gr_id g = gid"
      "gr_protocol g = ''both'' \<or> gr_protocol g = proto" "selects g a" by blast
    have "gid \<in> rg_id ` set (arr (po_resolved_groups p))" using g(1,2) ids(2) by auto
    then obtain r where r: "r \<in> set (arr (po_resolved_groups p))" "rg_id r = gid" by auto
    from same [OF r(1) g(1)] a g r Validate_hasAllocation [OF assms a]
    show "\<exists>r \<in> set (arr (po_resolved_groups p)). ?P r \<and> a \<in> set (arr (rg_allocations r)) \<and> hasAllocation assigned a" by auto
  qed
  finally show ?thesis .
qed

definition own_port :: "bool \<Rightarrow> string \<Rightarrow> nft_expr" where
  "own_port orig proto = (if orig then ct ''proto-src'' '''' ''original'' else NPayload proto ''sport'')"

definition far_address :: "bool \<Rightarrow> string \<Rightarrow> nft_expr" where
  "far_address orig family = (if orig then ct ''daddr'' family ''original'' else NPayload family ''daddr'')"

lemma outbound_match_policy:
  assumes "Validate calc assigned ceiling p = Inr ()" and "p \<noteq> Empty"
  shows "outbound_match p assigned orig pk proto = policy_match p pk proto (own_port orig proto) (far_address orig)"
  using group_allocations_selected [OF assms]
  by (intro ext, unfold outbound_match_def policy_match_def own_port_def far_address_def [abs_def]) (simp split: option.split, blast)

lemma enabled_not_Empty: "fw_enabled (po_firewall p) \<Longrightarrow> p \<noteq> Empty"
  by (auto simp: Empty_def)

definition outbound_rules :: "policy \<Rightarrow> policy_rule list" where
  "outbound_rules p = filter (\<lambda>r. ru_direction r = ''outbound'') (OrderedRules p)"

definition decided :: "string \<Rightarrow> policy_rule option \<Rightarrow> bool" where
  "decided fallback r = (case r of None \<Rightarrow> fallback = ''allow'' | Some r \<Rightarrow> ru_action r = ''allow'')"

lemma run_outbound_origin:
  assumes "Validate calc assigned ceiling p = Inr ()" and "fw_enabled (po_firewall p)"
    and "compileRuleset uuid_ok sid p assigned False = Inr doc" and "Names uuid_ok sid = Inr (net, bridge, table)"
    and "ether pk ''ip'' \<or> ether pk ''ip6''" and "pk (ct ''protocol'' '''' ''original'') = Some (NStr proto)" and "proto = ''tcp'' \<or> proto = ''udp''"
  shows "run d doc pk (chain_rules doc ''outbound_origin'') =
    (if decided (fw_default_outbound (po_firewall p)) (find (policy_match p pk proto (own_port True proto) (far_address True)) (outbound_rules p))
     then Returned else Dropped)"
proof -
  have "chain_rules doc ''outbound_origin'' = emit_rules p assigned ''outbound'' True @ default_rules (fw_default_outbound (po_firewall p))"
    using enabled_chains(2) [OF assms(3,2) _ assms(4), of "''outbound''"] by (simp add: direction_def fallback_of_def)
  then show ?thesis
    using run_outbound_rules [of pk True proto d doc p assigned] assms(5-7) run_default [of pk d doc]
      outbound_match_policy [OF assms(1) enabled_not_Empty [OF assms(2)], of True pk proto]
    by (simp add: proto_sel_def outbound_rules_def decided_def split: option.split)
qed


text \<open>A document and a packet for the witness: UDP to 10.1.2.3, which a rule of the policy drops.\<close>

definition sample_id :: string where
  "sample_id = ''00000000-0000-4000-8000-000000000001''"

definition sample_doc :: nft_document where
  "sample_doc = (case compileRuleset (\<lambda>s. s = sample_id) sample_id sample_policy sample_assigned False of Inl _ \<Rightarrow> [] | Inr d \<Rightarrow> d)"

definition sample_out :: nft_packet where
  "sample_out = map_of [(NMeta ''ibrname'', NStr ''nsm000000000000''), (NPayload ''ether'' ''type'', NStr ''ip''),
     (NMeta ''l4proto'', NStr ''udp''), (NPayload ''udp'' ''sport'', NNum 5000), (NPayload ''ip'' ''daddr'', NStr ''10.1.2.3''),
     (NAnd (NPayload ''ip'' ''frag-off'') (NNum 0x3fff), NNum 0), (NCt ''state'' None, NStr ''new'')]"

lemma sample_compiles: "compileRuleset (\<lambda>s. s = sample_id) sample_id sample_policy sample_assigned False = Inr sample_doc"
  by code_simp

lemma sample_names: "Names (\<lambda>s. s = sample_id) sample_id =
    Inr (''wings-nsm-'' @ sample_id, ''nsm000000000000'', ''wings_nsm_00000000000040008000000000000001'')"
  by code_simp


end
