(* ===== verification/Net_Inbound.thy ===== *)
theory Net_Inbound
  imports Net_Filter
begin

text \<open>
  The inbound direction. An inbound packet reaches the server through a published port (the
  connection was translated, conntrack status \<^verbatim>\<open>dnat\<close>), directly over the bridge, or as the
  reply of a translated connection. A rule with a group compiles to one nft rule per way and
  family; on the last two ways the public address is not visible, so ports that another
  address of the family also owns are dropped at the position of the rule.
\<close>

section \<open>Ports that are shared with other addresses\<close>

definition shared_port :: "assigned_map \<Rightarrow> allocation_match \<Rightarrow> int \<Rightarrow> bool" where
  "shared_port assigned v port \<longleftrightarrow>
     list_ex (\<lambda>(host, ports). case parseIP host of
        None \<Rightarrow> False
      | Some ip \<Rightarrow> ip_family ip = am_family v \<and> port \<in> set ports \<and> (addr_String ip, port) \<notin> set (am_allocations v)) assigned"

definition hosts_parse :: "assigned_map \<Rightarrow> bool" where
  "hosts_parse assigned \<longleftrightarrow> list_all (\<lambda>(host, _). parseIP host \<noteq> None) assigned"

lemma shared_ports_fold:
  "hosts_parse assigned \<Longrightarrow> \<exists>shared. fold_res (shared_ports v) acc assigned = Inr shared \<and>
     (\<forall>port \<in> set (am_ports v). port \<in> set shared \<longleftrightarrow> port \<in> set acc \<or> shared_port assigned v port)"
proof (induction assigned arbitrary: acc)
  case Nil
  then show ?case by (simp add: shared_port_def)
next
  case (Cons hp assigned)
  obtain host ports where hp: "hp = (host, ports)" by (cases hp)
  from Cons.prems hp obtain ip where ip: "parseIP host = Some ip" and rest: "hosts_parse assigned" by (auto simp: hosts_parse_def)
  let ?acc = "if ip_family ip \<noteq> am_family v then acc
    else acc @ filter (\<lambda>port. port \<in> set (am_ports v) \<and> (addr_String ip, port) \<notin> set (am_allocations v)) ports"
  from Cons.IH [OF rest, of ?acc] obtain shared where s: "fold_res (shared_ports v) ?acc assigned = Inr shared"
    "\<forall>port \<in> set (am_ports v). port \<in> set shared \<longleftrightarrow> port \<in> set ?acc \<or> shared_port assigned v port" by blast
  have "shared_ports v acc hp = Inr ?acc" by (simp add: shared_ports_def hp ip)
  then have "fold_res (shared_ports v) acc (hp # assigned) = Inr shared" using s(1) by simp
  moreover have "\<forall>port \<in> set (am_ports v). port \<in> set shared \<longleftrightarrow> port \<in> set acc \<or> shared_port (hp # assigned) v port"
    using s(2) by (auto simp: shared_port_def hp ip split: if_splits)
  ultimately show ?case by blast
qed

lemma directAllocationPorts_eq:
  assumes "hosts_parse assigned"
  shows "directAllocationPorts v assigned =
    Inr (filter (\<lambda>port. \<not> shared_port assigned v port) (am_ports v), filter (shared_port assigned v) (am_ports v))"
proof -
  from shared_ports_fold [OF assms, of v "[]"] obtain shared where "fold_res (shared_ports v) [] assigned = Inr shared"
    "\<forall>port \<in> set (am_ports v). port \<in> set shared \<longleftrightarrow> shared_port assigned v port" by auto
  then show ?thesis by (auto simp: directAllocationPorts_def intro: filter_cong)
qed

section \<open>Inbound variants\<close>

definition conn_path :: "nft_packet \<Rightarrow> string" where
  "conn_path pk =
     (if pk (NAnd (NCt ''status'' None) (NStr ''dnat'')) \<noteq> Some (NStr ''dnat'') then ''direct''
      else if pk (NCt ''direction'' None) = Some (NStr ''reply'') then ''reply'' else ''dnat'')"

text \<open>Conntrack knows the connection: the status can be read and there is a direction.\<close>

definition conn_known :: "nft_packet \<Rightarrow> bool" where
  "conn_known pk \<longleftrightarrow>
     pk (NAnd (NCt ''status'' None) (NStr ''dnat'')) \<noteq> None \<and>
     pk (NCt ''direction'' None) \<in> {Some (NStr ''original''), Some (NStr ''reply'')}"

lemma path_exprs_applies:
  assumes "conn_known pk" and "pm_path v \<in> {''dnat'', ''direct'', ''reply''}"
  shows "applies pk (path_exprs v False) \<longleftrightarrow> pm_path v = conn_path pk"
  using assms by (auto simp: path_exprs_def conn_path_def conn_known_def)

definition dnat_tuple :: "nft_packet \<Rightarrow> string \<Rightarrow> allocation_tuple \<Rightarrow> bool" where
  "dnat_tuple pk family t \<longleftrightarrow>
     pk (ct ''daddr'' family ''original'') = Some (NStr (fst t)) \<and> pk (ct ''proto-dst'' '''' ''original'') = Some (NNum (snd t))"

lemma holds_tuple:
  "stmt_holds pk (nmatch (NConcat [ct ''daddr'' f ''original'', ct ''proto-dst'' '''' ''original'']) (tupleSet ts)) \<longleftrightarrow>
   (\<exists>t \<in> set ts. dnat_tuple pk f t)"
  by (force simp: nmatch_def tupleSet_def dnat_tuple_def split: option.splits)

lemma dnat_variant_applies:
  assumes "ru_direction rule = ''inbound''" "conn_known pk"
  shows "(\<exists>x \<in> set (emit_variant rule proto False \<lparr>pm_match = v, pm_path = ''dnat'', pm_drop = dr\<rparr>). applies pk x) \<longleftrightarrow>
    pk (NMeta ''l4proto'') = Some (NStr proto) \<and> conn_path pk = ''dnat'' \<and> variant_holds pk (NPayload proto ''dport'') v \<and>
    (am_family v = '''' \<or> (\<exists>t \<in> set (am_allocations v). dnat_tuple pk (am_family v) t)) \<and>
    peer_holds pk (\<lambda>family. ct ''saddr'' family ''original'') (ru_cidr rule)"
proof -
  let ?v = "\<lparr>pm_match = v, pm_path = ''dnat'', pm_drop = dr\<rparr>"
  have "peer_sel rule False ''dnat'' = (\<lambda>family. ct ''saddr'' family ''original'')"
    using assms(1) by (auto simp: peer_sel_def)
  moreover have "applies pk (allocation_exprs rule proto False ?v) \<longleftrightarrow> variant_holds pk (NPayload proto ''dport'') v \<and>
    (am_family v = '''' \<or> (\<exists>t \<in> set (am_allocations v). dnat_tuple pk (am_family v) t))"
    using assms(1) by (auto simp: allocation_exprs_def variant_holds_def value_in_intSet holds_tuple Let_def)
  moreover have "variant_holds pk (NPayload proto ''dport'') v \<Longrightarrow> am_family v \<noteq> '''' \<Longrightarrow> ether pk (am_family v)"
    by (simp add: variant_holds_def)
  ultimately show ?thesis
    using path_exprs_applies [OF assms(2), of ?v] peer_exprs_applies [of ?v pk rule False]
    by (auto simp: emit_variant_applies proto_sel_def)
qed

lemma direct_variant_applies:
  assumes "ru_direction rule = ''inbound''" "conn_known pk" "path = ''direct'' \<or> path = ''reply''"
  shows "(\<exists>x \<in> set (emit_variant rule proto False \<lparr>pm_match = v, pm_path = path, pm_drop = dr\<rparr>). applies pk x) \<longleftrightarrow>
    pk (NMeta ''l4proto'') = Some (NStr proto) \<and> conn_path pk = path \<and> variant_holds pk (NPayload proto ''dport'') v \<and>
    peer_holds pk (\<lambda>family. NPayload family ''saddr'') (ru_cidr rule)"
proof -
  have "peer_sel rule False path = (\<lambda>family. NPayload family ''saddr'')" "port_sel rule False proto = NPayload proto ''dport''"
    using assms(1,3) by (auto simp: peer_sel_def port_sel_def)
  then show ?thesis
    using assms plain_variant_applies [of rule path proto False v dr pk]
      path_exprs_applies [OF assms(2), of "\<lparr>pm_match = v, pm_path = path, pm_drop = dr\<rparr>"]
    by (auto simp: proto_sel_def)
qed

section \<open>Inbound rules\<close>

definition inbound_paths :: "policy_rule \<Rightarrow> assigned_map \<Rightarrow> allocation_match \<Rightarrow> policy_allocation_match list" where
  "inbound_paths rule assigned v =
     (if ru_group_id rule = None \<and> ru_cidr rule = None then [\<lparr>pm_match = v, pm_path = '''', pm_drop = False\<rparr>]
      else if ru_group_id rule = None
      then map (\<lambda>path. \<lparr>pm_match = v, pm_path = path, pm_drop = False\<rparr>) [''dnat'', ''direct'', ''reply'']
      else \<lparr>pm_match = v, pm_path = ''dnat'', pm_drop = False\<rparr> #
        concat (map (direct_paths v (filter (\<lambda>port. \<not> shared_port assigned v port) (am_ports v)) (filter (shared_port assigned v) (am_ports v)))
          [''direct'', ''reply'']))"

lemma inbound_matches:
  assumes "hosts_parse assigned" "ru_direction rule = ''inbound''"
  shows "policyAllocationMatches rule vs assigned False = Inr (concat (map (inbound_paths rule assigned) vs))"
proof -
  have "variant_matches rule assigned False acc v = Inr (acc @ inbound_paths rule assigned v)" for acc v
    using assms(2) by (auto simp: variant_matches_def inbound_paths_def directAllocationPorts_eq [OF assms(1)])
  then have "fold_res (variant_matches rule assigned False) acc vs = Inr (acc @ concat (map (inbound_paths rule assigned) vs))" for acc
    by (induction vs arbitrary: acc) auto
  then show ?thesis by (simp add: policyAllocationMatches_def)
qed

definition in_peer :: "nft_packet \<Rightarrow> string \<Rightarrow> nft_expr" where
  "in_peer pk family = (if conn_path pk = ''dnat'' then ct ''saddr'' family ''original'' else NPayload family ''saddr'')"

lemma conn_path_cases: "conn_path pk = ''dnat'' \<or> conn_path pk = ''direct'' \<or> conn_path pk = ''reply''"
  by (simp add: conn_path_def)

definition inbound_variant :: "nft_packet \<Rightarrow> string \<Rightarrow> allocation_match \<Rightarrow> bool" where
  "inbound_variant pk proto v \<longleftrightarrow>
     variant_holds pk (NPayload proto ''dport'') v \<and>
     (conn_path pk = ''dnat'' \<longrightarrow> am_family v = '''' \<or> (\<exists>t \<in> set (am_allocations v). dnat_tuple pk (am_family v) t))"

lemma no_group_paths: "ru_group_id rule = None \<Longrightarrow> m \<in> set (inbound_paths rule assigned v) \<Longrightarrow> \<not> pm_drop m"
  by (auto simp: inbound_paths_def split: if_splits)

lemma no_group_applies:
  assumes "ru_direction rule = ''inbound''" "conn_known pk" "ru_group_id rule = None"
  shows "(\<exists>m \<in> set (inbound_paths rule assigned no_allocation). \<exists>x \<in> set (emit_variant rule proto False m). applies pk x) \<longleftrightarrow>
    pk (NMeta ''l4proto'') = Some (NStr proto) \<and> peer_holds pk (in_peer pk) (ru_cidr rule)"
proof (cases "ru_cidr rule")
  case None
  then show ?thesis
    using assms plain_variant_applies [of rule "''''" proto False no_allocation False pk]
    by (simp add: inbound_paths_def path_exprs_def variant_holds_def no_allocation_def peer_holds_def proto_sel_def)
next
  case (Some c)
  then show ?thesis
    using assms dnat_variant_applies [OF assms(1,2), of proto no_allocation False]
      direct_variant_applies [OF assms(1,2), of "''direct''" proto no_allocation False]
      direct_variant_applies [OF assms(1,2), of "''reply''" proto no_allocation False] conn_path_cases [of pk]
    by (auto simp: inbound_paths_def variant_holds_def no_allocation_def in_peer_def [abs_def])
qed

lemma variant_holds_ports:
  "am_family v \<noteq> '''' \<Longrightarrow>
   variant_holds pk sel (v\<lparr>am_ports := filter P (am_ports v)\<rparr>) \<longleftrightarrow>
   variant_holds pk sel v \<and> (\<exists>n. pk sel = Some (NNum n) \<and> P n)"
  by (auto simp: variant_holds_def)

lemma direct_paths_applies:
  assumes "ru_direction rule = ''inbound''" "conn_known pk" "path = ''direct'' \<or> path = ''reply''" "am_family v \<noteq> ''''"
    and hit: "m \<in> set (direct_paths v (filter (\<lambda>port. \<not> P port) (am_ports v)) (filter P (am_ports v)) path)"
    "x \<in> set (emit_variant rule proto False m)" "applies pk x"
  shows "pk (NMeta ''l4proto'') = Some (NStr proto)" "conn_path pk = path" "variant_holds pk (NPayload proto ''dport'') v"
    "peer_holds pk (\<lambda>family. NPayload family ''saddr'') (ru_cidr rule)"
    "pm_drop m \<longleftrightarrow> (\<exists>n. pk (NPayload proto ''dport'') = Some (NNum n) \<and> P n)"
proof -
  from hit(1) have m: "m = \<lparr>pm_match = v\<lparr>am_ports := filter (\<lambda>port. \<not> P port) (am_ports v)\<rparr>, pm_path = path, pm_drop = False\<rparr> \<or>
      m = \<lparr>pm_match = v\<lparr>am_ports := filter P (am_ports v)\<rparr>, pm_path = path, pm_drop = True\<rparr>"
    by (auto simp: direct_paths_def split: if_splits)
  have "\<exists>x \<in> set (emit_variant rule proto False m). applies pk x" using hit(2,3) by blast
  with m have "pk (NMeta ''l4proto'') = Some (NStr proto) \<and> conn_path pk = path \<and> variant_holds pk (NPayload proto ''dport'') v \<and>
    peer_holds pk (\<lambda>family. NPayload family ''saddr'') (ru_cidr rule) \<and>
    (pm_drop m \<longleftrightarrow> (\<exists>n. pk (NPayload proto ''dport'') = Some (NNum n) \<and> P n))"
    by (elim disjE; simp only: direct_variant_applies [OF assms(1-3)] variant_holds_ports [OF assms(4)]) auto
  then show "pk (NMeta ''l4proto'') = Some (NStr proto)" "conn_path pk = path" "variant_holds pk (NPayload proto ''dport'') v"
    "peer_holds pk (\<lambda>family. NPayload family ''saddr'') (ru_cidr rule)"
    "pm_drop m \<longleftrightarrow> (\<exists>n. pk (NPayload proto ''dport'') = Some (NNum n) \<and> P n)"
    by blast+
qed

lemma direct_paths_hit:
  assumes "ru_direction rule = ''inbound''" "conn_known pk" "path = ''direct'' \<or> path = ''reply''" "am_family v \<noteq> ''''"
    and "pk (NMeta ''l4proto'') = Some (NStr proto)" "conn_path pk = path" "variant_holds pk (NPayload proto ''dport'') v"
    "peer_holds pk (\<lambda>family. NPayload family ''saddr'') (ru_cidr rule)"
  shows "\<exists>m \<in> set (direct_paths v (filter (\<lambda>port. \<not> P port) (am_ports v)) (filter P (am_ports v)) path).
    \<exists>x \<in> set (emit_variant rule proto False m). applies pk x"
proof -
  from assms(4,7) obtain n where n: "n \<in> set (am_ports v)" "pk (NPayload proto ''dport'') = Some (NNum n)"
    by (auto simp: variant_holds_def)
  define m where "m = \<lparr>pm_match = v\<lparr>am_ports := filter (if P n then P else (\<lambda>port. \<not> P port)) (am_ports v)\<rparr>, pm_path = path, pm_drop = P n\<rparr>"
  have "m \<in> set (direct_paths v (filter (\<lambda>port. \<not> P port) (am_ports v)) (filter P (am_ports v)) path)"
    using n(1) by (auto simp: direct_paths_def m_def filter_empty_conv)
  moreover have "\<exists>x \<in> set (emit_variant rule proto False m). applies pk x"
    unfolding m_def direct_variant_applies [OF assms(1-3)] variant_holds_ports [OF assms(4)] using assms n by auto
  ultimately show ?thesis by blast
qed

lemma group_paths_applies:
  assumes "ru_direction rule = ''inbound''" "conn_known pk" "ru_group_id rule = Some gid" "am_family v \<noteq> ''''"
  shows "(\<exists>m \<in> set (inbound_paths rule assigned v). \<exists>x \<in> set (emit_variant rule proto False m). applies pk x) \<longleftrightarrow>
    pk (NMeta ''l4proto'') = Some (NStr proto) \<and> inbound_variant pk proto v \<and> peer_holds pk (in_peer pk) (ru_cidr rule)"
    (is "(\<exists>m \<in> set ?ms. ?hit m) \<longleftrightarrow> ?R")
proof -
  let ?D = "\<lparr>pm_match = v, pm_path = ''dnat'', pm_drop = False\<rparr>"
  let ?d = "direct_paths v (filter (\<lambda>port. \<not> shared_port assigned v port) (am_ports v)) (filter (shared_port assigned v) (am_ports v))"
  have ms: "?ms = ?D # ?d ''direct'' @ ?d ''reply''" using assms(3) by (simp add: inbound_paths_def)
  have dnat: "?hit ?D \<longleftrightarrow> conn_path pk = ''dnat'' \<and> ?R"
    unfolding dnat_variant_applies [OF assms(1,2)] inbound_variant_def in_peer_def [abs_def] using assms(4)
    by (cases "conn_path pk = ''dnat''") simp_all
  have direct: "(\<exists>m \<in> set (?d path). ?hit m) \<longleftrightarrow> conn_path pk = path \<and> ?R" if "path = ''direct'' \<or> path = ''reply''" for path
  proof
    assume "\<exists>m \<in> set (?d path). ?hit m"
    then obtain m x where "m \<in> set (?d path)" "x \<in> set (emit_variant rule proto False m)" "applies pk x" by blast
    from direct_paths_applies [OF assms(1,2) that assms(4) this] that show "conn_path pk = path \<and> ?R"
      by (auto simp: inbound_variant_def in_peer_def [abs_def])
  next
    assume r: "conn_path pk = path \<and> ?R"
    then have "pk (NMeta ''l4proto'') = Some (NStr proto)" "variant_holds pk (NPayload proto ''dport'') v"
      "peer_holds pk (\<lambda>family. NPayload family ''saddr'') (ru_cidr rule)"
      using that by (auto simp: inbound_variant_def in_peer_def [abs_def])
    with direct_paths_hit [OF assms(1,2) that assms(4)] r show "\<exists>m \<in> set (?d path). ?hit m" by blast
  qed
  have "(\<exists>m \<in> set ?ms. ?hit m) \<longleftrightarrow> ?hit ?D \<or> (\<exists>m \<in> set (?d ''direct''). ?hit m) \<or> (\<exists>m \<in> set (?d ''reply''). ?hit m)"
    unfolding ms by (simp only: list.set set_append bex_Un bex_simps)
  then show ?thesis using dnat direct [of "''direct''"] direct [of "''reply''"] conn_path_cases [of pk] by argo
qed

lemma group_paths_drop:
  assumes "ru_direction rule = ''inbound''" "conn_known pk" "ru_group_id rule = Some gid" "am_family v \<noteq> ''''"
    and m: "m \<in> set (inbound_paths rule assigned v)" "x \<in> set (emit_variant rule proto False m)" "applies pk x"
  shows "pm_drop m \<longleftrightarrow> conn_path pk \<noteq> ''dnat'' \<and> (\<exists>n. pk (NPayload proto ''dport'') = Some (NNum n) \<and> shared_port assigned v n)"
proof -
  let ?d = "direct_paths v (filter (\<lambda>port. \<not> shared_port assigned v port) (am_ports v)) (filter (shared_port assigned v) (am_ports v))"
  from m(1) assms(3) consider "m = \<lparr>pm_match = v, pm_path = ''dnat'', pm_drop = False\<rparr>"
    | "m \<in> set (?d ''direct'')" | "m \<in> set (?d ''reply'')"
    by (auto simp: inbound_paths_def)
  then show ?thesis
  proof cases
    case 1
    have "\<exists>x \<in> set (emit_variant rule proto False m). applies pk x" using m(2,3) by blast
    then show ?thesis using 1 dnat_variant_applies [OF assms(1,2), of proto v False] by simp
  next
    case 2
    from direct_paths_applies [OF assms(1,2) _ assms(4) 2 m(2,3)] show ?thesis by simp
  next
    case 3
    from direct_paths_applies [OF assms(1,2) _ assms(4) 3 m(2,3)] show ?thesis by simp
  qed
qed

text \<open>The same conditions over the allocations of the group.\<close>

definition dnat_holds :: "nft_packet \<Rightarrow> allocation \<Rightarrow> bool" where
  "dnat_holds pk a =
     (case parseIP (al_ip a) of
        None \<Rightarrow> False
      | Some ip \<Rightarrow> ether pk (ip_family ip) \<and> dnat_tuple pk (ip_family ip) (addr_String ip, al_port a))"

definition inbound_group :: "nft_packet \<Rightarrow> string \<Rightarrow> allocation set \<Rightarrow> bool" where
  "inbound_group pk proto as \<longleftrightarrow>
     (\<exists>a \<in> as. allocation_holds pk (NPayload proto ''dport'') a) \<and> (conn_path pk = ''dnat'' \<longrightarrow> (\<exists>a \<in> as. dnat_holds pk a))"

text \<open>Another address of the packet's family owns the destination port.\<close>

definition port_elsewhere :: "assigned_map \<Rightarrow> nft_packet \<Rightarrow> string \<Rightarrow> allocation set \<Rightarrow> bool" where
  "port_elsewhere assigned pk proto as \<longleftrightarrow>
     list_ex (\<lambda>(host, ports). case (parseIP host, pk (NPayload proto ''dport'')) of
          (Some ip, Some (NNum n)) \<Rightarrow>
            ether pk (ip_family ip) \<and> n \<in> set ports \<and> (ip_family ip, addr_String ip, n) \<notin> alloc_tuple ` as
        | _ \<Rightarrow> False) assigned"

lemma port_elsewhere_iff:
  "port_elsewhere assigned pk proto as \<longleftrightarrow>
     (\<exists>(host, ports) \<in> set assigned. \<exists>ip n. parseIP host = Some ip \<and> ether pk (ip_family ip) \<and>
        pk (NPayload proto ''dport'') = Some (NNum n) \<and> n \<in> set ports \<and> (ip_family ip, addr_String ip, n) \<notin> alloc_tuple ` as)"
proof (cases "\<exists>n. pk (NPayload proto ''dport'') = Some (NNum n)")
  case True
  then obtain n where n: "pk (NPayload proto ''dport'') = Some (NNum n)" by blast
  show ?thesis unfolding port_elsewhere_def list_ex_iff by (rule bex_cong) (auto simp: n split: option.split)
next
  case False
  then have "(case (parseIP host, pk (NPayload proto ''dport'')) of (Some ip, Some (NNum n)) \<Rightarrow> Q ip n | _ \<Rightarrow> False) = False" for host Q
    by (auto split: option.splits nft_expr.splits)
  with False show ?thesis unfolding port_elsewhere_def list_ex_iff by simp
qed

lemma family_matchD:
  assumes "v \<in> set (family_match found f)"
  shows "am_family v = f" "set (am_ports v) = (\<lambda>t. snd (snd t)) ` {t \<in> set found. fst t = f}"
    "set (am_allocations v) = snd ` {t \<in> set found. fst t = f}"
  using assms by (auto simp: family_match_def Let_def split: if_splits)

lemma family_match_inbound:
  assumes "\<And>a. a \<in> set as \<Longrightarrow> parseIP (al_ip a) \<noteq> None" and "f \<noteq> ''''"
  shows "(\<exists>v \<in> set (family_match (map alloc_tuple as) f). inbound_variant pk proto v) \<longleftrightarrow> ether pk f \<and> inbound_group pk proto (set as)"
proof (cases "ether pk f")
  case True
  have a1: "allocation_holds pk sel a \<longleftrightarrow> fst (alloc_tuple a) = f \<and> pk sel = Some (NNum (snd (snd (alloc_tuple a))))"
    if "a \<in> set as" for a sel
    using assms(1) [OF that] True by (auto simp: allocation_holds_def alloc_tuple_def Let_def)
  have a2: "dnat_holds pk a \<longleftrightarrow> fst (alloc_tuple a) = f \<and> dnat_tuple pk f (snd (alloc_tuple a))" if "a \<in> set as" for a
    using assms(1) [OF that] True by (auto simp: dnat_holds_def alloc_tuple_def Let_def)
  have v: "inbound_variant pk proto v \<longleftrightarrow> inbound_group pk proto (set as)"
    if "v \<in> set (family_match (map alloc_tuple as) f)" for v
  proof -
    note m = family_matchD [OF that]
    have "variant_holds pk (NPayload proto ''dport'') v \<longleftrightarrow> (\<exists>a \<in> set as. allocation_holds pk (NPayload proto ''dport'') a)"
      using True assms(2) by (simp add: variant_holds_def m a1 bex_simps cong: bex_cong)
    moreover have "(\<exists>t \<in> set (am_allocations v). dnat_tuple pk (am_family v) t) \<longleftrightarrow> (\<exists>a \<in> set as. dnat_holds pk a)"
      by (simp add: m a2 bex_simps cong: bex_cong)
    ultimately show ?thesis using assms(2) by (simp add: inbound_variant_def inbound_group_def m)
  qed
  have "family_match (map alloc_tuple as) f \<noteq> []" if "inbound_group pk proto (set as)"
  proof -
    from that obtain a where "a \<in> set as" "fst (alloc_tuple a) = f" using a1 by (auto simp: inbound_group_def)
    then show ?thesis by (auto simp: family_match_def Let_def filter_empty_conv)
  qed
  with v True show ?thesis by (metis list.set_intros(1) neq_Nil_conv)
next
  case False
  then show ?thesis using assms(2) by (auto simp: inbound_variant_def variant_holds_def dest: family_matchD(1))
qed

lemma family_match_shared:
  assumes "v \<in> set (family_match (map alloc_tuple as) f)" "ether pk f"
  shows "(\<exists>n. pk (NPayload proto ''dport'') = Some (NNum n) \<and> shared_port assigned v n) \<longleftrightarrow> port_elsewhere assigned pk proto (set as)"
proof -
  note m = family_matchD [OF assms(1)]
  have t: "(s, n) \<in> set (am_allocations v) \<longleftrightarrow> (f, s, n) \<in> alloc_tuple ` set as" for s n
    unfolding m by (auto simp: image_iff)
  show ?thesis
    using assms(2) by (auto simp: shared_port_def port_elsewhere_iff list_ex_iff m(1) t split: option.splits; fastforce)
qed

text \<open>When an inbound rule holds, and when it fails closed.\<close>

definition inbound_match :: "policy \<Rightarrow> assigned_map \<Rightarrow> nft_packet \<Rightarrow> string \<Rightarrow> policy_rule \<Rightarrow> bool" where
  "inbound_match p assigned pk proto rule \<longleftrightarrow>
     (ru_protocol rule = ''both'' \<or> ru_protocol rule = proto) \<and>
     (case ru_group_id rule of None \<Rightarrow> True | Some gid \<Rightarrow> inbound_group pk proto (set (group_allocations p assigned gid proto))) \<and>
     peer_holds pk (in_peer pk) (ru_cidr rule)"

definition fails_closed :: "policy \<Rightarrow> assigned_map \<Rightarrow> nft_packet \<Rightarrow> string \<Rightarrow> policy_rule \<Rightarrow> bool" where
  "fails_closed p assigned pk proto rule =
     (case ru_group_id rule of
        None \<Rightarrow> False
      | Some gid \<Rightarrow> conn_path pk \<noteq> ''dnat'' \<and> port_elsewhere assigned pk proto (set (group_allocations p assigned gid proto)))"

lemma inbound_emit_proto:
  assumes "hosts_parse assigned" "ru_direction rule = ''inbound''" "conn_known pk" "ether pk ''ip'' \<or> ether pk ''ip6''"
  shows "(\<exists>x \<in> set (emit_proto p assigned rule False proto). applies pk x) \<longleftrightarrow>
    pk (NMeta ''l4proto'') = Some (NStr proto) \<and> inbound_match p assigned pk proto rule"
proof -
  have "(\<exists>x \<in> set (emit_proto p assigned rule False proto). applies pk x) \<longleftrightarrow>
    (ru_protocol rule = ''both'' \<or> ru_protocol rule = proto) \<and>
    (\<exists>v \<in> set (variants_of p assigned rule proto). \<exists>m \<in> set (inbound_paths rule assigned v).
       \<exists>x \<in> set (emit_variant rule proto False m). applies pk x)" (is "_ \<longleftrightarrow> _ \<and> ?V")
    by (auto simp: emit_proto_def inbound_matches [OF assms(1,2)])
  moreover have "?V \<longleftrightarrow> pk (NMeta ''l4proto'') = Some (NStr proto) \<and>
     (case ru_group_id rule of None \<Rightarrow> True | Some gid \<Rightarrow> inbound_group pk proto (set (group_allocations p assigned gid proto))) \<and>
     peer_holds pk (in_peer pk) (ru_cidr rule)"
  proof (cases "ru_group_id rule")
    case None
    then have "variants_of p assigned rule proto = [no_allocation]" by (simp add: variants_of_def)
    with no_group_applies [OF assms(2,3) None, of assigned proto] None show ?thesis by simp
  next
    case (Some gid)
    let ?as = "group_allocations p assigned gid proto"
    have vs: "variants_of p assigned rule proto = family_match (map alloc_tuple ?as) ''ip'' @ family_match (map alloc_tuple ?as) ''ip6''"
      using Some by (simp add: variants_of_def resolvedMatches_eq Let_def)
    have "(\<exists>m \<in> set (inbound_paths rule assigned v). \<exists>x \<in> set (emit_variant rule proto False m). applies pk x) \<longleftrightarrow>
      pk (NMeta ''l4proto'') = Some (NStr proto) \<and> inbound_variant pk proto v \<and> peer_holds pk (in_peer pk) (ru_cidr rule)"
      if "v \<in> set (variants_of p assigned rule proto)" for v
      using that family_matchD(1) unfolding vs by (intro group_paths_applies [OF assms(2,3) Some]) force
    then have "?V \<longleftrightarrow> pk (NMeta ''l4proto'') = Some (NStr proto) \<and> peer_holds pk (in_peer pk) (ru_cidr rule) \<and>
      (\<exists>v \<in> set (variants_of p assigned rule proto). inbound_variant pk proto v)" by blast
    also have "(\<exists>v \<in> set (variants_of p assigned rule proto). inbound_variant pk proto v) \<longleftrightarrow> inbound_group pk proto (set ?as)"
      unfolding vs set_append bex_Un using family_match_inbound [OF group_allocations_parseIP] assms(4) by auto
    finally show ?thesis using Some by auto
  qed
  ultimately show ?thesis by (auto simp: inbound_match_def)
qed

lemma inbound_emit_last:
  assumes "hosts_parse assigned" "ru_direction rule = ''inbound''" "conn_known pk"
    and x: "x \<in> set (emit_proto p assigned rule False proto)" "applies pk x"
  shows "last x = NVerdict (if ru_action rule = ''allow'' \<and> \<not> fails_closed p assigned pk proto rule then ''return'' else ''drop'')"
proof -
  from x(1) obtain v m where v: "v \<in> set (variants_of p assigned rule proto)" and m: "m \<in> set (inbound_paths rule assigned v)"
    "x \<in> set (emit_variant rule proto False m)"
    by (auto simp: emit_proto_def inbound_matches [OF assms(1,2)] split: if_splits)
  have "pm_drop m \<longleftrightarrow> fails_closed p assigned pk proto rule"
  proof (cases "ru_group_id rule")
    case None
    with no_group_paths [OF None m(1)] show ?thesis by (simp add: fails_closed_def)
  next
    case (Some gid)
    let ?as = "group_allocations p assigned gid proto"
    from v Some obtain f where f: "f \<noteq> ''''" "v \<in> set (family_match (map alloc_tuple ?as) f)"
      by (auto simp: variants_of_def resolvedMatches_eq Let_def)
    then have fam: "am_family v = f" "am_family v \<noteq> ''''" using family_matchD(1) by auto
    have "\<exists>m \<in> set (inbound_paths rule assigned v). \<exists>x \<in> set (emit_variant rule proto False m). applies pk x" using m x(2) by blast
    with fam have "ether pk f" by (auto simp: group_paths_applies [OF assms(2,3) Some fam(2)] inbound_variant_def variant_holds_def)
    from group_paths_drop [OF assms(2,3) Some fam(2) m x(2)] family_match_shared [where pk = pk, OF f(2) this, of proto assigned] Some
    show ?thesis by (simp add: fails_closed_def)
  qed
  with emit_variant_last [OF m(2)] show ?thesis by simp
qed

lemma run_inbound_rules:
  assumes "hosts_parse assigned" "conn_known pk" "plain_packet pk proto"
  shows "run d doc pk (emit_rules p assigned ''inbound'' False @ ss) =
    (case find (inbound_match p assigned pk proto) (filter (\<lambda>r. ru_direction r = ''inbound'') (OrderedRules p)) of
       None \<Rightarrow> run d doc pk ss
     | Some r \<Rightarrow> if ru_action r = ''allow'' \<and> \<not> fails_closed p assigned pk proto r then Returned else Dropped)"
proof -
  have ip: "ether pk ''ip'' \<or> ether pk ''ip6''" and l4: "pk (NMeta ''l4proto'') = Some (NStr proto)" "proto = ''tcp'' \<or> proto = ''udp''"
    using assms(3) by (auto simp: plain_packet_def)
  have other: "\<not> applies pk x" if "ru_direction r = ''inbound''" "x \<in> set (emit_proto p assigned r False proto')" "proto' \<noteq> proto" for r x proto'
    using inbound_emit_proto [OF assms(1) that(1) assms(2) ip, of p proto'] that l4(1) by auto
  have e: "(\<exists>x \<in> set (emit_rule p assigned False r). applies pk x) \<longleftrightarrow> inbound_match p assigned pk proto r" if "ru_direction r = ''inbound''" for r
    using inbound_emit_proto [OF assms(1) that assms(2) ip, of p proto] other [OF that] l4 by (auto simp: emit_rule_def)
  have l: "last x = NVerdict (if ru_action r = ''allow'' \<and> \<not> fails_closed p assigned pk proto r then ''return'' else ''drop'')"
    if "ru_direction r = ''inbound''" "x \<in> set (emit_rule p assigned False r)" "applies pk x" for r x
    using inbound_emit_last [OF assms(1) that(1) assms(2), of x p proto] that other [OF that(1)] l4(2) by (auto simp: emit_rule_def)
  have "run d doc pk (emit_rules p assigned ''inbound'' False @ ss) =
    (case find (inbound_match p assigned pk proto) (filter (\<lambda>r. ru_direction r = ''inbound'') (OrderedRules p)) of
       None \<Rightarrow> run d doc pk ss
     | Some r \<Rightarrow> verdict_of (if ru_action r = ''allow'' \<and> \<not> fails_closed p assigned pk proto r then ''return'' else ''drop''))"
    unfolding emit_rules_def by (rule run_blocks) (simp_all add: e l)
  then show ?thesis by (simp add: verdict_of_def split: option.split)
qed

section \<open>The inbound hook\<close>

text \<open>The allocations that a group of the policy selects for a protocol.\<close>

definition selected :: "policy \<Rightarrow> string \<Rightarrow> string \<Rightarrow> allocation set" where
  "selected p gid proto =
     set (filter (\<lambda>a. list_ex (\<lambda>g. gr_id g = gid \<and> (gr_protocol g = ''both'' \<or> gr_protocol g = proto) \<and> selects g a) (arr (po_groups p)))
       (arr (po_allocations p)))"

definition policy_inbound_match :: "policy \<Rightarrow> nft_packet \<Rightarrow> string \<Rightarrow> policy_rule \<Rightarrow> bool" where
  "policy_inbound_match p pk proto rule \<longleftrightarrow>
     (ru_protocol rule = ''both'' \<or> ru_protocol rule = proto) \<and>
     (case ru_group_id rule of None \<Rightarrow> True | Some gid \<Rightarrow> inbound_group pk proto (selected p gid proto)) \<and>
     peer_holds pk (in_peer pk) (ru_cidr rule)"

definition ambiguous_port :: "policy \<Rightarrow> assigned_map \<Rightarrow> nft_packet \<Rightarrow> string \<Rightarrow> policy_rule \<Rightarrow> bool" where
  "ambiguous_port p assigned pk proto rule =
     (case ru_group_id rule of
        None \<Rightarrow> False
      | Some gid \<Rightarrow> conn_path pk \<noteq> ''dnat'' \<and> port_elsewhere assigned pk proto (selected p gid proto))"

lemma group_allocations_set:
  assumes "Validate calc assigned ceiling p = Inr ()" and "p \<noteq> Empty"
  shows "set (group_allocations p assigned gid proto) = selected p gid proto"
  using group_allocations_selected [OF assms] by (auto simp: selected_def list_ex_iff)

lemma inbound_match_policy:
  assumes "Validate calc assigned ceiling p = Inr ()" and "p \<noteq> Empty"
  shows "inbound_match p assigned pk proto = policy_inbound_match p pk proto"
    "fails_closed p assigned pk proto = ambiguous_port p assigned pk proto"
  by (intro ext, simp add: inbound_match_def policy_inbound_match_def fails_closed_def ambiguous_port_def
      group_allocations_set [OF assms] split: option.split)+

text \<open>
  C6. The inbound hook decides an unfragmented TCP or UDP packet for the server by the first
  active inbound rule that matches it. On a published port a rule with a group matches the
  public address and port of the connection; on the other ways it matches the port, and
  drops the packet when another address of the server owns that port too. A tracked reply
  that no rule matches is decided by the outbound rules and default on its original flow; any
  other packet by the inbound default.
\<close>

theorem inbound_hook_first_match:
  assumes "Validate calc assigned ceiling p = Inr ()" and "fw_enabled (po_firewall p)" and "hosts_parse assigned"
    and "compileRuleset uuid_ok sid p assigned False = Inr doc" and "Names uuid_ok sid = Inr (net, bridge, table)"
    and "pk (NMeta ''obrname'') = Some (NStr bridge)" and "plain_packet pk proto" and "conn_known pk"
    and "pk (ct ''protocol'' '''' ''original'') = Some (NStr proto)"
  shows "hook_passes doc pk ''inbound_hook'' \<longleftrightarrow>
    (case find (policy_inbound_match p pk proto) (filter (\<lambda>r. ru_direction r = ''inbound'') (OrderedRules p)) of
       Some r \<Rightarrow> ru_action r = ''allow'' \<and> \<not> ambiguous_port p assigned pk proto r
     | None \<Rightarrow>
         if tracked_reply pk
         then (case find (policy_match p pk proto (ct ''proto-src'' '''' ''original'') (\<lambda>family. ct ''daddr'' family ''original''))
                      (filter (\<lambda>r. ru_direction r = ''outbound'') (OrderedRules p)) of
                 Some r \<Rightarrow> ru_action r = ''allow''
               | None \<Rightarrow> fw_default_outbound (po_firewall p) = ''allow'')
         else fw_default_inbound (po_firewall p) = ''allow'')"
proof -
  have dir: "direction ''inbound''" by (simp add: direction_def)
  note chains = enabled_chains [OF assms(4,2) dir assms(5)]
  have ip: "ether pk ''ip'' \<or> ether pk ''ip6''" and pr: "proto = ''tcp'' \<or> proto = ''udp''"
    using assms(7) by (auto simp: plain_packet_def)
  note origin = run_outbound_origin [OF assms(1,2,4,5) ip assms(9) pr, of 0]
  have "run (Suc (Suc 0)) doc pk (chain_rules doc ''inbound_hook'') = run (Suc 0) doc pk (chain_rules doc ''inbound'')"
    using chains(3) assms(6) run_hook [of pk "''obrname''" bridge "Suc 0" doc "''inbound''"] by simp
  also have "\<dots> = (case find (inbound_match p assigned pk proto) (filter (\<lambda>r. ru_direction r = ''inbound'') (OrderedRules p)) of
       None \<Rightarrow> if tracked_reply pk then run 0 doc pk (chain_rules doc ''outbound_origin'')
         else if fw_default_inbound (po_firewall p) = ''allow'' then Returned else Dropped
     | Some r \<Rightarrow> if ru_action r = ''allow'' \<and> \<not> fails_closed p assigned pk proto r then Returned else Dropped)"
    unfolding chains(1) run_control_plain [OF assms(7)] run_inbound_rules [OF assms(3,8,7)] run_stateful [OF assms(7)]
    using ip run_default [of pk "Suc 0" doc] by (simp add: fallback_of_def opposite_def split: option.split)
  finally show ?thesis
    unfolding hook_passes_def numeral_2_eq_2 origin
      inbound_match_policy [OF assms(1) enabled_not_Empty [OF assms(2)]] outbound_rules_def decided_def own_port_def far_address_def [abs_def]
    by (simp split: option.split)
qed

text \<open>A TCP connection to the published port 80 of the server.\<close>

definition sample_in :: nft_packet where
  "sample_in = map_of [(NMeta ''obrname'', NStr ''nsm000000000000''), (NPayload ''ether'' ''type'', NStr ''ip''),
     (NMeta ''l4proto'', NStr ''tcp''), (NPayload ''tcp'' ''dport'', NNum 80),
     (NAnd (NPayload ''ip'' ''frag-off'') (NNum 0x3fff), NNum 0), (NCt ''state'' None, NStr ''new''),
     (NCt ''direction'' None, NStr ''original''), (NAnd (NCt ''status'' None) (NStr ''dnat''), NStr ''dnat''),
     (ct ''protocol'' '''' ''original'', NStr ''tcp''), (ct ''daddr'' ''ip'' ''original'', NStr ''10.0.0.1''),
     (ct ''proto-dst'' '''' ''original'', NNum 80)]"

lemma sample_in_facts:
  "fw_enabled (po_firewall sample_policy)" "hosts_parse sample_assigned" "sample_in (NMeta ''obrname'') = Some (NStr ''nsm000000000000'')"
  "plain_packet sample_in ''tcp''" "conn_known sample_in" "sample_in (ct ''protocol'' '''' ''original'') = Some (NStr ''tcp'')"
  by code_simp+

theorem inbound_hook_first_match_witness: "hook_passes sample_doc sample_in ''inbound_hook''"
  unfolding inbound_hook_first_match [OF sample_valid sample_in_facts(1,2) sample_compiles sample_names sample_in_facts(3-6)]
  by code_simp

section \<open>Properties of every document\<close>

lemma direction_cases: "direction dir \<Longrightarrow> dir = ''outbound'' \<or> dir = ''inbound''"
  by (simp add: direction_def)

lemma simple_chains:
  assumes "compileRuleset uuid_ok sid p assigned gate = Inr doc" and "gate \<or> \<not> fw_enabled (po_firewall p)" and "direction dir"
    and "Names uuid_ok sid = Inr (net, bridge, table)"
  shows "chain_rules doc dir = [[NVerdict (if gate then ''drop'' else ''return'')]]"
    "chain_rules doc (dir @ ''_hook'') =
      [[nmatch (NMeta (if dir = ''inbound'' then ''obrname'' else ''ibrname'')) (NStr bridge), NJump dir]]"
proof -
  have "doc = [AddTable table (ownerPrefix @ sid)] @
      direction_chains bridge ''outbound'' @ [AddRule ''outbound'' [NVerdict (if gate then ''drop'' else ''return'')]] @
      direction_chains bridge ''inbound'' @ [AddRule ''inbound'' [NVerdict (if gate then ''drop'' else ''return'')]]"
    using assms(1,2,4) by (auto simp: compileRuleset_def compile_direction_def Let_def)
  then show "chain_rules doc dir = [[NVerdict (if gate then ''drop'' else ''return'')]]"
    "chain_rules doc (dir @ ''_hook'') =
      [[nmatch (NMeta (if dir = ''inbound'' then ''obrname'' else ''ibrname'')) (NStr bridge), NJump dir]]"
    using direction_cases [OF assms(3)] by (auto simp: direction_chains_def Let_def)
qed

definition bridge_meta :: "string \<Rightarrow> nft_expr" where
  "bridge_meta dir = NMeta (if dir = ''inbound'' then ''obrname'' else ''ibrname'')"

lemma document_hook:
  assumes "compileRuleset uuid_ok sid p assigned gate = Inr doc" and "direction dir" and "Names uuid_ok sid = Inr (net, bridge, table)"
  shows "chain_rules doc (dir @ ''_hook'') = [[nmatch (bridge_meta dir) (NStr bridge), NJump dir]]"
proof (cases "gate \<or> \<not> fw_enabled (po_firewall p)")
  case True
  from simple_chains(2) [OF assms(1) True assms(2,3)] show ?thesis by (simp add: bridge_meta_def)
next
  case False
  with enabled_chains(3) [of uuid_ok sid p assigned doc dir net bridge table] assms show ?thesis by (simp add: bridge_meta_def)
qed



lemma run_verdicts: "(\<forall>r \<in> set rs. \<exists>v. last r = NVerdict v) \<Longrightarrow> run d doc pk rs \<noteq> Too_Deep"
  by (induction rs) (auto split: if_splits)

lemma run_gotos:
  "(\<forall>r \<in> set rs. (\<exists>v. last r = NVerdict v) \<or> (\<exists>t. last r = NGoto t \<and> (\<forall>r' \<in> set (chain_rules doc t). \<exists>v. last r' = NVerdict v))) \<Longrightarrow>
   run (Suc d) doc pk rs \<noteq> Too_Deep"
  by (induction rs) (auto simp: run_verdicts split: if_splits)

lemma emit_rules_last: "r \<in> set (emit_rules p assigned dir original) \<Longrightarrow> \<exists>v. last r = NVerdict v"
  by (auto simp: emit_rules_def emit_rule_def emit_proto_def dest!: emit_variant_last split: if_splits sum.splits)

lemma fixed_rules_last:
  "r \<in> set control_rules \<Longrightarrow> \<exists>v. last r = NVerdict v"
  "r \<in> set (default_rules f) \<Longrightarrow> \<exists>v. last r = NVerdict v"
  "r \<in> set (stateful_rules dir) \<Longrightarrow> last r = NGoto (dir @ ''_origin'') \<or> last r = NGoto (opposite dir @ ''_origin'')"
  by (auto simp: rule_defs Let_def split: if_splits)

text \<open>
  C38. Walking a hook of a compiled table always comes to a decision: two levels of calls are
  enough for every packet, since a hook only jumps to its direction and a direction only goes
  to the chains of the original flows, which call nothing.
\<close>

theorem hooks_decide:
  assumes "compileRuleset uuid_ok sid p assigned gate = Inr doc" and "Names uuid_ok sid = Inr (net, bridge, table)"
    and "dir = ''outbound'' \<or> dir = ''inbound''"
  shows "run 2 doc pk (chain_rules doc (dir @ ''_hook'')) = Dropped \<or> run 2 doc pk (chain_rules doc (dir @ ''_hook'')) = Returned"
proof -
  have dir: "direction dir" "direction (opposite dir)" using assms(3) by (auto simp: direction_def opposite_def)
  have "run (Suc 0) doc pk (chain_rules doc dir) \<noteq> Too_Deep"
  proof (cases "gate \<or> \<not> fw_enabled (po_firewall p)")
    case True
    from simple_chains(1) [OF assms(1) True dir(1) assms(2)] show ?thesis by simp
  next
    case False
    then have e: "compileRuleset uuid_ok sid p assigned False = Inr doc" "fw_enabled (po_firewall p)" using assms(1) by simp_all
    have origin: "\<exists>v. last r' = NVerdict v" if "t = dir @ ''_origin'' \<or> t = opposite dir @ ''_origin''" "r' \<in> set (chain_rules doc t)" for t r'
      using that enabled_chains(2) [OF e dir(1) assms(2)] enabled_chains(2) [OF e dir(2) assms(2)]
      by (auto dest: emit_rules_last fixed_rules_last)
    have "(\<exists>v. last r = NVerdict v) \<or> (\<exists>t. last r = NGoto t \<and> (\<forall>r' \<in> set (chain_rules doc t). \<exists>v. last r' = NVerdict v))"
      if "r \<in> set (chain_rules doc dir)" for r
      using that enabled_chains(1) [OF e dir(1) assms(2)] fixed_rules_last [of r] emit_rules_last [of r] origin by (auto; metis)
    then show ?thesis by (intro run_gotos ballI)
  qed
  then show ?thesis
    unfolding document_hook [OF assms(1) dir(1) assms(2)] numeral_2_eq_2 bridge_meta_def by (auto split: nft_outcome.splits)
qed

theorem hooks_decide_witness:
  "run 2 sample_doc sample_in (chain_rules sample_doc (''inbound'' @ ''_hook'')) = Dropped \<or>
   run 2 sample_doc sample_in (chain_rules sample_doc (''inbound'' @ ''_hook'')) = Returned"
  by (rule hooks_decide [OF sample_compiles sample_names]) simp

end
