(* ===== verification/Collab_OT.thy ===== *)
theory Collab_OT
  imports Go_Strings Net_Addr "HOL-Library.Word" "HOL-Library.Code_Target_Nat"
begin

text \<open>
  Collaborative editing of a file
  (\<^verbatim>\<open>router/websocket/betterfiles_collaboration_ot.go\<close>): a document with a bounded history of
  operations, to which an editor sends changes in UTF-16 offsets against a base that may be
  stale. The operational transformation library is a parameter, a record of the functions the
  code calls; \<open>ot_laws\<close> states what its documentation promises.

  A text is the list of its code points. The loader, the handlers and JSON decoding only let
  valid UTF-8 through, so the checks of validity that the code repeats here always succeed
  and the code points determine the Go string.
\<close>

type_synonym ctext = "nat list"

section \<open>The library\<close>

datatype ot_op = ORetain nat | OInsert ctext | ODelete nat

record 'op ot_lib =
  ot_new :: 'op
  ot_retain :: "'op \<Rightarrow> nat \<Rightarrow> 'op"
  ot_delete :: "'op \<Rightarrow> nat \<Rightarrow> 'op"
  ot_insert :: "'op \<Rightarrow> ctext \<Rightarrow> 'op"
  ot_base_len :: "'op \<Rightarrow> nat"
  ot_ops :: "'op \<Rightarrow> ot_op list"
  ot_apply :: "'op \<Rightarrow> ctext \<Rightarrow> ctext option"
  ot_invert :: "'op \<Rightarrow> ctext \<Rightarrow> 'op"
  ot_transform :: "'op \<Rightarrow> 'op \<Rightarrow> ('op \<times> 'op) option"

section \<open>Data\<close>

record text_edit =
  te_offset :: int
  te_length :: int
  te_text :: ctext
  te_hash :: string
  te_base_length :: int

record 'op collab_operation =
  co_revision :: int
  co_base_hash :: string
  co_base_length :: int
  co_target_hash :: string
  co_target_len :: int
  co_forward :: 'op
  co_inverse :: 'op

record 'op collab_document =
  cd_content :: ctext
  cd_revision :: int
  cd_history :: "'op collab_operation list"

record collab_result =
  cr_changes :: "text_edit list"
  cr_revision :: int
  cr_transformed :: bool

datatype collab_error =
    BaseNotFound
  | InvalidEdit
  | TooLarge
  | TransformFailed
  | ApplyFailed
  | ReconstructFailed
  | IndexOutOfRange

definition HistoryLimit :: nat where
  "HistoryLimit = 128"

definition newDocument :: "ctext \<Rightarrow> 'op collab_document" where
  "newDocument content = \<lparr>cd_content = content, cd_revision = 0, cd_history = []\<rparr>"

definition replace_doc :: "ctext \<Rightarrow> 'op collab_document \<Rightarrow> 'op collab_document" where
  "replace_doc content d = \<lparr>cd_content = content, cd_revision = cd_revision d + 1, cd_history = []\<rparr>"

section \<open>UTF-16 offsets and fingerprints\<close>

text \<open>\<^verbatim>\<open>len\<close> of the Go string.\<close>

definition text_bytes :: "ctext \<Rightarrow> int" where
  "text_bytes t = int (sum_list (map rune_size t))"

fun UTF16Prefix_from :: "int \<Rightarrow> nat list \<Rightarrow> int list" where
  "UTF16Prefix_from n [] = [n]"
| "UTF16Prefix_from n (r # rs) = n # UTF16Prefix_from (if r > 65535 then n + 2 else n + 1) rs"

definition UTF16Prefix :: "nat list \<Rightarrow> int list" where
  "UTF16Prefix rs = UTF16Prefix_from 0 rs"

text \<open>\<^verbatim>\<open>sort.SearchInts\<close> on an increasing slice: the first index whose element is not smaller.\<close>

definition SearchInts :: "int list \<Rightarrow> int \<Rightarrow> nat" where
  "SearchInts xs x = length (takeWhile (\<lambda>y. y < x) xs)"

definition RuneOffset :: "int list \<Rightarrow> int \<Rightarrow> nat option" where
  "RuneOffset pfx off =
     (let i = SearchInts pfx off in if i < length pfx \<and> pfx ! i = off then Some i else None)"

definition UTF16Len :: "ctext \<Rightarrow> int" where
  "UTF16Len content = int (length (utf16_Encode content))"

fun hex_pad :: "nat \<Rightarrow> nat \<Rightarrow> string" where
  "hex_pad 0 n = []"
| "hex_pad (Suc k) n = hex_pad k (n div 16) @ [hex_digit (n mod 16)]"

definition hash_word :: "nat list \<Rightarrow> 32 word" where
  "hash_word units = fold (\<lambda>u h. h * 31 + of_nat u) units 0"

definition ContentHash :: "ctext \<Rightarrow> string" where
  "ContentHash content = hex_pad 8 (unat (hash_word (utf16_Encode content)))"

section \<open>Changes and operations\<close>

definition change_step ::
  "'op ot_lib \<Rightarrow> int list \<Rightarrow> 'op \<times> nat \<Rightarrow> text_edit \<Rightarrow> collab_error + 'op \<times> nat" where
  "change_step lib pfx st c =
     (let (op, cursor) = st
      in if te_offset c < 0 \<or> te_length c < 0 then Inl InvalidEdit
         else case RuneOffset pfx (te_offset c) of
                None \<Rightarrow> Inl InvalidEdit
              | Some start \<Rightarrow>
                  (case RuneOffset pfx (wrap64 (te_offset c + te_length c)) of
                     None \<Rightarrow> Inl InvalidEdit
                   | Some stop \<Rightarrow>
                       if start < cursor \<or> stop < start then Inl InvalidEdit
                       else Inr (ot_insert lib (ot_delete lib (ot_retain lib op (start - cursor)) (stop - start)) (te_text c), stop)))"

definition ChangesToOperation :: "'op ot_lib \<Rightarrow> ctext \<Rightarrow> text_edit list \<Rightarrow> collab_error + 'op" where
  "ChangesToOperation lib content changes =
     (if changes = [] then Inl InvalidEdit
      else rbind (fold_res (change_step lib (UTF16Prefix content)) (ot_new lib, 0) (sort_key te_offset changes))
                (\<lambda>(op, cursor). Inr (ot_retain lib op (length content - cursor))))"

definition flush :: "text_edit list \<Rightarrow> text_edit option \<Rightarrow> text_edit list" where
  "flush changes pending =
     (case pending of
        None \<Rightarrow> changes
      | Some p \<Rightarrow> if te_length p \<noteq> 0 \<or> te_text p \<noteq> [] then changes @ [p] else changes)"

definition pending_at :: "int list \<Rightarrow> string \<Rightarrow> nat \<Rightarrow> text_edit option \<Rightarrow> text_edit" where
  "pending_at pfx baseHash src pending =
     (case pending of
        Some p \<Rightarrow> p
      | None \<Rightarrow> \<lparr>te_offset = pfx ! src, te_length = 0, te_text = [], te_hash = baseHash, te_base_length = last pfx\<rparr>)"

definition op_step ::
  "int list \<Rightarrow> string \<Rightarrow> text_edit list \<times> nat \<times> text_edit option \<Rightarrow> ot_op
   \<Rightarrow> collab_error + text_edit list \<times> nat \<times> text_edit option" where
  "op_step pfx baseHash st raw =
     (let (changes, src, pending) = st; n = length pfx - 1
      in case raw of
           ORetain k \<Rightarrow> Inr (flush changes pending, src + k, None)
         | OInsert t \<Rightarrow>
             if pending = None \<and> src > n then Inl IndexOutOfRange
             else let p = pending_at pfx baseHash src pending
                  in Inr (changes, src, Some (p\<lparr>te_text := te_text p @ t\<rparr>))
         | ODelete k \<Rightarrow>
             if src + k > n then Inl InvalidEdit
             else let p = pending_at pfx baseHash src pending
                  in Inr (changes, src + k, Some (p\<lparr>te_length := te_length p + (pfx ! (src + k) - pfx ! src)\<rparr>)))"

definition OperationToChanges :: "'op ot_lib \<Rightarrow> ctext \<Rightarrow> 'op \<Rightarrow> collab_error + text_edit list" where
  "OperationToChanges lib content op =
     (if ot_base_len lib op \<noteq> length content then Inl InvalidEdit
      else rbind (fold_res (op_step (UTF16Prefix content) (ContentHash content)) ([], 0, None) (ot_ops lib op))
                (\<lambda>(changes, src, pending).
                   if src \<noteq> length content then Inl InvalidEdit else Inr (flush changes pending)))"

section \<open>The document\<close>

definition matches_base :: "string \<Rightarrow> int \<Rightarrow> 'op collab_operation \<Rightarrow> int option" where
  "matches_base baseHash baseLength h =
     (if co_base_hash h = baseHash \<and> co_base_length h = baseLength then Some (co_revision h - 1)
      else if co_target_hash h = baseHash \<and> co_target_len h = baseLength then Some (co_revision h)
      else None)"

fun find_base :: "string \<Rightarrow> int \<Rightarrow> 'op collab_operation list \<Rightarrow> int" where
  "find_base baseHash baseLength [] = - 1"
| "find_base baseHash baseLength (h # hs) =
     (case matches_base baseHash baseLength h of Some r \<Rightarrow> r | None \<Rightarrow> find_base baseHash baseLength hs)"

text \<open>The loop from the end of the history while the revision is newer than the base.\<close>

definition undo_step :: "'op ot_lib \<Rightarrow> ctext \<Rightarrow> 'op collab_operation \<Rightarrow> collab_error + ctext" where
  "undo_step lib content h =
     (case ot_apply lib (co_inverse h) content of None \<Rightarrow> Inl ReconstructFailed | Some c \<Rightarrow> Inr c)"

definition resolveBase :: "'op ot_lib \<Rightarrow> 'op collab_document \<Rightarrow> text_edit list \<Rightarrow> collab_error + int \<times> ctext" where
  "resolveBase lib d changes =
     (case changes of
        [] \<Rightarrow> Inl InvalidEdit
      | c # cs \<Rightarrow>
          let baseHash = te_hash c; baseLength = te_base_length c
          in if \<not> list_all (\<lambda>x. te_hash x = baseHash \<and> te_base_length x = baseLength) cs then Inl InvalidEdit
             else if baseHash = '''' then Inr (cd_revision d, cd_content d)
             else if baseLength < 0 then Inl InvalidEdit
             else if ContentHash (cd_content d) = baseHash \<and> UTF16Len (cd_content d) = baseLength
             then Inr (cd_revision d, cd_content d)
             else let baseRevision = find_base baseHash baseLength (cd_history d)
                  in if baseRevision < 0 then Inl BaseNotFound
                     else rbind (fold_res (undo_step lib) (cd_content d)
                                  (takeWhile (\<lambda>h. co_revision h > baseRevision) (rev (cd_history d))))
                            (\<lambda>base. if ContentHash base \<noteq> baseHash \<or> UTF16Len base \<noteq> baseLength then Inl BaseNotFound
                                    else Inr (baseRevision, base)))"

definition transform_step :: "'op ot_lib \<Rightarrow> int \<Rightarrow> 'op \<Rightarrow> 'op collab_operation \<Rightarrow> collab_error + 'op" where
  "transform_step lib baseRevision incoming h =
     (if co_revision h \<le> baseRevision then Inr incoming
      else case ot_transform lib incoming (co_forward h) of
             None \<Rightarrow> Inl TransformFailed
           | Some (transformed, _) \<Rightarrow> Inr transformed)"

definition record_operation :: "'op ot_lib \<Rightarrow> ctext \<Rightarrow> ctext \<Rightarrow> int \<Rightarrow> 'op \<Rightarrow> 'op collab_operation" where
  "record_operation lib current nxt revision op =
     \<lparr>co_revision = revision, co_base_hash = ContentHash current, co_base_length = UTF16Len current,
      co_target_hash = ContentHash nxt, co_target_len = UTF16Len nxt,
      co_forward = op, co_inverse = ot_invert lib op current\<rparr>"

definition applyMonacoChanges ::
  "'op ot_lib \<Rightarrow> 'op collab_document \<Rightarrow> text_edit list \<Rightarrow> int \<Rightarrow> collab_error + collab_result \<times> 'op collab_document" where
  "applyMonacoChanges lib d changes maxBytes =
     rbind (resolveBase lib d changes) (\<lambda>(baseRevision, baseContent).
     rbind (ChangesToOperation lib baseContent changes) (\<lambda>first.
     rbind (fold_res (transform_step lib baseRevision) first (cd_history d)) (\<lambda>incoming.
     let current = cd_content d
     in rbind (OperationToChanges lib current incoming) (\<lambda>normalized.
        case ot_apply lib incoming current of
          None \<Rightarrow> Inl ApplyFailed
        | Some nxt \<Rightarrow>
            if maxBytes > 0 \<and> text_bytes nxt > maxBytes then Inl TooLarge
            else let revision = cd_revision d + 1;
                     history = cd_history d @ [record_operation lib current nxt revision incoming]
                 in Inr (\<lparr>cr_changes = normalized, cr_revision = revision, cr_transformed = (baseRevision \<noteq> revision - 1)\<rparr>,
                         \<lparr>cd_content = nxt, cd_revision = revision,
                          cd_history = drop (length history - HistoryLimit) history\<rparr>)))))"

section \<open>The timeline of a document\<close>

text \<open>\<open>timeline lib c hs c'\<close>: the recorded operations lead from content \<open>c\<close> to content \<open>c'\<close>.\<close>

fun timeline :: "'op ot_lib \<Rightarrow> ctext \<Rightarrow> 'op collab_operation list \<Rightarrow> ctext \<Rightarrow> bool" where
  "timeline lib c [] c' = (c = c')"
| "timeline lib c (h # hs) c' =
     (case ot_apply lib (co_forward h) c of
        None \<Rightarrow> False
      | Some m \<Rightarrow> h = record_operation lib c m (co_revision h) (co_forward h) \<and> timeline lib m hs c')"

definition revisions_ok :: "int \<Rightarrow> 'op collab_operation list \<Rightarrow> bool" where
  "revisions_ok revision hs \<longleftrightarrow> map co_revision hs = [revision - int (length hs) + 1 .. revision]"

definition doc_ok :: "'op ot_lib \<Rightarrow> 'op collab_document \<Rightarrow> bool" where
  "doc_ok lib d \<longleftrightarrow>
     length (cd_history d) \<le> HistoryLimit \<and> revisions_ok (cd_revision d) (cd_history d) \<and>
     (\<exists>c. timeline lib c (cd_history d) (cd_content d))"

text \<open>
  What the library documents. An operation is its list of components: executing them over a
  text consumes what they retain and delete, and yields what they retain and insert. The
  builders append a component, up to a normalisation that keeps the effect. \<^verbatim>\<open>Apply\<close> fails
  on a text of another length, inverses undo, and transformation closes the square.
\<close>

fun exec_ops :: "ot_op list \<Rightarrow> ctext \<Rightarrow> (ctext \<times> ctext) option" where
  "exec_ops [] s = Some ([], s)"
| "exec_ops (ORetain n # ops) s =
     (if length s < n then None else map_option (apfst ((@) (take n s))) (exec_ops ops (drop n s)))"
| "exec_ops (OInsert t # ops) s = map_option (apfst ((@) t)) (exec_ops ops s)"
| "exec_ops (ODelete n # ops) s = (if length s < n then None else exec_ops ops (drop n s))"

fun consumed :: "ot_op list \<Rightarrow> nat" where
  "consumed [] = 0"
| "consumed (ORetain n # ops) = n + consumed ops"
| "consumed (OInsert t # ops) = consumed ops"
| "consumed (ODelete n # ops) = n + consumed ops"

definition ot_builds :: "'op ot_lib \<Rightarrow> 'op \<Rightarrow> 'op \<Rightarrow> ot_op \<Rightarrow> bool" where
  "ot_builds lib op' op c \<longleftrightarrow> (\<forall>s. exec_ops (ot_ops lib op') s = exec_ops (ot_ops lib op @ [c]) s)"

definition ot_laws :: "'op ot_lib \<Rightarrow> bool" where
  "ot_laws lib \<longleftrightarrow>
     ot_ops lib (ot_new lib) = [] \<and>
     (\<forall>op n. ot_builds lib (ot_retain lib op n) op (ORetain n)) \<and>
     (\<forall>op n. ot_builds lib (ot_delete lib op n) op (ODelete n)) \<and>
     (\<forall>op t. ot_builds lib (ot_insert lib op t) op (OInsert t)) \<and>
     (\<forall>op. ot_base_len lib op = consumed (ot_ops lib op)) \<and>
     (\<forall>op s. ot_apply lib op s = (case exec_ops (ot_ops lib op) s of Some (t, []) \<Rightarrow> Some t | _ \<Rightarrow> None)) \<and>
     (\<forall>op s t. ot_apply lib op s = Some t \<longrightarrow> ot_apply lib (ot_invert lib op s) t = Some s) \<and>
     (\<forall>a b a' b' s u v. ot_apply lib a s = Some u \<longrightarrow> ot_apply lib b s = Some v \<longrightarrow> ot_transform lib a b = Some (a', b') \<longrightarrow>
        (\<exists>w. ot_apply lib b' u = Some w \<and> ot_apply lib a' v = Some w))"

lemma ot_laws_invert: "ot_laws lib \<Longrightarrow> ot_apply lib op s = Some t \<Longrightarrow> ot_apply lib (ot_invert lib op s) t = Some s"
  unfolding ot_laws_def by (elim conjE) blast

lemma ot_laws_transform:
  "ot_laws lib \<Longrightarrow> ot_apply lib a s = Some u \<Longrightarrow> ot_apply lib b s = Some v \<Longrightarrow> ot_transform lib a b = Some (a', b') \<Longrightarrow>
   \<exists>w. ot_apply lib b' u = Some w \<and> ot_apply lib a' v = Some w"
  unfolding ot_laws_def by (elim conjE) blast

lemma timeline_append:
  "timeline lib c (xs @ ys) c' \<longleftrightarrow> (\<exists>m. timeline lib c xs m \<and> timeline lib m ys c')"
  by (induction xs arbitrary: c) (auto split: option.splits)

lemma timeline_snoc:
  "timeline lib c hs m \<Longrightarrow> ot_apply lib op m = Some n \<Longrightarrow> timeline lib c (hs @ [record_operation lib m n revision op]) n"
  by (auto simp: timeline_append record_operation_def)

lemma undo_timeline:
  assumes "ot_laws lib" and "timeline lib c hs c'"
  shows "fold_res (undo_step lib) c' (rev hs) = Inr c"
  using assms(2)
proof (induction hs arbitrary: c' rule: rev_induct)
  case (snoc h hs)
  then obtain m where m: "timeline lib c hs m" "timeline lib m [h] c'" by (auto simp: timeline_append)
  then have "ot_apply lib (co_forward h) m = Some c'" "co_inverse h = ot_invert lib (co_forward h) m"
    by (auto simp: record_operation_def split: option.splits dest: arg_cong [of _ _ co_inverse])
  then have "undo_step lib c' h = Inr m" using ot_laws_invert [OF assms(1)] by (auto simp: undo_step_def)
  with snoc.IH [OF m(1)] show ?case by simp
qed simp

text \<open>Consecutive revisions: the entries newer than a revision are a suffix.\<close>

lemma revisions_split:
  assumes "revisions_ok r hs"
  obtains xs ys where "hs = xs @ ys" "rev ys = takeWhile (\<lambda>h. co_revision h > b) (rev hs)"
    "\<forall>h \<in> set xs. co_revision h \<le> b" "\<forall>h \<in> set ys. co_revision h > b"
proof -
  have "sorted (map co_revision hs)" using assms by (simp add: revisions_ok_def)
  define ys where "ys = rev (takeWhile (\<lambda>h. co_revision h > b) (rev hs))"
  define xs where "xs = rev (dropWhile (\<lambda>h. co_revision h > b) (rev hs))"
  have split: "hs = xs @ ys" unfolding xs_def ys_def by (metis rev_append rev_rev_ident takeWhile_dropWhile_id)
  have "co_revision h \<le> b" if "h \<in> set xs" for h
  proof -
    from that have ne: "dropWhile (\<lambda>h. co_revision h > b) (rev hs) \<noteq> []" unfolding xs_def set_rev
      by (intro notI) (simp only: list.set empty_iff)
    define z where "z = hd (dropWhile (\<lambda>h. co_revision h > b) (rev hs))"
    have z: "\<not> co_revision z > b" unfolding z_def using ne by (rule hd_dropWhile)
    obtain zs where zs: "xs = zs @ [z]" unfolding xs_def z_def using ne by (metis hd_Cons_tl rev.simps(2))
    have "sorted (map co_revision (zs @ [z]))" using \<open>sorted (map co_revision hs)\<close> unfolding split zs by (simp add: sorted_append)
    then have "co_revision h \<le> co_revision z" using that zs by (auto simp: sorted_append)
    with z show ?thesis by simp
  qed
  moreover have "\<forall>h \<in> set ys. co_revision h > b" unfolding ys_def by (auto dest: set_takeWhileD)
  moreover have "rev ys = takeWhile (\<lambda>h. co_revision h > b) (rev hs)" by (simp only: ys_def rev_rev_ident)
  ultimately show thesis using that split by blast
qed

text \<open>The base that \<^verbatim>\<open>resolveBase\<close> returns is on the timeline.\<close>

lemma resolveBase_timeline:
  assumes "ot_laws lib" "doc_ok lib d" "resolveBase lib d changes = Inr (b, base)"
  obtains c xs ys where "cd_history d = xs @ ys" "timeline lib c xs base" "timeline lib base ys (cd_content d)"
    "\<forall>h \<in> set xs. co_revision h \<le> b" "\<forall>h \<in> set ys. co_revision h > b"
proof -
  from assms(2) obtain c where tl: "timeline lib c (cd_history d) (cd_content d)" and ok: "revisions_ok (cd_revision d) (cd_history d)"
    by (auto simp: doc_ok_def)
  have revs: "co_revision h \<le> cd_revision d" if "h \<in> set (cd_history d)" for h
  proof -
    have "co_revision h \<in> set (map co_revision (cd_history d))" using that by simp
    then show ?thesis using ok unfolding revisions_ok_def by simp
  qed
  from assms(3) consider "b = cd_revision d" "base = cd_content d"
    | "fold_res (undo_step lib) (cd_content d) (takeWhile (\<lambda>h. co_revision h > b) (rev (cd_history d))) = Inr base"
    by (auto simp: resolveBase_def Let_def rbind_Inr_iff split: list.splits if_splits)
  then show thesis
  proof cases
    case 1
    with tl revs that [of "cd_history d" "[]" c] show thesis by simp
  next
    case 2
    from revisions_split [OF ok, of b] obtain xs ys where s: "cd_history d = xs @ ys"
      "rev ys = takeWhile (\<lambda>h. co_revision h > b) (rev (cd_history d))"
      "\<forall>h \<in> set xs. co_revision h \<le> b" "\<forall>h \<in> set ys. co_revision h > b" .
    from tl s(1) obtain m where m: "timeline lib c xs m" "timeline lib m ys (cd_content d)" by (auto simp: timeline_append)
    from undo_timeline [OF assms(1) m(2)] 2 s(2) have "base = m" by simp
    with s m that show thesis by blast
  qed
qed

text \<open>Transforming through the newer operations closes one square per operation.\<close>

fun apply_all :: "'op ot_lib \<Rightarrow> 'op list \<Rightarrow> ctext \<Rightarrow> ctext option" where
  "apply_all lib [] s = Some s"
| "apply_all lib (op # ops) s = (case ot_apply lib op s of None \<Rightarrow> None | Some t \<Rightarrow> apply_all lib ops t)"

lemma transform_timeline:
  assumes "ot_laws lib" "timeline lib base ys c'" "\<forall>h \<in> set ys. co_revision h > b"
    "fold_res (transform_step lib b) op ys = Inr op'" "ot_apply lib op base = Some u"
  shows "\<exists>ops w. length ops = length ys \<and> ot_apply lib op' c' = Some w \<and> apply_all lib ops u = Some w"
  using assms(2-5)
proof (induction ys arbitrary: base op u)
  case Nil
  then show ?case by simp
next
  case (Cons h ys)
  then obtain m where m: "ot_apply lib (co_forward h) base = Some m" "timeline lib m ys c'" by (auto split: option.splits)
  from Cons.prems(3) obtain a' where a': "transform_step lib b op h = Inr a'" "fold_res (transform_step lib b) a' ys = Inr op'"
    by (auto split: sum.splits)
  have "\<not> co_revision h \<le> b" using Cons.prems(2) by simp
  with a'(1) obtain b' where t: "ot_transform lib op (co_forward h) = Some (a', b')"
    unfolding transform_step_def by (auto split: option.splits)
  from ot_laws_transform [OF assms(1) Cons.prems(4) m(1) t] obtain w where w: "ot_apply lib b' u = Some w" "ot_apply lib a' m = Some w" by blast
  have "\<forall>h \<in> set ys. co_revision h > b" using Cons.prems(2) by simp
  from Cons.IH [OF m(2) this a'(2) w(2)] obtain ops w' where
    "length ops = length ys" "ot_apply lib op' c' = Some w'" "apply_all lib ops w = Some w'" by blast
  with w(1) have "length (b' # ops) = length (h # ys) \<and> ot_apply lib op' c' = Some w' \<and> apply_all lib (b' # ops) u = Some w'" by simp
  then show ?case by blast
qed

lemma transform_old:
  "\<forall>h \<in> set xs. co_revision h \<le> b \<Longrightarrow> fold_res (transform_step lib b) op xs = Inr op"
  by (induction xs) (auto simp: transform_step_def)

lemma applyMonacoChanges_InrD:
  assumes "applyMonacoChanges lib d changes maxBytes = Inr (res, d')"
  obtains b base op op' nxt where "resolveBase lib d changes = Inr (b, base)" "ChangesToOperation lib base changes = Inr op"
    "fold_res (transform_step lib b) op (cd_history d) = Inr op'" "OperationToChanges lib (cd_content d) op' = Inr (cr_changes res)"
    "ot_apply lib op' (cd_content d) = Some nxt" "maxBytes > 0 \<longrightarrow> text_bytes nxt \<le> maxBytes"
    "cd_content d' = nxt" "cd_revision d' = cd_revision d + 1" "cr_revision res = cd_revision d'"
    "cd_history d' = (let h = cd_history d @ [record_operation lib (cd_content d) nxt (cd_revision d + 1) op'] in drop (length h - HistoryLimit) h)"
  using assms by (auto simp: applyMonacoChanges_def rbind_Inr_iff Let_def split: option.splits if_splits)

lemma drop_upto: "drop n [i..j] = [i + int n..j]"
  by (rule nth_equalityI) (auto simp: nth_upto)

lemma revisions_drop:
  assumes "revisions_ok r hs"
  shows "revisions_ok r (drop n hs)"
proof (cases "n \<le> length hs")
  case True
  have "map co_revision (drop n hs) = drop n [r - int (length hs) + 1 .. r]"
    using assms by (simp only: revisions_ok_def drop_map [symmetric])
  with True show ?thesis by (simp add: revisions_ok_def drop_upto of_nat_diff algebra_simps)
qed (simp add: revisions_ok_def)

lemma revisions_snoc:
  assumes "revisions_ok r hs" "co_revision h = r + 1"
  shows "revisions_ok (r + 1) (hs @ [h])"
  using assms by (simp add: revisions_ok_def upto_rec2)

lemma timeline_drop: "timeline lib c hs c' \<Longrightarrow> \<exists>m. timeline lib m (drop n hs) c'"
  by (metis append_take_drop_id timeline_append)

lemma applyMonacoChanges_doc_ok:
  assumes "doc_ok lib d" "applyMonacoChanges lib d changes maxBytes = Inr (res, d')"
  shows "doc_ok lib d'"
proof -
  from assms(2) obtain b base op op' nxt where
    a: "ot_apply lib op' (cd_content d) = Some nxt" "cd_content d' = nxt" "cd_revision d' = cd_revision d + 1"
    and h: "cd_history d' = (let h = cd_history d @ [record_operation lib (cd_content d) nxt (cd_revision d + 1) op'] in drop (length h - HistoryLimit) h)"
    by (rule applyMonacoChanges_InrD)
  let ?h = "cd_history d @ [record_operation lib (cd_content d) nxt (cd_revision d + 1) op']"
  from assms(1) obtain c where "timeline lib c (cd_history d) (cd_content d)" "revisions_ok (cd_revision d) (cd_history d)"
    by (auto simp: doc_ok_def)
  then have "timeline lib c ?h nxt" "revisions_ok (cd_revision d + 1) ?h"
    using a(1) by (auto intro: timeline_snoc intro!: revisions_snoc) (simp add: record_operation_def)
  note t = timeline_drop [OF this(1), of "length ?h - HistoryLimit"] revisions_drop [OF this(2), of "length ?h - HistoryLimit"]
  have "cd_history d' = drop (length ?h - HistoryLimit) ?h" using h by (simp only: Let_def)
  with t a show ?thesis unfolding doc_ok_def by (simp only: length_drop) auto
qed

section \<open>The effect of changes\<close>

text \<open>
  The editor replaces ranges that are measured in UTF-16 units: two for a code point above
  U+FFFF, one otherwise.
\<close>

definition units :: "nat \<Rightarrow> nat" where
  "units r = (if r > 65535 then 2 else 1)"

definition ulen :: "ctext \<Rightarrow> nat" where
  "ulen t = sum_list (map units t)"

fun take_units :: "nat \<Rightarrow> ctext \<Rightarrow> ctext" where
  "take_units n [] = []"
| "take_units n (r # rs) = (if units r \<le> n then r # take_units (n - units r) rs else [])"

definition drop_units :: "nat \<Rightarrow> ctext \<Rightarrow> ctext" where
  "drop_units n t = drop (length (take_units n t)) t"

definition monaco_replace :: "text_edit \<Rightarrow> ctext \<Rightarrow> ctext" where
  "monaco_replace e t = take_units (nat (te_offset e)) t @ te_text e @ drop_units (nat (te_offset e + te_length e)) t"

text \<open>All ranges refer to the text before the edit, so the last range is replaced first.\<close>

definition monaco_apply :: "text_edit list \<Rightarrow> ctext \<Rightarrow> ctext" where
  "monaco_apply es t = foldr monaco_replace (sort_key te_offset es) t"

lemma units_pos [simp]: "0 < units r"
  by (simp add: units_def)

lemma ulen_simps [simp]: "ulen [] = 0" "ulen (r # rs) = units r + ulen rs" "ulen (xs @ ys) = ulen xs + ulen ys"
  by (simp_all add: ulen_def)

lemma units_utf16: "r \<le> 1114111 \<Longrightarrow> units r = length (utf16_units r)"
  by (simp add: units_def utf16_units.simps)

lemma take_units_0 [simp]: "take_units 0 t = []"
  by (cases t) auto

lemma take_units_append: "take_units (ulen a) (a @ b) = a"
  by (induction a) auto

lemma drop_units_append: "drop_units (ulen a) (a @ b) = b"
  by (simp add: drop_units_def take_units_append)

lemma UTF16Prefix_from_nth: "i \<le> length t \<Longrightarrow> UTF16Prefix_from n t ! i = n + int (ulen (take i t))"
  by (induction t arbitrary: n i) (auto simp: units_def nth_Cons split: nat.splits)

lemma length_UTF16Prefix_from [simp]: "length (UTF16Prefix_from n t) = Suc (length t)"
  by (induction t arbitrary: n) auto

lemma UTF16Prefix_nth: "i \<le> length t \<Longrightarrow> UTF16Prefix t ! i = int (ulen (take i t))"
  by (simp add: UTF16Prefix_def UTF16Prefix_from_nth)

lemma length_UTF16Prefix [simp]: "length (UTF16Prefix t) = Suc (length t)"
  by (simp add: UTF16Prefix_def)

lemma RuneOffset_Some:
  "RuneOffset (UTF16Prefix t) off = Some i \<Longrightarrow> i \<le> length t \<and> off = int (ulen (take i t))"
  by (auto simp: RuneOffset_def Let_def UTF16Prefix_nth split: if_splits)

lemma ulen_take_mono: "i \<le> j \<Longrightarrow> ulen (take i t) \<le> ulen (take j t)"
  by (metis le_add1 le_iff_add take_add ulen_simps(3))

text \<open>Left to right: the output of a list of replacements in code point positions.\<close>

type_synonym rune_edit = "nat \<times> nat \<times> ctext"

fun left_right :: "nat \<Rightarrow> rune_edit list \<Rightarrow> ctext \<Rightarrow> ctext" where
  "left_right cursor [] t = drop cursor t"
| "left_right cursor ((a, b, x) # es) t = take (a - cursor) (drop cursor t) @ x @ left_right b es t"

fun ordered :: "nat \<Rightarrow> rune_edit list \<Rightarrow> nat \<Rightarrow> bool" where
  "ordered cursor [] n = (cursor \<le> n)"
| "ordered cursor ((a, b, x) # es) n = (cursor \<le> a \<and> a \<le> b \<and> ordered b es n)"

definition edit_at :: "ctext \<Rightarrow> text_edit \<Rightarrow> rune_edit \<Rightarrow> bool" where
  "edit_at t e r \<longleftrightarrow>
     te_offset e = int (ulen (take (fst r) t)) \<and> te_offset e + te_length e = int (ulen (take (fst (snd r)) t)) \<and> te_text e = snd (snd r)"

lemma ordered_le: "ordered c es n \<Longrightarrow> c \<le> n"
  by (induction c es n rule: ordered.induct) auto

lemma take_prefix: "a \<le> b \<Longrightarrow> take b t = take a t @ take (b - a) (drop a t)"
  by (metis le_add_diff_inverse take_add)

lemma right_left_eq:
  "list_all2 (edit_at t) es rs \<Longrightarrow> ordered c rs (length t) \<Longrightarrow> foldr monaco_replace es t = take c t @ left_right c rs t"
proof (induction es arbitrary: c rs)
  case Nil
  then show ?case by simp
next
  case (Cons e es)
  then obtain a b x rs' where rs: "rs = (a, b, x) # rs'" by (auto simp: list_all2_Cons1)
  with Cons.prems have e: "edit_at t e (a, b, x)" and es: "list_all2 (edit_at t) es rs'" "ordered b rs' (length t)" and ab: "c \<le> a" "a \<le> b" by auto
  have ih: "foldr monaco_replace es t = take b t @ left_right b rs' t" using Cons.IH [OF es] .
  have "take_units (ulen (take a t)) (take b t @ left_right b rs' t) = take a t"
    using take_units_append [of "take a t"] take_prefix [OF ab(2), of t] by simp
  moreover have "drop_units (ulen (take b t)) (take b t @ left_right b rs' t) = left_right b rs' t" by (rule drop_units_append)
  moreover from e have "te_offset e = int (ulen (take a t))" and stop: "te_offset e + te_length e = int (ulen (take b t))" and "te_text e = x"
    unfolding edit_at_def fst_conv snd_conv by blast+
  moreover have "nat (te_offset e + te_length e) = ulen (take b t)" unfolding stop by simp
  ultimately have "foldr monaco_replace (e # es) t = take a t @ x @ left_right b rs' t"
    by (simp only: monaco_replace_def ih foldr.simps o_apply nat_int)
  then show ?case using take_prefix [OF ab(1), of t] rs by simp
qed

lemma exec_append:
  "exec_ops (xs @ ys) s = (case exec_ops xs s of None \<Rightarrow> None | Some (out, rest) \<Rightarrow> map_option (apfst ((@) out)) (exec_ops ys rest))"
proof -
  have nil: "apfst ((@) []) = (\<lambda>p :: ctext \<times> ctext. p)" by (auto simp: fun_eq_iff)
  have app: "apfst ((@) (a @ b)) = apfst ((@) a) \<circ> (apfst ((@) b) :: ctext \<times> ctext \<Rightarrow> ctext \<times> ctext)" for a b by (auto simp: fun_eq_iff)
  show ?thesis
    by (induction xs s rule: exec_ops.induct) (auto simp: nil app option.map_comp option.map_ident split: option.splits)
qed

lemma exec_build:
  assumes "ot_laws lib" "exec_ops (ot_ops lib op) t = Some (out, drop c t)" "c + n \<le> length t"
  shows "exec_ops (ot_ops lib (ot_retain lib op n)) t = Some (out @ take n (drop c t), drop (c + n) t)"
    "exec_ops (ot_ops lib (ot_delete lib op n)) t = Some (out, drop (c + n) t)"
    "exec_ops (ot_ops lib (ot_insert lib op x)) t = Some (out @ x, drop c t)"
proof -
  have "ot_builds lib (ot_retain lib op n) op (ORetain n)" "ot_builds lib (ot_delete lib op n) op (ODelete n)"
    "ot_builds lib (ot_insert lib op x) op (OInsert x)"
    using assms(1) by (simp_all add: ot_laws_def)
  with assms(2,3) show "exec_ops (ot_ops lib (ot_retain lib op n)) t = Some (out @ take n (drop c t), drop (c + n) t)"
    "exec_ops (ot_ops lib (ot_delete lib op n)) t = Some (out, drop (c + n) t)"
    "exec_ops (ot_ops lib (ot_insert lib op x)) t = Some (out @ x, drop c t)"
    by (simp_all add: ot_builds_def exec_append add.commute)
qed

text \<open>Offsets and lengths are 64-bit integers.\<close>

definition edit_range :: "text_edit \<Rightarrow> bool" where
  "edit_range e \<longleftrightarrow> in_i64 (te_offset e) \<and> in_i64 (te_length e)"

lemma wrap64_nonneg:
  assumes "in_i64 a" "in_i64 b" "0 \<le> a" "0 \<le> b" "0 \<le> wrap64 (a + b)"
  shows "wrap64 (a + b) = a + b"
proof (rule ccontr)
  assume "wrap64 (a + b) \<noteq> a + b"
  then have "\<not> in_i64 (a + b)" by (simp add: wrap64_eq_iff)
  then have big: "9223372036854775808 \<le> a + b" "a + b \<le> 18446744073709551614"
    using assms(1-4) by (auto simp: in_i64_def min_i64_def max_i64_def)
  then have "(a + b + 9223372036854775808) mod 18446744073709551616 = a + b - 9223372036854775808"
    using mod_pos_pos_trivial [of "a + b - 9223372036854775808" 18446744073709551616]
      mod_add_self2 [of "a + b - 9223372036854775808" 18446744073709551616] by (simp add: algebra_simps)
  with big assms(5) show False by (simp add: wrap64_def)
qed

lemma change_step_InrD:
  assumes "change_step lib (UTF16Prefix t) (op, cursor) e = Inr (op', cursor')" "edit_range e"
  obtains a where "edit_at t e (a, cursor', te_text e)" "cursor \<le> a" "a \<le> cursor'" "cursor' \<le> length t"
    "op' = ot_insert lib (ot_delete lib (ot_retain lib op (a - cursor)) (cursor' - a)) (te_text e)"
proof -
  from assms(1) obtain a where a: "RuneOffset (UTF16Prefix t) (te_offset e) = Some a"
    "RuneOffset (UTF16Prefix t) (wrap64 (te_offset e + te_length e)) = Some cursor'" "0 \<le> te_offset e" "0 \<le> te_length e"
    "cursor \<le> a" "a \<le> cursor'" "op' = ot_insert lib (ot_delete lib (ot_retain lib op (a - cursor)) (cursor' - a)) (te_text e)"
    by (auto simp: change_step_def split: if_splits option.splits)
  note r = RuneOffset_Some [OF a(1)] RuneOffset_Some [OF a(2)]
  then have "wrap64 (te_offset e + te_length e) = te_offset e + te_length e"
    using assms(2) a(3,4) wrap64_nonneg [of "te_offset e" "te_length e"] by (simp add: edit_range_def)
  with r have "edit_at t e (a, cursor', te_text e)" by (simp add: edit_at_def)
  with a r that show thesis by blast
qed

lemma changes_fold:
  assumes "ot_laws lib"
  shows "fold_res (change_step lib (UTF16Prefix t)) (op, cursor) es = Inr (op', cursor') \<Longrightarrow> list_all edit_range es \<Longrightarrow>
    cursor \<le> length t \<Longrightarrow> exec_ops (ot_ops lib op) t = Some (out, drop cursor t) \<Longrightarrow>
    \<exists>rs out'. list_all2 (edit_at t) es rs \<and> ordered cursor rs (length t) \<and> cursor' \<le> length t \<and>
      exec_ops (ot_ops lib op') t = Some (out', drop cursor' t) \<and> out' @ drop cursor' t = out @ left_right cursor rs t"
proof (induction es arbitrary: op cursor out)
  case Nil
  then show ?case by (intro exI [of _ "[]"] exI [of _ out]) simp
next
  case (Cons e es)
  then obtain op1 c1 where s: "change_step lib (UTF16Prefix t) (op, cursor) e = Inr (op1, c1)"
    "fold_res (change_step lib (UTF16Prefix t)) (op1, c1) es = Inr (op', cursor')"
    by (auto split: sum.splits)
  from Cons.prems(2) have rng: "edit_range e" "list_all edit_range es" by simp_all
  from s(1) rng(1) obtain a where a: "edit_at t e (a, c1, te_text e)" "cursor \<le> a" "a \<le> c1" "c1 \<le> length t"
    "op1 = ot_insert lib (ot_delete lib (ot_retain lib op (a - cursor)) (c1 - a)) (te_text e)"
    by (rule change_step_InrD)
  let ?out = "out @ take (a - cursor) (drop cursor t)"
  have "exec_ops (ot_ops lib (ot_retain lib op (a - cursor))) t = Some (?out, drop a t)"
    using exec_build(1) [OF assms Cons.prems(4), of "a - cursor"] a by simp
  from exec_build(2) [OF assms this, of "c1 - a"] a
  have "exec_ops (ot_ops lib (ot_delete lib (ot_retain lib op (a - cursor)) (c1 - a))) t = Some (?out, drop c1 t)" by simp
  from exec_build(3) [OF assms this, of 0] a
  have "exec_ops (ot_ops lib op1) t = Some (?out @ te_text e, drop c1 t)" by simp
  from Cons.IH [OF s(2) rng(2) a(4) this] obtain rs out' where rs: "list_all2 (edit_at t) es rs" "ordered c1 rs (length t)"
    "cursor' \<le> length t" "exec_ops (ot_ops lib op') t = Some (out', drop cursor' t)"
    "out' @ drop cursor' t = (?out @ te_text e) @ left_right c1 rs t" by blast
  with a show ?case by (intro exI [of _ "(a, c1, te_text e) # rs"] exI [of _ out']) simp
qed

lemma ChangesToOperation_effect:
  assumes "ot_laws lib" "ChangesToOperation lib t changes = Inr op" "list_all edit_range changes"
  shows "ot_apply lib op t = Some (monaco_apply changes t)"
proof -
  from assms(2) obtain op1 c where f: "fold_res (change_step lib (UTF16Prefix t)) (ot_new lib, 0) (sort_key te_offset changes) = Inr (op1, c)"
    and op: "op = ot_retain lib op1 (length t - c)"
    by (auto simp: ChangesToOperation_def rbind_Inr_iff split: if_splits)
  have "list_all edit_range (sort_key te_offset changes)" using assms(3) by (simp add: list_all_iff)
  moreover have "exec_ops (ot_ops lib (ot_new lib)) t = Some ([], drop 0 t)" using assms(1) by (simp add: ot_laws_def)
  ultimately obtain rs out where r: "list_all2 (edit_at t) (sort_key te_offset changes) rs" "ordered 0 rs (length t)" "c \<le> length t"
    "exec_ops (ot_ops lib op1) t = Some (out, drop c t)" "out @ drop c t = left_right 0 rs t"
    using changes_fold [OF assms(1) f] by fastforce
  have "exec_ops (ot_ops lib op) t = Some (left_right 0 rs t, [])"
    unfolding op using exec_build(1) [OF assms(1) r(4), of "length t - c"] r(3,5) by simp
  moreover have "ot_apply lib op t = (case exec_ops (ot_ops lib op) t of Some (u, []) \<Rightarrow> Some u | _ \<Rightarrow> None)"
    using assms(1) unfolding ot_laws_def by (elim conjE) blast
  ultimately show ?thesis using right_left_eq [OF r(1,2)] by (simp add: monaco_apply_def)
qed

section \<open>The changes that are broadcast\<close>

lemma left_right_snoc:
  assumes "ordered c rs a" "a \<le> length t"
  obtains L where "left_right c rs t = L @ drop a t" "\<And>b x. left_right c (rs @ [(a, b, x)]) t = L @ x @ drop b t"
proof -
  have "\<exists>L. left_right c rs t = L @ drop a t \<and> (\<forall>b x. left_right c (rs @ [(a, b, x)]) t = L @ x @ drop b t)"
    using assms
  proof (induction c rs a rule: ordered.induct)
    case (1 c a)
    then have "drop c t = take (a - c) (drop c t) @ drop a t" by (metis add_diff_inverse_nat append_take_drop_id drop_drop le_add_diff_inverse2 not_less ordered.simps(1))
    then show ?case by (intro exI [of _ "take (a - c) (drop c t)"]) simp
  next
    case (2 c a' b' x' es a)
    then obtain L where "left_right b' es t = L @ drop a t" "\<forall>b x. left_right b' (es @ [(a, b, x)]) t = L @ x @ drop b t" by auto
    then show ?case by (intro exI [of _ "take (a' - c) (drop c t) @ x' @ L"]) simp
  qed
  then show thesis using that by blast
qed

lemma ordered_snoc: "ordered c (rs @ [(a, b, x)]) n \<longleftrightarrow> ordered c rs a \<and> a \<le> b \<and> b \<le> n"
  by (induction c rs n rule: ordered.induct) auto

lemma ordered_mono: "ordered c rs m \<Longrightarrow> m \<le> n \<Longrightarrow> ordered c rs n"
  by (induction c rs m rule: ordered.induct) auto

text \<open>The state of the loop: finished and pending changes, and the output so far.\<close>

definition pending_edits :: "ctext \<Rightarrow> nat \<Rightarrow> text_edit option \<Rightarrow> rune_edit list \<Rightarrow> bool" where
  "pending_edits t src pending prs =
     (case pending of
        None \<Rightarrow> prs = []
      | Some p \<Rightarrow> \<exists>a. prs = [(a, src, te_text p)] \<and> edit_at t p (a, src, te_text p))"

definition loop_inv :: "ctext \<Rightarrow> text_edit list \<Rightarrow> nat \<Rightarrow> text_edit option \<Rightarrow> ctext \<Rightarrow> bool" where
  "loop_inv t changes src pending out \<longleftrightarrow>
     (\<exists>rs prs. list_all2 (edit_at t) changes rs \<and> pending_edits t src pending prs \<and> src \<le> length t \<and>
        ordered 0 (rs @ prs) src \<and> out @ drop src t = left_right 0 (rs @ prs) t)"

lemma ulen_take_less: "a < b \<Longrightarrow> b \<le> length t \<Longrightarrow> ulen (take a t) < ulen (take b t)"
proof -
  assume "a < b" "b \<le> length t"
  then have "take b t = take a t @ take (b - a) (drop a t)" "take (b - a) (drop a t) \<noteq> []" by (auto simp: take_prefix)
  moreover have "0 < ulen xs" if "xs \<noteq> []" for xs using that by (cases xs) auto
  ultimately show ?thesis by (metis less_add_same_cancel1 ulen_simps(3))
qed

lemma loop_flush:
  assumes "loop_inv t changes src pending out"
  shows "loop_inv t (flush changes pending) src None out"
proof -
  from assms obtain rs prs where i: "list_all2 (edit_at t) changes rs" "pending_edits t src pending prs" "src \<le> length t"
    "ordered 0 (rs @ prs) src" "out @ drop src t = left_right 0 (rs @ prs) t" by (auto simp: loop_inv_def)
  show ?thesis
  proof (cases pending)
    case None
    with assms show ?thesis by (simp add: flush_def)
  next
    case (Some p)
    with i(2) obtain a where a: "prs = [(a, src, te_text p)]" "edit_at t p (a, src, te_text p)" by (auto simp: pending_edits_def)
    show ?thesis
    proof (cases "te_length p \<noteq> 0 \<or> te_text p \<noteq> []")
      case True
      with Some i a show ?thesis
        unfolding loop_inv_def pending_edits_def flush_def
        by (intro exI [of _ "rs @ prs"] exI [of _ "[]"]) (auto intro: list_all2_appendI)
    next
      case False
      with a have "ulen (take a t) = ulen (take src t)" "te_text p = []" by (auto simp: edit_at_def)
      moreover have "a \<le> src" using i(4) a(1) by (simp add: ordered_snoc)
      ultimately have eq: "a = src" using ulen_take_less [of a src t] i(3) by (cases "a < src") auto
      have ord: "ordered 0 rs src" using i(4) a(1) eq by (simp add: ordered_snoc)
      from left_right_snoc [OF ord i(3)] obtain L where "left_right 0 rs t = L @ drop src t"
        "\<And>b x. left_right 0 (rs @ [(src, b, x)]) t = L @ x @ drop b t" by metis
      with i a eq \<open>te_text p = []\<close> have "out @ drop src t = left_right 0 rs t" by simp
      with i ord False Some show ?thesis unfolding loop_inv_def pending_edits_def flush_def by auto
    qed
  qed
qed

lemma loop_retain:
  assumes "loop_inv t changes src None out" "src + k \<le> length t"
  shows "loop_inv t changes (src + k) None (out @ take k (drop src t))"
proof -
  from assms obtain rs where i: "list_all2 (edit_at t) changes rs" "ordered 0 rs src" "out @ drop src t = left_right 0 rs t"
    by (auto simp: loop_inv_def pending_edits_def)
  have "out @ take k (drop src t) @ drop (src + k) t = left_right 0 rs t"
    using i(3) by (metis add.commute append_take_drop_id drop_drop)
  with i assms(2) ordered_mono [OF i(2), of "src + k"] show ?thesis
    unfolding loop_inv_def pending_edits_def by auto
qed

text \<open>Both an insertion and a deletion first make sure that there is a pending change.\<close>

lemma loop_pending:
  assumes "loop_inv t changes src pending out"
  obtains rs a L where "list_all2 (edit_at t) changes rs" "edit_at t (pending_at (UTF16Prefix t) h src pending) (a, src, te_text (pending_at (UTF16Prefix t) h src pending))"
    "ordered 0 rs a" "a \<le> src" "src \<le> length t" "out = L @ te_text (pending_at (UTF16Prefix t) h src pending)"
    "\<And>b x. left_right 0 (rs @ [(a, b, x)]) t = L @ x @ drop b t"
proof -
  from assms obtain rs prs where i: "list_all2 (edit_at t) changes rs" "pending_edits t src pending prs" "src \<le> length t"
    "ordered 0 (rs @ prs) src" "out @ drop src t = left_right 0 (rs @ prs) t" by (auto simp: loop_inv_def)
  show thesis
  proof (cases pending)
    case None
    then have prs: "prs = []" using i(2) by (simp add: pending_edits_def)
    from left_right_snoc [of 0 rs src t] i prs obtain L where L: "left_right 0 rs t = L @ drop src t"
      "\<And>b x. left_right 0 (rs @ [(src, b, x)]) t = L @ x @ drop b t" by auto
    with i prs have "out = L" by simp
    with None i prs L show thesis by (intro that [of rs src L]) (auto simp: pending_at_def edit_at_def UTF16Prefix_nth)
  next
    case (Some p)
    with i(2) obtain a where a: "prs = [(a, src, te_text p)]" "edit_at t p (a, src, te_text p)" by (auto simp: pending_edits_def)
    with i have o: "ordered 0 rs a" "a \<le> src" by (simp_all add: ordered_snoc)
    have "a \<le> length t" using o(2) i(3) by simp
    from left_right_snoc [OF o(1) this] obtain L where L: "\<And>b x. left_right 0 (rs @ [(a, b, x)]) t = L @ x @ drop b t" by metis
    with i a have "out = L @ te_text p" by simp
    with Some i a o L show thesis by (intro that [of rs a L]) (auto simp: pending_at_def)
  qed
qed

lemma loop_insert:
  assumes "loop_inv t changes src pending out" "p = pending_at (UTF16Prefix t) h src pending"
  shows "loop_inv t changes src (Some (p\<lparr>te_text := te_text p @ x\<rparr>)) (out @ x)"
proof -
  from loop_pending [OF assms(1), of h] obtain rs a L where i: "list_all2 (edit_at t) changes rs" "edit_at t p (a, src, te_text p)"
    "ordered 0 rs a" "a \<le> src" "src \<le> length t" "out = L @ te_text p" "\<And>b x. left_right 0 (rs @ [(a, b, x)]) t = L @ x @ drop b t"
    unfolding assms(2) by metis
  then have "out @ x @ drop src t = left_right 0 (rs @ [(a, src, te_text p @ x)]) t" by simp
  with i show ?thesis
    unfolding loop_inv_def pending_edits_def
    by (intro exI [of _ rs] exI [of _ "[(a, src, te_text p @ x)]"]) (auto simp: edit_at_def ordered_snoc)
qed

lemma loop_delete:
  assumes "loop_inv t changes src pending out" "p = pending_at (UTF16Prefix t) h src pending" "src + k \<le> length t"
  shows "loop_inv t changes (src + k) (Some (p\<lparr>te_length := te_length p + (UTF16Prefix t ! (src + k) - UTF16Prefix t ! src)\<rparr>)) out"
proof -
  from loop_pending [OF assms(1), of h] obtain rs a L where i: "list_all2 (edit_at t) changes rs" "edit_at t p (a, src, te_text p)"
    "ordered 0 rs a" "a \<le> src" "src \<le> length t" "out = L @ te_text p" "\<And>b x. left_right 0 (rs @ [(a, b, x)]) t = L @ x @ drop b t"
    unfolding assms(2) by metis
  then have "out @ drop (src + k) t = left_right 0 (rs @ [(a, src + k, te_text p)]) t" by simp
  with i assms(3) show ?thesis
    unfolding loop_inv_def pending_edits_def
    by (intro exI [of _ rs] exI [of _ "[(a, src + k, te_text p)]"]) (auto simp: edit_at_def ordered_snoc UTF16Prefix_nth)
qed

lemma op_steps:
  "fold_res (op_step (UTF16Prefix t) h) (changes, src, pending) ops = Inr (changes', src', pending') \<Longrightarrow>
   loop_inv t changes src pending out \<Longrightarrow> exec_ops ops (drop src t) = Some (out1, rest) \<Longrightarrow>
   loop_inv t changes' src' pending' (out @ out1)"
proof (induction ops arbitrary: changes src pending out out1)
  case (Cons op ops)
  from Cons.prems(1) obtain c1 s1 p1 where st: "op_step (UTF16Prefix t) h (changes, src, pending) op = Inr (c1, s1, p1)"
    "fold_res (op_step (UTF16Prefix t) h) (c1, s1, p1) ops = Inr (changes', src', pending')"
    by (auto split: sum.splits)
  have src: "src \<le> length t" using Cons.prems(2) by (auto simp: loop_inv_def)
  show ?case
  proof (cases op)
    case (ORetain k)
    with Cons.prems(3) src obtain o2 where k: "src + k \<le> length t" "exec_ops ops (drop (src + k) t) = Some (o2, rest)"
      "out1 = take k (drop src t) @ o2" by (auto simp: add.commute split: if_splits)
    from loop_retain [OF loop_flush [OF Cons.prems(2)] k(1)] Cons.IH [OF st(2)] st(1) k ORetain show ?thesis
      by (fastforce simp: op_step_def)
  next
    case (OInsert x)
    with Cons.prems(3) obtain o2 where k: "exec_ops ops (drop src t) = Some (o2, rest)" "out1 = x @ o2" by auto
    from loop_insert [OF Cons.prems(2) refl, of h x] Cons.IH [OF st(2)] st(1) k OInsert show ?thesis
      by (fastforce simp: op_step_def Let_def split: if_splits)
  next
    case (ODelete k)
    with Cons.prems(3) src have k: "src + k \<le> length t" "exec_ops ops (drop (src + k) t) = Some (out1, rest)"
      by (auto simp: add.commute split: if_splits)
    from loop_delete [OF Cons.prems(2) refl k(1), of h] Cons.IH [OF st(2)] st(1) k ODelete show ?thesis
      by (fastforce simp: op_step_def Let_def split: if_splits)
  qed
qed simp

lemma edits_sorted:
  "list_all2 (edit_at t) es rs \<Longrightarrow> ordered c rs n \<Longrightarrow> sorted (map te_offset es) \<and> (\<forall>e \<in> set es. int (ulen (take c t)) \<le> te_offset e)"
proof (induction es rs arbitrary: c rule: list_all2_induct)
  case (Cons e es r rs)
  obtain a b x where r: "r = (a, b, x)" by (cases r)
  with Cons.prems have o: "c \<le> a" "a \<le> b" "ordered b rs n" by auto
  have e: "te_offset e = int (ulen (take a t))" using Cons.hyps(1) r by (simp add: edit_at_def)
  have "ulen (take c t) \<le> ulen (take a t)" "ulen (take a t) \<le> ulen (take b t)" using o ulen_take_mono by blast+
  with Cons.IH [OF o(3)] e show ?case by fastforce
qed simp

lemma OperationToChanges_effect:
  assumes "ot_laws lib" "OperationToChanges lib t op = Inr changes" "ot_apply lib op t = Some t'"
  shows "monaco_apply changes t = t'"
proof -
  have "ot_apply lib op t = (case exec_ops (ot_ops lib op) t of Some (u, []) \<Rightarrow> Some u | _ \<Rightarrow> None)"
    using assms(1) unfolding ot_laws_def by (elim conjE) blast
  with assms(3) have ex: "exec_ops (ot_ops lib op) (drop 0 t) = Some (t', [])" by (auto split: option.splits list.splits prod.splits)
  from assms(2) obtain c src p where f: "fold_res (op_step (UTF16Prefix t) (ContentHash t)) ([], 0, None) (ot_ops lib op) = Inr (c, src, p)"
    and fin: "src = length t" "changes = flush c p"
    by (auto simp: OperationToChanges_def rbind_Inr_iff split: if_splits)
  have "loop_inv t [] 0 None []" by (simp add: loop_inv_def pending_edits_def)
  from loop_flush [OF op_steps [OF f this ex]] fin obtain rs where "list_all2 (edit_at t) changes rs" "ordered 0 rs (length t)" "t' = left_right 0 rs t"
    by (auto simp: loop_inv_def pending_edits_def)
  then show ?thesis
    using right_left_eq [of t changes rs 0] edits_sorted [of t changes rs 0 "length t"] by (simp add: monaco_apply_def sort_key_id_if_sorted)
qed

section \<open>An implementation of the library\<close>

text \<open>
  One component per code point. It shows that the documented behaviour can be met, and gives
  the witnesses a library to run.
\<close>

datatype comp = CR | CD | CI nat

definition comp_op :: "comp \<Rightarrow> ot_op" where
  "comp_op c = (case c of CR \<Rightarrow> ORetain 1 | CD \<Rightarrow> ODelete 1 | CI x \<Rightarrow> OInsert [x])"

fun comps_apply :: "comp list \<Rightarrow> ctext \<Rightarrow> ctext option" where
  "comps_apply [] s = (if s = [] then Some [] else None)"
| "comps_apply (CI x # cs) s = map_option ((#) x) (comps_apply cs s)"
| "comps_apply (CR # cs) s = (case s of [] \<Rightarrow> None | r # s' \<Rightarrow> map_option ((#) r) (comps_apply cs s'))"
| "comps_apply (CD # cs) s = (case s of [] \<Rightarrow> None | r # s' \<Rightarrow> comps_apply cs s')"

fun comps_invert :: "comp list \<Rightarrow> ctext \<Rightarrow> comp list" where
  "comps_invert [] s = []"
| "comps_invert (CI x # cs) s = CD # comps_invert cs s"
| "comps_invert (CR # cs) s = CR # comps_invert cs (tl s)"
| "comps_invert (CD # cs) s = CI (hd s) # comps_invert cs (tl s)"

fun comps_transform :: "comp list \<Rightarrow> comp list \<Rightarrow> (comp list \<times> comp list) option" where
  "comps_transform a (CI y # b) = map_option (map_prod ((#) CR) ((#) (CI y))) (comps_transform a b)"
| "comps_transform (CI x # a) b = map_option (map_prod ((#) (CI x)) ((#) CR)) (comps_transform a b)"
| "comps_transform [] [] = Some ([], [])"
| "comps_transform (CR # a) (CR # b) = map_option (map_prod ((#) CR) ((#) CR)) (comps_transform a b)"
| "comps_transform (CD # a) (CR # b) = map_option (apfst ((#) CD)) (comps_transform a b)"
| "comps_transform (CR # a) (CD # b) = map_option (apsnd ((#) CD)) (comps_transform a b)"
| "comps_transform (CD # a) (CD # b) = comps_transform a b"
| "comps_transform _ _ = None"

definition comp_lib :: "comp list ot_lib" where
  "comp_lib = \<lparr>ot_new = [], ot_retain = (\<lambda>op n. op @ replicate n CR), ot_delete = (\<lambda>op n. op @ replicate n CD),
     ot_insert = (\<lambda>op t. op @ map CI t), ot_base_len = (\<lambda>op. consumed (map comp_op op)), ot_ops = map comp_op,
     ot_apply = comps_apply, ot_invert = comps_invert, ot_transform = comps_transform\<rparr>"

lemma exec_replicate:
  "exec_ops (replicate n (ORetain 1)) s = exec_ops [ORetain n] s"
  "exec_ops (replicate n (ODelete 1)) s = exec_ops [ODelete n] s"
  "exec_ops (map (\<lambda>x. OInsert [x]) t) s = exec_ops [OInsert t] s"
proof -
  show "exec_ops (replicate n (ORetain 1)) s = exec_ops [ORetain n] s"
    by (induction n arbitrary: s) (auto simp: take_Suc drop_Suc neq_Nil_conv Suc_le_eq not_less split: list.splits)
  show "exec_ops (replicate n (ODelete 1)) s = exec_ops [ODelete n] s"
    by (induction n arbitrary: s) (auto simp: drop_Suc neq_Nil_conv)
  show "exec_ops (map (\<lambda>x. OInsert [x]) t) s = exec_ops [OInsert t] s" by (induction t) auto
qed

lemma comps_apply_exec:
  "comps_apply op s = (case exec_ops (map comp_op op) s of Some (t, []) \<Rightarrow> Some t | _ \<Rightarrow> None)"
proof (induction op s rule: comps_apply.induct)
  case (1 s)
  then show ?case by (cases s) simp_all
next
  case (2 x cs s)
  then show ?case by (auto simp: comp_op_def split: option.splits list.splits)
next
  case (3 cs s)
  then show ?case by (cases s) (auto simp: comp_op_def split: option.splits list.splits)
next
  case (4 cs s)
  then show ?case by (cases s) (auto simp: comp_op_def split: option.splits list.splits)
qed

lemma comps_invert_undoes: "comps_apply op s = Some t \<Longrightarrow> comps_apply (comps_invert op s) t = Some s"
  by (induction op s arbitrary: t rule: comps_apply.induct) (auto split: list.splits if_splits)

lemma comps_transform_square:
  "comps_transform a b = Some (a', b') \<Longrightarrow> comps_apply a s = Some u \<Longrightarrow> comps_apply b s = Some v \<Longrightarrow>
   \<exists>w. comps_apply b' u = Some w \<and> comps_apply a' v = Some w"
  by (induction a b arbitrary: a' b' s u v rule: comps_transform.induct) (fastforce split: list.splits if_splits)+

lemma comp_lib_laws: "ot_laws comp_lib"
  unfolding ot_laws_def
proof (intro conjI allI impI)
  show "ot_builds comp_lib (ot_retain comp_lib op n) op (ORetain n)" for op n
    using exec_replicate(1) [of n] by (simp add: ot_builds_def comp_lib_def exec_append map_replicate comp_op_def split: option.split)
  show "ot_builds comp_lib (ot_delete comp_lib op n) op (ODelete n)" for op n
    using exec_replicate(2) [of n] by (simp add: ot_builds_def comp_lib_def exec_append map_replicate comp_op_def split: option.split)
  show "ot_builds comp_lib (ot_insert comp_lib op t) op (OInsert t)" for op t
    using exec_replicate(3) [of t] by (simp add: ot_builds_def comp_lib_def exec_append comp_op_def o_def split: option.split)
  show "\<exists>w. ot_apply comp_lib b' u = Some w \<and> ot_apply comp_lib a' v = Some w"
    if "ot_apply comp_lib a s = Some u" "ot_apply comp_lib b s = Some v" "ot_transform comp_lib a b = Some (a', b')" for a b a' b' s u v
    using that comps_transform_square by (simp add: comp_lib_def)
qed (simp_all add: comp_lib_def comps_apply_exec [symmetric] comps_invert_undoes)

section \<open>What a client can rely on\<close>

lemma resolveBase_fingerprint:
  assumes "resolveBase lib d changes = Inr (b, base)"
  shows "list_all (\<lambda>e. if te_hash e = '''' then base = cd_content d
                        else ContentHash base = te_hash e \<and> UTF16Len base = te_base_length e) changes"
  using assms
  by (auto simp: resolveBase_def Let_def rbind_Inr_iff list_all_iff split: list.splits if_splits)

datatype collab_call = Patch "text_edit list" int | Replace ctext

definition collab_step :: "'op ot_lib \<Rightarrow> 'op collab_document \<Rightarrow> collab_call \<Rightarrow> 'op collab_document" where
  "collab_step lib d call =
     (case call of
        Patch changes maxBytes \<Rightarrow> (case applyMonacoChanges lib d changes maxBytes of Inl _ \<Rightarrow> d | Inr (_, d') \<Rightarrow> d')
      | Replace content \<Rightarrow> replace_doc content d)"

lemma replace_doc_ok: "doc_ok lib (replace_doc content d)"
  by (simp add: doc_ok_def replace_doc_def revisions_ok_def)

lemma newDocument_ok: "doc_ok lib (newDocument content)"
  by (simp add: doc_ok_def newDocument_def revisions_ok_def)

text \<open>Revisions count from one, so that the answer -1 of the search means that nothing matched.\<close>

definition doc_live :: "'op ot_lib \<Rightarrow> 'op collab_document \<Rightarrow> bool" where
  "doc_live lib d \<longleftrightarrow> doc_ok lib d \<and> int (length (cd_history d)) \<le> cd_revision d"

lemma applyMonacoChanges_live:
  assumes "doc_live lib d" "applyMonacoChanges lib d changes maxBytes = Inr (res, d')"
  shows "doc_live lib d'"
proof -
  from assms(2) have "length (cd_history d') \<le> Suc (length (cd_history d))" "cd_revision d' = cd_revision d + 1"
    by (auto elim!: applyMonacoChanges_InrD simp: Let_def)
  with assms applyMonacoChanges_doc_ok show ?thesis by (fastforce simp: doc_live_def)
qed

interpretation cd: step_system "collab_step lib" "\<lambda>_ _. True" "doc_live lib"
proof
  fix s e assume live: "doc_live lib s"
  show "doc_live lib (collab_step lib s e)"
  proof (cases e)
    case (Patch changes maxBytes)
    with live applyMonacoChanges_live show ?thesis by (fastforce simp: collab_step_def split: sum.splits)
  next
    case (Replace content)
    with live show ?thesis by (simp add: collab_step_def doc_live_def replace_doc_ok) (simp add: replace_doc_def)
  qed
qed

lemma any_run_allowed: "allowed_run step (\<lambda>_ _. True) s es"
  by (induction es arbitrary: s) simp_all

lemma record_fields:
  "h = record_operation lib m m' r f \<Longrightarrow>
     co_base_hash h = ContentHash m \<and> co_base_length h = UTF16Len m \<and> co_target_hash h = ContentHash m' \<and> co_target_len h = UTF16Len m'"
  by (simp add: record_operation_def)

lemma timeline_revision:
  assumes "timeline lib c hs c'" "i < length hs"
  obtains m m' where "timeline lib m (drop i hs) c'" "ot_apply lib (co_forward (hs ! i)) m = Some m'"
    "timeline lib m' (drop (Suc i) hs) c'" "hs ! i = record_operation lib m m' (co_revision (hs ! i)) (co_forward (hs ! i))"
proof -
  from timeline_drop [OF assms(1)] obtain m where m: "timeline lib m (drop i hs) c'" by blast
  have "drop i hs = hs ! i # drop (Suc i) hs" using assms(2) by (simp add: Cons_nth_drop_Suc)
  with m that show thesis by (auto split: option.splits)
qed

definition sample_edit :: "string \<Rightarrow> int \<Rightarrow> int \<Rightarrow> int \<Rightarrow> ctext \<Rightarrow> text_edit" where
  "sample_edit h n off len t = \<lparr>te_offset = off, te_length = len, te_text = t, te_hash = h, te_base_length = n\<rparr>"

text \<open>The text \<open>ab\<close>, in which somebody has already inserted \<open>X\<close> before the \<open>b\<close>.\<close>

definition sample_document :: "comp list collab_document" where
  "sample_document = collab_step comp_lib (newDocument [97, 98]) (Patch [sample_edit '''' 0 1 0 [88]] 100)"

text \<open>A second client that has not seen the \<open>X\<close> replaces the \<open>b\<close> by a code point of two UTF-16 units.\<close>

definition sample_changes :: "text_edit list" where
  "sample_changes = [sample_edit (ContentHash [97, 98]) 2 1 1 [128512]]"

definition sample_outcome :: "collab_result \<times> comp list collab_document" where
  "sample_outcome = projr (applyMonacoChanges comp_lib sample_document sample_changes 100)"

lemma sample_document_eq: "sample_document = \<lparr>cd_content = [97, 88, 98], cd_revision = 1,
    cd_history = [\<lparr>co_revision = 1, co_base_hash = ''00000c21'', co_base_length = 2, co_target_hash = ''0001772b'', co_target_len = 3,
          co_forward = [CR, CI 88, CR], co_inverse = [CR, CD, CR]\<rparr>]\<rparr>"
  by code_simp

lemma sample_hashes: "ContentHash [97, 98] = ''00000c21''" "ContentHash [97, 88, 98] = ''0001772b''"
  "UTF16Len [97, 98] = 2" "UTF16Len [97, 88, 98] = 3"
  by code_simp+

lemma sample_base: "resolveBase comp_lib sample_document sample_changes = Inr (0, [97, 98])"
  unfolding sample_document_eq sample_changes_def sample_edit_def
  by (simp add: resolveBase_def sample_hashes matches_base_def undo_step_def comp_lib_def)

lemma sample_operation: "ChangesToOperation comp_lib [97, 98] sample_changes = Inr [CR, CD, CI 128512]"
  by code_simp

lemma sample_transformed:
  "fold_res (transform_step comp_lib 0) [CR, CD, CI 128512] (cd_history sample_document) = Inr [CR, CR, CD, CI 128512]"
  "OperationToChanges comp_lib [97, 88, 98] [CR, CR, CD, CI 128512] = Inr [sample_edit ''0001772b'' 3 2 1 [128512]]"
  "ot_apply comp_lib [CR, CR, CD, CI 128512] [97, 88, 98] = Some [97, 88, 128512]" "text_bytes [97, 88, 128512] = 6"
  unfolding sample_document_eq by code_simp+

lemma sample_contents: "cd_content sample_document = [97, 88, 98]" "cd_revision sample_document = 1"
  by (simp_all add: sample_document_eq)

lemma sample_outcome_eq:
  "applyMonacoChanges comp_lib sample_document sample_changes 100 = Inr sample_outcome \<and> cd_content (snd sample_outcome) = [97, 88, 128512]"
  unfolding sample_outcome_def by (simp add: applyMonacoChanges_def sample_base sample_operation sample_transformed sample_contents Let_def)

lemma sample_accepted:
  "applyMonacoChanges comp_lib sample_document sample_changes 100 = Inr (fst sample_outcome, snd sample_outcome)"
  using sample_outcome_eq by simp

lemma sample_document_ok: "doc_ok comp_lib sample_document"
proof -
  have "doc_live comp_lib (newDocument [97, 98])" by (simp add: doc_live_def newDocument_ok) (simp add: newDocument_def)
  from cd.step_keeps [OF this] show ?thesis by (simp add: sample_document_def doc_live_def)
qed

lemma revisions_nth:
  assumes "revisions_ok r hs" "i < length hs"
  shows "co_revision (hs ! i) = r - int (length hs) + 1 + int i"
proof -
  have "map co_revision hs ! i = [r - int (length hs) + 1 .. r] ! i" using assms(1) by (simp only: revisions_ok_def)
  with assms(2) show ?thesis by (simp add: nth_upto)
qed

lemma takeWhile_revisions:
  assumes "revisions_ok r hs" "k \<le> length hs"
  shows "takeWhile (\<lambda>h. co_revision h > r - int (length hs) + int k) (rev hs) = rev (drop k hs)"
proof -
  let ?P = "\<lambda>h. co_revision h > r - int (length hs) + int k"
  note rv = revisions_nth [OF assms(1)]
  have "?P h" if "h \<in> set (rev (drop k hs))" for h
    using that assms(2) rv by (auto simp: in_set_conv_nth)
  moreover have "\<not> ?P h" if "h \<in> set (take k hs)" for h
    using that assms(2) rv by (auto simp: in_set_conv_nth)
  then have "takeWhile ?P (rev (take k hs)) = []" by (metis hd_in_set set_rev takeWhile_eq_Nil_iff)
  moreover have "rev hs = rev (drop k hs) @ rev (take k hs)" by (simp flip: rev_append)
  ultimately show ?thesis by (simp only: takeWhile_append2) simp
qed

lemma find_base_match:
  assumes "h \<in> set hs" "co_base_hash h = bh" "co_base_length h = bl"
  obtains j where "j < length hs" "matches_base bh bl (hs ! j) = Some (find_base bh bl hs)"
proof -
  from assms have "\<exists>j < length hs. matches_base bh bl (hs ! j) = Some (find_base bh bl hs)"
  proof (induction hs)
    case (Cons a hs)
    show ?case
    proof (cases "matches_base bh bl a")
      case None
      with Cons.prems have "h \<in> set hs" by (auto simp: matches_base_def)
      with Cons.IH Cons.prems None show ?thesis by fastforce
    qed (intro exI [of _ 0], simp)
  qed simp
  with that show thesis by blast
qed

lemma matching_revision_text:
  assumes laws: "ot_laws lib" and ok: "revisions_ok r hs" and tl: "timeline lib c hs c'"
    and j: "j < length hs" "matches_base bh bl (hs ! j) = Some b"
  obtains m where "fold_res (undo_step lib) c' (takeWhile (\<lambda>h. co_revision h > b) (rev hs)) = Inr m"
    "ContentHash m = bh" "UTF16Len m = bl"
proof -
  from timeline_revision [OF tl j(1)] obtain m m' where m: "timeline lib m (drop j hs) c'" "timeline lib m' (drop (Suc j) hs) c'"
    and h: "hs ! j = record_operation lib m m' (co_revision (hs ! j)) (co_forward (hs ! j))" .
  note rv = revisions_nth [OF ok j(1)]
  note fp = record_fields [OF h]
  from j(2) consider "b = r - int (length hs) + int j" "ContentHash m = bh" "UTF16Len m = bl"
    | "b = r - int (length hs) + int (Suc j)" "ContentHash m' = bh" "UTF16Len m' = bl"
    using rv fp by (auto simp: matches_base_def split: if_splits)
  then show thesis
  proof cases
    case 1
    with takeWhile_revisions [OF ok, of j] undo_timeline [OF laws m(1)] j(1) that show thesis by simp
  next
    case 2
    with takeWhile_revisions [OF ok, of "Suc j"] undo_timeline [OF laws m(2)] j(1) that show thesis by simp
  qed
qed

lemma newDocument_live: "doc_live lib (newDocument content)"
  by (simp add: doc_live_def newDocument_ok) (simp add: newDocument_def)

lemma length_hex_pad [simp]: "length (hex_pad k n) = k"
  by (induction k arbitrary: n) simp_all

lemma ContentHash_nonempty: "ContentHash t \<noteq> ''''"
proof -
  have "length (ContentHash t) = 8" by (simp add: ContentHash_def)
  then show ?thesis by (metis list.size(3) zero_neq_numeral)
qed

lemma resolveBase_live:
  assumes laws: "ot_laws lib" and live: "doc_live lib d" and h: "h \<in> set (cd_history d)"
    and same: "changes \<noteq> []" "list_all (\<lambda>e. te_hash e = co_base_hash h \<and> te_base_length e = co_base_length h) changes"
  shows "\<exists>b base. resolveBase lib d changes = Inr (b, base) \<and> ContentHash base = co_base_hash h \<and> UTF16Len base = co_base_length h"
proof -
  from live obtain c where ok: "revisions_ok (cd_revision d) (cd_history d)" and tl: "timeline lib c (cd_history d) (cd_content d)"
    by (auto simp: doc_live_def doc_ok_def)
  from h obtain i where i: "i < length (cd_history d)" "cd_history d ! i = h" by (auto simp: in_set_conv_nth)
  from timeline_revision [OF tl i(1)] obtain m m' where
    e: "cd_history d ! i = record_operation lib m m' (co_revision (cd_history d ! i)) (co_forward (cd_history d ! i))" .
  from record_fields [OF e] i(2) have fp: "co_base_hash h = ContentHash m" "co_base_length h = UTF16Len m" by simp_all
  then have pos: "co_base_hash h \<noteq> ''''" "co_base_length h \<ge> 0"
    by (simp_all add: ContentHash_nonempty) (simp add: UTF16Len_def)
  let ?r = "find_base (co_base_hash h) (co_base_length h) (cd_history d)"
  from find_base_match [OF h refl refl] obtain j where j: "j < length (cd_history d)"
    "matches_base (co_base_hash h) (co_base_length h) (cd_history d ! j) = Some ?r" .
  have "?r \<ge> 0" using j revisions_nth [OF ok j(1)] live by (auto simp: matches_base_def doc_live_def split: if_splits)
  moreover from matching_revision_text [OF laws ok tl j] obtain t where
    "fold_res (undo_step lib) (cd_content d) (takeWhile (\<lambda>x. co_revision x > ?r) (rev (cd_history d))) = Inr t"
    "ContentHash t = co_base_hash h" "UTF16Len t = co_base_length h" .
  moreover from same obtain c cs where "changes = c # cs" "te_hash c = co_base_hash h" "te_base_length c = co_base_length h"
    "list_all (\<lambda>e. te_hash e = co_base_hash h \<and> te_base_length e = co_base_length h) cs" by (cases changes) auto
  ultimately show ?thesis
    using pos by (simp add: resolveBase_def Let_def)
qed



text \<open>
  C8. What is broadcast. The changes that the daemon sends to the other editors turn the content
  before the patch into the content after it, the revision is the next one, and a limit on the
  size of the text is kept.
\<close>

theorem broadcast_changes_exact:
  assumes "ot_laws lib" "applyMonacoChanges lib d changes maxBytes = Inr (res, d')"
  shows "monaco_apply (cr_changes res) (cd_content d) = cd_content d' \<and> cr_revision res = cd_revision d + 1 \<and>
    cd_revision d' = cr_revision res \<and> (maxBytes \<le> 0 \<or> text_bytes (cd_content d') \<le> maxBytes)"
  using assms(2) by (rule applyMonacoChanges_InrD) (use OperationToChanges_effect [OF assms(1)] in auto)

theorem broadcast_changes_exact_witness:
  "monaco_apply (cr_changes (fst sample_outcome)) [97, 88, 98] = [97, 88, 128512] \<and> cr_revision (fst sample_outcome) = 2"
  using broadcast_changes_exact [OF comp_lib_laws sample_accepted] unfolding sample_contents conjunct2 [OF sample_outcome_eq] by simp

text \<open>
  C24. A client that lags behind is not cut off. After any sequence of patches and replacements
  of a document, changes against the content before any of the operations in the history find
  their base: undoing the newer operations succeeds and gives a text with the fingerprint the
  changes carry. The history holds the last 128 operations at most, under consecutive revisions.
\<close>

theorem retained_base_found:
  assumes "ot_laws lib" "d = foldl (collab_step lib) (newDocument content) calls" "h \<in> set (cd_history d)"
    "changes \<noteq> []" "list_all (\<lambda>e. te_hash e = co_base_hash h \<and> te_base_length e = co_base_length h) changes"
  shows "(\<exists>b base. resolveBase lib d changes = Inr (b, base) \<and> ContentHash base = co_base_hash h \<and> UTF16Len base = co_base_length h) \<and>
    length (cd_history d) \<le> HistoryLimit \<and> map co_revision (cd_history d) = [cd_revision d - int (length (cd_history d)) + 1 .. cd_revision d]"
proof -
  have live: "doc_live lib d"
    unfolding assms(2) by (rule cd.run_keeps [OF newDocument_live any_run_allowed])
  with resolveBase_live [OF assms(1) live assms(3-5)] show ?thesis by (simp add: doc_live_def doc_ok_def revisions_ok_def)
qed

theorem retained_base_found_witness:
  "\<exists>b base. resolveBase comp_lib sample_document sample_changes = Inr (b, base) \<and> ContentHash base = ''00000c21'' \<and> UTF16Len base = 2"
proof -
  let ?h = "hd (cd_history sample_document)"
  have run: "sample_document = foldl (collab_step comp_lib) (newDocument [97, 98]) [Patch [sample_edit '''' 0 1 0 [88]] 100]"
    by (simp add: sample_document_def)
  have "cd_history sample_document \<noteq> []" by code_simp
  then have h: "?h \<in> set (cd_history sample_document)" by (rule hd_in_set)
  have fp: "co_base_hash ?h = ''00000c21''" "co_base_length ?h = 2" by code_simp+
  have "sample_changes \<noteq> []" "list_all (\<lambda>e. te_hash e = co_base_hash ?h \<and> te_base_length e = co_base_length ?h) sample_changes"
    by code_simp+
  from retained_base_found [OF comp_lib_laws run h this] show ?thesis unfolding fp by blast
qed

end
