(* ===== verification/Collab_Names.thy ===== *)
theory Collab_Names
  imports Collab_OT
begin

text \<open>
  The names and values that a collaboration client sends (the last part of
  \<^verbatim>\<open>router/websocket/betterfiles_collaboration.go\<close>): session codes, paths of files, cursor
  positions and texts are brought into a normal form or refused.
\<close>

definition MaxPayloadBytes :: int where
  "MaxPayloadBytes = 10 * 1024 * 1024"

definition MaxMessageBytes :: int where
  "MaxMessageBytes = MaxPayloadBytes * 2 + 8192"

definition MaxUsers :: nat where
  "MaxUsers = 20"

definition MaxPatchChanges :: nat where
  "MaxPatchChanges = 64"

definition MaxPathBytes :: nat where
  "MaxPathBytes = 4096"

definition MaxCursorValue :: int where
  "MaxCursorValue = 1000000"

definition MaxDocuments :: nat where
  "MaxDocuments = 32"

definition MaxSessionBytes :: int where
  "MaxSessionBytes = 32 * 1024 * 1024"

section \<open>Session codes\<close>

definition code_byte :: "nat \<Rightarrow> bool" where
  "code_byte b \<longleftrightarrow> 65 \<le> b \<and> b \<le> 90 \<or> 48 \<le> b \<and> b \<le> 57"

text \<open>
  The loop over the runes skips index 4, which holds the dash; a rune outside ASCII is refused
  there as each of its bytes is here.
\<close>

definition CollabCode :: "string \<Rightarrow> string" where
  "CollabCode code =
     (let c = filter (\<lambda>b. b \<noteq> 32) (go_ToUpper (map byte_of (TrimSpace code)));
          c = (if length c = 8 then take 4 c @ [45] @ drop 4 c else c)
      in if length c \<noteq> 9 \<or> c ! 4 \<noteq> 45 then ''''
         else if list_all code_byte (take 4 c @ drop 5 c) then map char_of c
         else '''')"

text \<open>A code in normal form: two groups of four capital letters or digits with a dash between them.\<close>

definition code_ok :: "string \<Rightarrow> bool" where
  "code_ok c \<longleftrightarrow> length c = 9 \<and> byte_of (c ! 4) = 45 \<and> list_all code_byte (map byte_of (take 4 c @ drop 5 c))"

lemma CollabCode_ok:
  assumes "CollabCode code \<noteq> ''''"
  shows "code_ok (CollabCode code)"
proof -
  define c1 where "c1 = filter (\<lambda>b. b \<noteq> 32) (go_ToUpper (map byte_of (TrimSpace code)))"
  define c where "c = (if length c1 = 8 then take 4 c1 @ [45] @ drop 4 c1 else c1)"
  have eq: "CollabCode code = (if length c \<noteq> 9 \<or> c ! 4 \<noteq> 45 then '''' else if list_all code_byte (take 4 c @ drop 5 c) then map char_of c else '''')"
    unfolding CollabCode_def Let_def c_def c1_def by (rule refl)
  with assms have c: "length c = 9" "c ! 4 = 45" "list_all code_byte (take 4 c @ drop 5 c)" "CollabCode code = map char_of c"
    by (auto split: if_splits)
  have "byte_of (char_of b) = b" if "b \<in> set (take 4 c @ drop 5 c)" for b
  proof -
    have "code_byte b" using c(3) that unfolding list_all_iff by blast
    then show ?thesis by (auto simp: code_byte_def)
  qed
  then have "map (\<lambda>b. byte_of (char_of b)) (take 4 c @ drop 5 c) = take 4 c @ drop 5 c" by (rule map_idI)
  then have "map byte_of (take 4 (map char_of c) @ drop 5 (map char_of c)) = take 4 c @ drop 5 c"
    by (simp add: take_map drop_map o_def)
  with c show ?thesis by (simp add: code_ok_def)
qed

lemma code_ok_bytes:
  assumes c: "code_ok c" and x: "x \<in> set c"
  shows "45 \<le> byte_of x \<and> byte_of x \<le> 90"
proof -
  have "c = take 4 c @ c ! 4 # drop 5 c" using c id_take_nth_drop [of 4 c] by (simp add: code_ok_def)
  with x have "x \<in> set (take 4 c @ drop 5 c) \<or> x = c ! 4" by (metis Un_iff set_ConsD set_append)
  moreover have "code_byte (byte_of x)" if "x \<in> set (take 4 c @ drop 5 c)"
    using c that unfolding code_ok_def list_all_iff by auto
  moreover have "byte_of (c ! 4) = 45" using c by (simp add: code_ok_def)
  ultimately show ?thesis unfolding code_byte_def by auto
qed

lemma CollabCode_id:
  assumes "code_ok c"
  shows "CollabCode c = c"
proof -
  note b = code_ok_bytes [OF assms]
  have "TrimSpace c = c" by (rule TrimSpace_plain) (use b in \<open>fastforce simp: list_all_iff\<close>)
  moreover have "go_ToUpper (map byte_of c) = map byte_of c" by (rule go_ToUpper_plain) (use b in \<open>fastforce simp: list_all_iff\<close>)
  moreover have "filter (\<lambda>x. x \<noteq> 32) (map byte_of c) = map byte_of c" using b by (fastforce simp: filter_id_conv)
  ultimately show ?thesis
    using assms by (simp add: CollabCode_def code_ok_def Let_def take_map drop_map o_def)
qed

lemma code_ok_nonempty: "code_ok c \<Longrightarrow> c \<noteq> ''''"
  by (auto simp: code_ok_def)

section \<open>Paths\<close>

definition sensitive_part :: "nat list \<Rightarrow> bool" where
  "sensitive_part part =
     (let is = (\<lambda>s. part = map byte_of s); starts = (\<lambda>s. prefix (map byte_of s) part); ends = (\<lambda>s. suffix (map byte_of s) part)
      in is ''.env'' \<or> starts ''.env.'' \<or> is ''.npmrc'' \<or> is ''composer.auth.json'' \<or>
         is ''id_rsa'' \<or> is ''id_ed25519'' \<or> is ''id_ecdsa'' \<or>
         ends ''.pem'' \<or> ends ''.key'' \<or> ends ''.p12'' \<or> ends ''.pfx'' \<or>
         starts ''secret'' \<or> starts ''credential'')"

definition SensitivePath :: "string \<Rightarrow> bool" where
  "SensitivePath path =
     list_ex (\<lambda>part. part \<noteq> [] \<and> sensitive_part part) (split_on 47 (go_ToLower (map byte_of (Trim path slash))))"

definition control_free :: "string \<Rightarrow> bool" where
  "control_free path = list_all (\<lambda>r. \<not> (r < 32 \<or> r = 127)) (runes_of path)"

definition CollabPath :: "string \<Rightarrow> string option" where
  "CollabPath path =
     (let path = TrimSpace (map (\<lambda>c. if c = CHR 0x5C then slash else c) path)
      in if path = '''' \<or> length path > MaxPathBytes \<or> CHR 0x00 \<in> set path \<or> \<not> ValidString path then None
         else if \<not> control_free path then None
         else let path = (if prefix [slash] path then path else slash # path)
              in if ''..'' \<in> set (split_on slash path) then None
                 else let path = path_Clean path; path = (if prefix [slash] path then path else slash # path)
                      in if path = ''.'' \<or> path = [slash] \<or> length path > MaxPathBytes \<or> SensitivePath path then None
                         else Some path)"

text \<open>What an accepted path is: absolute, in normal form, not the root, short, and not sensitive.\<close>

definition path_ok :: "string \<Rightarrow> bool" where
  "path_ok p \<longleftrightarrow> (\<exists>ns. ns \<noteq> [] \<and> list_all name_ok ns \<and> p = slash # join_on slash ns) \<and>
     length p \<le> MaxPathBytes \<and> \<not> SensitivePath p"

lemma CollabPath_ok:
  assumes "CollabPath p = Some q"
  shows "path_ok q"
proof -
  define t where "t = TrimSpace (map (\<lambda>c. if c = CHR 0x5C then slash else c) p)"
  define y where "y = (if prefix [slash] t then t else slash # t)"
  have "\<exists>x. y = slash # x" by (cases "prefix [slash] t") (auto simp: y_def prefix_def)
  then obtain x where x: "y = slash # x" by blast
  have "prefix [slash] (path_Clean y)" by (simp add: x path_Clean_abs)
  with assms have q: "q = path_Clean y" "q \<noteq> [slash]" "length q \<le> MaxPathBytes" "\<not> SensitivePath q"
    unfolding CollabPath_def Let_def t_def [symmetric] y_def [symmetric] by (simp_all split: if_splits)
  let ?ns = "resolve [] (split_on slash x)"
  have "list_all name_ok ?ns" by (rule resolve_ok) (simp_all add: split_no_slash)
  moreover have "q = slash # join_on slash ?ns" using q(1) by (simp add: x path_Clean_abs)
  moreover have "?ns \<noteq> []" using q(2) calculation(2) by auto
  ultimately show ?thesis using q(3,4) unfolding path_ok_def by blast
qed

section \<open>Values\<close>

definition ClampCursor :: "int \<Rightarrow> int" where
  "ClampCursor value = (if value < 1 then 1 else if value > MaxCursorValue then MaxCursorValue else value)"

text \<open>A text longer than the maximum in bytes is cut to that number of runes.\<close>

definition SafeText :: "string \<Rightarrow> nat \<Rightarrow> string" where
  "SafeText value mx =
     (let value = TrimSpace value
      in if \<not> ValidString value then ''''
         else if length value > mx
         then (let chunks = rune_chunks (map byte_of value)
               in if length chunks > mx then map char_of (concat (take mx chunks)) else value)
         else value)"

definition SafeImage :: "string \<Rightarrow> string" where
  "SafeImage value =
     (let value = SafeText value 240
      in if value = '''' then '''' else if prefix ''https://'' value then value else '''')"

end
