(* ===== verification/Ws_Tokens.thy ===== *)
theory Ws_Tokens
  imports Go_Strings
begin

text \<open>
  The signed tokens a user presents (\<^verbatim>\<open>router/tokens/\<close>), the lists by which the panel revokes
  them, the store that makes a token a one-time token, the table of open websockets of a server
  (\<^verbatim>\<open>server/websockets.go\<close>), the table of cancellable contexts (\<^verbatim>\<open>system/context_bag.go\<close>) and the
  route that withdraws a user's access (\<^verbatim>\<open>postDeauthorizeUser\<close>).

  Points in time are integers, in nanoseconds. The JWT library, which checks signatures, and
  the cache library behind the token store are parameters: records of the functions that the
  code calls, with what their documentation promises as \<open>jwt_laws\<close> and \<open>cache_laws\<close>.
\<close>

section \<open>Tokens\<close>

record jwt_payload =
  jp_issued :: "int option"
  jp_expires :: "int option"
  jp_id :: string

record ws_payload =
  wp_payload :: jwt_payload
  wp_scope :: string
  wp_user :: string
  wp_server :: string
  wp_permissions :: "string list"

record upload_payload =
  up_payload :: jwt_payload
  up_scope :: string
  up_server :: string
  up_user :: string
  up_unique :: string

record file_payload =
  fp_payload :: jwt_payload
  fp_scope :: string
  fp_path :: string
  fp_server :: string
  fp_user :: string
  fp_unique :: string

record backup_payload =
  bp_payload :: jwt_payload
  bp_scope :: string
  bp_server :: string
  bp_user :: string
  bp_backup :: string
  bp_unique :: string

text \<open>
  \<^verbatim>\<open>jwt.Verify\<close> checks the signature, decodes the claims and runs the validators;
  \<^verbatim>\<open>jwt.ExpirationTimeValidator\<close> is a validator of the expiry claim at a point in time.
\<close>

datatype verify_error = VerifyExp | VerifyOther

record 'p jwt_api =
  jv_verify :: "string \<Rightarrow> ('p \<Rightarrow> bool) \<Rightarrow> verify_error + 'p"
  jv_exp_valid :: "int \<Rightarrow> int option \<Rightarrow> bool"

definition jwt_laws :: "'p jwt_api \<Rightarrow> bool" where
  "jwt_laws api \<longleftrightarrow> (\<forall>tok ok p. jv_verify api tok ok = Inr p \<longrightarrow> ok p) \<and>
     (\<forall>now e. jv_exp_valid api now e \<longrightarrow> (\<exists>x. e = Some x \<and> now < x + 1000000000))"

definition ParseToken :: "'p jwt_api \<Rightarrow> ('p \<Rightarrow> jwt_payload) \<Rightarrow> int \<Rightarrow> string \<Rightarrow> verify_error + 'p" where
  "ParseToken api payload now token = jv_verify api token (\<lambda>p. jv_exp_valid api now (jp_expires (payload p)))"

definition Scopes :: "string \<Rightarrow> string list" where
  "Scopes s = split_on (CHR '' '') s"

definition HasScope :: "string \<Rightarrow> string \<Rightarrow> bool" where
  "HasScope s scope = list_ex (\<lambda>v. v = scope) (Scopes s)"

section \<open>Revocation\<close>

text \<open>\<open>dn_boot\<close> is the time at which the daemon started.\<close>

record denylist =
  dn_boot :: int
  dn_jti :: "string \<Rightarrow> int option"
  dn_user :: "string \<Rightarrow> int option"

definition DenyJTI :: "int \<Rightarrow> string \<Rightarrow> denylist \<Rightarrow> denylist" where
  "DenyJTI now jti d = d\<lparr>dn_jti := (dn_jti d)(jti \<mapsto> now)\<rparr>"

definition deny_key :: "string \<Rightarrow> string \<Rightarrow> string" where
  "deny_key s u = s @ '':'' @ u"

definition DenyForServer :: "int \<Rightarrow> string \<Rightarrow> string \<Rightarrow> denylist \<Rightarrow> denylist" where
  "DenyForServer now s u d = d\<lparr>dn_user := (dn_user d)(deny_key s u \<mapsto> now)\<rparr>"

definition denied_at :: "int option \<Rightarrow> int \<Rightarrow> bool" where
  "denied_at entry issued = (case entry of None \<Rightarrow> False | Some t \<Rightarrow> \<not> issued > t)"

definition isDenylisted :: "denylist \<Rightarrow> jwt_payload \<Rightarrow> string \<Rightarrow> string \<Rightarrow> bool" where
  "isDenylisted d p serverUUID userUUID =
     (case jp_issued p of
        None \<Rightarrow> True
      | Some iat \<Rightarrow>
          if serverUUID = '''' \<or> userUUID = '''' then True
          else if iat < dn_boot d then True
          else if denied_at (dn_jti d (jp_id p)) iat then True
          else denied_at (dn_user d (deny_key serverUUID userUUID)) iat)"

definition Denylisted :: "denylist \<Rightarrow> ws_payload \<Rightarrow> bool" where
  "Denylisted d p = isDenylisted d (wp_payload p) (wp_server p) (wp_user p)"

definition HasPermission :: "denylist \<Rightarrow> ws_payload \<Rightarrow> string \<Rightarrow> bool" where
  "HasPermission d p permission =
     (list_ex (\<lambda>k. k = permission \<or> (\<not> prefix ''admin'' permission \<and> k = ''*'')) (wp_permissions p) \<and> \<not> Denylisted d p)"

definition upload_Denylisted :: "denylist \<Rightarrow> upload_payload \<Rightarrow> bool" where
  "upload_Denylisted d p = isDenylisted d (up_payload p) (up_server p) (up_user p)"

definition file_Denylisted :: "denylist \<Rightarrow> file_payload \<Rightarrow> bool" where
  "file_Denylisted d p = isDenylisted d (fp_payload p) (fp_server p) (fp_user p)"

definition backup_Denylisted :: "denylist \<Rightarrow> backup_payload \<Rightarrow> bool" where
  "backup_Denylisted d p = isDenylisted d (bp_payload p) (bp_server p) (bp_user p)"

section \<open>One-time tokens\<close>

record 'c cache_api =
  ca_get :: "'c \<Rightarrow> int \<Rightarrow> string \<Rightarrow> bool"
  ca_set :: "'c \<Rightarrow> int \<Rightarrow> string \<Rightarrow> int \<Rightarrow> 'c"

text \<open>An entry is found until its lifetime is over; setting one entry leaves the others.\<close>

definition cache_laws :: "'c cache_api \<Rightarrow> bool" where
  "cache_laws api \<longleftrightarrow>
     (\<forall>c now k ttl now'. now \<le> now' \<and> now' < now + ttl \<longrightarrow> ca_get api (ca_set api c now k ttl) now' k) \<and>
     (\<forall>c now k ttl now' k'. k' \<noteq> k \<longrightarrow> ca_get api (ca_set api c now k ttl) now' k' = ca_get api c now' k')"

definition one_hour :: int where
  "one_hour = 60 * 60 * 1000000000"

definition IsValidToken :: "'c cache_api \<Rightarrow> int \<Rightarrow> string \<Rightarrow> 'c \<Rightarrow> bool \<times> 'c" where
  "IsValidToken api now token c =
     (if ca_get api c now token then (False, c) else (True, ca_set api c now token one_hour))"

text \<open>
  How the routes admit a request. The test of the one-time token is one operand of a chain of
  \<^verbatim>\<open>||\<close>, so a token is only spent when the operands before it did not reject it: the downloads
  spend it before they look at the scope, the upload after.
\<close>

datatype admission = Reject | Admit

definition getDownloadBackup_admit ::
  "'c cache_api \<Rightarrow> denylist \<Rightarrow> (string \<Rightarrow> bool) \<Rightarrow> int \<Rightarrow> backup_payload \<Rightarrow> 'c \<Rightarrow> admission \<times> 'c" where
  "getDownloadBackup_admit api d known now p c =
     (if \<not> known (bp_server p) \<or> backup_Denylisted d p then (Reject, c)
      else case IsValidToken api now (bp_unique p) c of
             (False, c) \<Rightarrow> (Reject, c)
           | (True, c) \<Rightarrow> (if \<not> HasScope (bp_scope p) ''backup-download'' then Reject else Admit, c))"

definition getDownloadFile_admit ::
  "'c cache_api \<Rightarrow> denylist \<Rightarrow> (string \<Rightarrow> bool) \<Rightarrow> int \<Rightarrow> file_payload \<Rightarrow> 'c \<Rightarrow> admission \<times> 'c" where
  "getDownloadFile_admit api d known now p c =
     (if \<not> known (fp_server p) \<or> file_Denylisted d p then (Reject, c)
      else case IsValidToken api now (fp_unique p) c of
             (False, c) \<Rightarrow> (Reject, c)
           | (True, c) \<Rightarrow> (if \<not> HasScope (fp_scope p) ''file-download'' then Reject else Admit, c))"

definition postServerUploadFiles_admit ::
  "'c cache_api \<Rightarrow> denylist \<Rightarrow> (string \<Rightarrow> bool) \<Rightarrow> int \<Rightarrow> upload_payload \<Rightarrow> 'c \<Rightarrow> admission \<times> 'c" where
  "postServerUploadFiles_admit api d known now p c =
     (if \<not> known (up_server p) \<or> upload_Denylisted d p \<or> \<not> HasScope (up_scope p) ''file-upload'' then (Reject, c)
      else case IsValidToken api now (up_unique p) c of
             (False, c) \<Rightarrow> (Reject, c)
           | (True, c) \<Rightarrow> (Admit, c))"

section \<open>Open websockets and contexts\<close>

text \<open>
  The table maps a connection to whether it has a function for its current user; that function
  reads the token of the connection, so its value is an argument. Cancelling a connection is an
  effect: the operations return the connections they cancelled.
\<close>

type_synonym ws_bag = "(string \<times> bool) list"

definition bag_Len :: "ws_bag \<Rightarrow> nat" where
  "bag_Len w = length w"

definition bag_TryPush :: "string \<Rightarrow> nat \<Rightarrow> ws_bag \<Rightarrow> bool \<times> ws_bag" where
  "bag_TryPush u mx w =
     (if map_of w u = None \<and> length w \<ge> mx then (False, w)
      else (True, (u, True) # filter (\<lambda>(v, _). v \<noteq> u) w))"

definition bag_Push :: "string \<Rightarrow> ws_bag \<Rightarrow> ws_bag" where
  "bag_Push u w = (u, False) # filter (\<lambda>(v, _). v \<noteq> u) w"

definition bag_Remove :: "string \<Rightarrow> ws_bag \<Rightarrow> ws_bag" where
  "bag_Remove u w = filter (\<lambda>(v, _). v \<noteq> u) w"

definition bag_CancelAll :: "ws_bag \<Rightarrow> string list \<times> ws_bag" where
  "bag_CancelAll w = (map fst w, [])"

definition bag_CancelUser :: "(string \<Rightarrow> string) \<Rightarrow> string \<Rightarrow> ws_bag \<Rightarrow> string list \<times> ws_bag" where
  "bag_CancelUser user_of user w =
     (map fst (filter (\<lambda>(u, f). f \<and> user_of u = user) w), filter (\<lambda>(u, f). \<not> (f \<and> user_of u = user)) w)"

text \<open>A context bag: the keys with a live context, each with the identity of its context.\<close>

record context_bag =
  cb_items :: "(string \<times> nat) list"
  cb_next :: nat
  cb_cancelled :: "nat list"

definition cb_Context :: "string \<Rightarrow> context_bag \<Rightarrow> nat \<times> context_bag" where
  "cb_Context key cb =
     (case map_of (cb_items cb) key of
        Some c \<Rightarrow> (c, cb)
      | None \<Rightarrow> (cb_next cb, cb\<lparr>cb_items := (key, cb_next cb) # cb_items cb, cb_next := Suc (cb_next cb)\<rparr>))"

definition cb_Cancel :: "string \<Rightarrow> context_bag \<Rightarrow> context_bag" where
  "cb_Cancel key cb =
     (case map_of (cb_items cb) key of
        None \<Rightarrow> cb
      | Some c \<Rightarrow> cb\<lparr>cb_items := filter (\<lambda>(k, _). k \<noteq> key) (cb_items cb), cb_cancelled := c # cb_cancelled cb\<rparr>)"

definition cb_CancelAll :: "context_bag \<Rightarrow> context_bag" where
  "cb_CancelAll cb = cb\<lparr>cb_items := [], cb_cancelled := map snd (cb_items cb) @ cb_cancelled cb\<rparr>"

section \<open>Withdrawing a user's access\<close>

text \<open>The daemon as far as the route touches it, with a log of the websockets it cancelled.\<close>

record access_state =
  ac_deny :: denylist
  ac_bags :: "string \<Rightarrow> ws_bag"
  ac_sftp :: "string \<Rightarrow> context_bag"
  ac_cancelled :: "string list"

definition deauthorize_server :: "int \<Rightarrow> (string \<Rightarrow> string) \<Rightarrow> string \<Rightarrow> string \<Rightarrow> access_state \<Rightarrow> access_state" where
  "deauthorize_server now user_of user sid st =
     (let (cs, bag) = bag_CancelUser user_of user (ac_bags st sid)
      in st\<lparr>ac_deny := DenyForServer now sid user (ac_deny st),
            ac_bags := (ac_bags st)(sid := bag),
            ac_sftp := (ac_sftp st)(sid := cb_Cancel user (ac_sftp st sid)),
            ac_cancelled := cs @ ac_cancelled st\<rparr>)"

definition postDeauthorizeUser ::
  "int \<Rightarrow> (string \<Rightarrow> string) \<Rightarrow> string list \<Rightarrow> string \<Rightarrow> string list \<Rightarrow> access_state \<Rightarrow> access_state" where
  "postDeauthorizeUser now user_of all user servers st =
     fold (deauthorize_server now user_of user) (if servers \<noteq> [] then filter (\<lambda>s. s \<in> set all) servers else all) st"

definition postServerDenyWSTokens :: "int \<Rightarrow> string list \<Rightarrow> denylist \<Rightarrow> denylist" where
  "postServerDenyWSTokens now jtis d = fold (DenyJTI now) jtis d"

section \<open>A one-time token is used once\<close>

datatype token_request = ReqBackup backup_payload | ReqFile file_payload | ReqUpload upload_payload

definition req_unique :: "token_request \<Rightarrow> string" where
  "req_unique r = (case r of ReqBackup p \<Rightarrow> bp_unique p | ReqFile p \<Rightarrow> fp_unique p | ReqUpload p \<Rightarrow> up_unique p)"

definition serve ::
  "'c cache_api \<Rightarrow> (string \<Rightarrow> bool) \<Rightarrow> int \<times> denylist \<times> token_request \<Rightarrow> 'c \<Rightarrow> admission \<times> 'c" where
  "serve api known q c =
     (case q of (now, d, r) \<Rightarrow>
        case r of
          ReqBackup p \<Rightarrow> getDownloadBackup_admit api d known now p c
        | ReqFile p \<Rightarrow> getDownloadFile_admit api d known now p c
        | ReqUpload p \<Rightarrow> postServerUploadFiles_admit api d known now p c)"

fun serve_all :: "'c cache_api \<Rightarrow> (string \<Rightarrow> bool) \<Rightarrow> (int \<times> denylist \<times> token_request) list \<Rightarrow> 'c \<Rightarrow> admission list" where
  "serve_all api known [] c = []"
| "serve_all api known (q # qs) c = (case serve api known q c of (r, c') \<Rightarrow> r # serve_all api known qs c')"

definition spent :: "'c cache_api \<Rightarrow> 'c \<Rightarrow> string \<Rightarrow> int \<Rightarrow> int \<Rightarrow> bool" where
  "spent api c k now T \<longleftrightarrow> (\<forall>now'. now \<le> now' \<and> now' < T \<longrightarrow> ca_get api c now' k)"

lemma serve_token:
  assumes "serve api known (now, d, r) c = (x, c')"
  shows "c' = c \<and> x = Reject \<or> (\<exists>b. IsValidToken api now (req_unique r) c = (b, c') \<and> (x = Admit \<longrightarrow> b))"
  using assms
  by (cases r) (auto simp: serve_def req_unique_def getDownloadBackup_admit_def getDownloadFile_admit_def
      postServerUploadFiles_admit_def split: if_splits prod.splits bool.splits)

lemma serve_spent:
  assumes laws: "cache_laws api" and s: "spent api c k now T" and t: "now \<le> t" and q: "serve api known (t, d, r) c = (x, c')"
  shows "spent api c' k t T \<and> (req_unique r = k \<and> x = Admit \<longrightarrow> T \<le> t)"
proof -
  have s': "spent api c k t T" using s t by (auto simp: spent_def)
  from serve_token [OF q] show ?thesis
  proof (elim disjE exE conjE)
    fix b assume v: "IsValidToken api t (req_unique r) c = (b, c')" "x = Admit \<longrightarrow> b"
    show ?thesis
    proof (cases "ca_get api c t (req_unique r)")
      case True
      with v s' show ?thesis by (auto simp: IsValidToken_def)
    next
      case False
      with v(1) have c': "c' = ca_set api c t (req_unique r) one_hour" by (auto simp: IsValidToken_def)
      show ?thesis
      proof (cases "req_unique r = k")
        case True
        with False s' have "T \<le> t" by (auto simp: spent_def not_less [symmetric])
        then show ?thesis by (auto simp: spent_def)
      next
        case False
        with laws s' show ?thesis unfolding c' cache_laws_def spent_def by (metis (no_types, lifting))
      qed
    qed
  qed (use s' in auto)
qed

lemma serve_all_spent:
  assumes "cache_laws api" "spent api c k now T" "sorted (now # map fst qs)" "j < length qs"
    "req_unique (snd (snd (qs ! j))) = k" "serve_all api known qs c ! j = Admit"
  shows "T \<le> fst (qs ! j)"
  using assms(2-)
proof (induction qs arbitrary: c now j)
  case (Cons q qs)
  obtain t d r where q: "q = (t, d, r)" by (metis prod_cases3)
  obtain x c' where x: "serve api known (t, d, r) c = (x, c')" by fastforce
  from serve_spent [OF assms(1) Cons.prems(1) _ x] Cons.prems(2) q
  have s: "spent api c' k t T" "req_unique r = k \<and> x = Admit \<longrightarrow> T \<le> t" by auto
  show ?case
  proof (cases j)
    case 0
    with Cons.prems q x s(2) show ?thesis by simp
  next
    case (Suc i)
    with Cons.IH [OF s(1), of i] Cons.prems q x show ?thesis by simp
  qed
qed simp

lemma serve_admit_spends:
  assumes "cache_laws api" "serve api known (t, d, r) c = (Admit, c')"
  shows "spent api c' (req_unique r) t (t + one_hour)"
  using serve_token [OF assms(2)] assms(1)
  by (auto simp: IsValidToken_def cache_laws_def spent_def split: if_splits)

lemma serve_all_nth:
  "i < length qs \<Longrightarrow> \<exists>c' c''. serve api known (qs ! i) c' = (serve_all api known qs c ! i, c'') \<and>
     (\<forall>j. i < j \<and> j < length qs \<longrightarrow> serve_all api known qs c ! j = serve_all api known (drop (Suc i) qs) c'' ! (j - Suc i))"
proof (induction qs arbitrary: c i)
  case (Cons q qs)
  obtain x c1 where x: "serve api known q c = (x, c1)" by fastforce
  show ?case
  proof (cases i)
    case 0
    with x show ?thesis by (intro exI [of _ c] exI [of _ c1]) (auto simp: nth_Cons')
  next
    case (Suc n)
    with Cons.IH [of n c1] Cons.prems obtain c' c'' where "serve api known (qs ! n) c' = (serve_all api known qs c1 ! n, c'')"
      "\<forall>j. n < j \<and> j < length qs \<longrightarrow> serve_all api known qs c1 ! j = serve_all api known (drop (Suc n) qs) c'' ! (j - Suc n)" by auto
    with Suc x show ?thesis
      by (intro exI [of _ c'] exI [of _ c'']) (auto simp: nth_Cons' less_Suc_eq_0_disj Suc_less_eq2)
  qed
qed simp

text \<open>A cache as a list of keys with their end of life, and the same upload token presented three times.\<close>

definition list_cache :: "(string \<times> int) list cache_api" where
  "list_cache = \<lparr>ca_get = (\<lambda>c now k. list_ex (\<lambda>(k', e). k' = k \<and> now < e) c),
                 ca_set = (\<lambda>c now k ttl. (k, now + ttl) # filter (\<lambda>(k', _). k' \<noteq> k) c)\<rparr>"

lemma list_cache_laws: "cache_laws list_cache"
  by (auto simp: cache_laws_def list_cache_def list_ex_iff)

definition sample_upload :: upload_payload where
  "sample_upload = \<lparr>up_payload = \<lparr>jp_issued = Some 0, jp_expires = Some (2 * one_hour), jp_id = ''x''\<rparr>, up_scope = ''file-upload'',
     up_server = ''s'', up_user = ''u'', up_unique = ''id''\<rparr>"

definition sample_requests :: "(int \<times> denylist \<times> token_request) list" where
  "sample_requests = map (\<lambda>t. (t, \<lparr>dn_boot = 0, dn_jti = (\<lambda>_. None), dn_user = (\<lambda>_. None)\<rparr>, ReqUpload sample_upload)) [0, 5, one_hour]"

lemma sample_served: "serve_all list_cache (\<lambda>_. True) sample_requests [] = [Admit, Reject, Admit]"
  by code_simp

text \<open>
  C14. One-time tokens. Take any sequence of requests for a backup, a file or an upload, with a
  clock that does not go back. When two of them present tokens with the same unique id and both
  are admitted, an hour lies between them: the store remembers an id for that long whatever the
  other requests do.
\<close>

theorem one_time_token_admits_once:
  assumes laws: "cache_laws api" and srt: "sorted (map fst qs)" and ij: "i < j" "j < length qs"
    and same: "req_unique (snd (snd (qs ! i))) = req_unique (snd (snd (qs ! j)))"
    and adm: "serve_all api known qs c ! i = Admit" "serve_all api known qs c ! j = Admit"
  shows "fst (qs ! i) + one_hour \<le> fst (qs ! j)"
proof -
  obtain t d r where q: "qs ! i = (t, d, r)" by (metis prod_cases3)
  have "i < length qs" using ij by simp
  from serve_all_nth [OF this, of api known c] adm(1) obtain c' c'' where n: "serve api known (qs ! i) c' = (Admit, c'')"
    "\<forall>j. i < j \<and> j < length qs \<longrightarrow> serve_all api known qs c ! j = serve_all api known (drop (Suc i) qs) c'' ! (j - Suc i)" by auto
  let ?qs = "drop (Suc i) qs"
  have sp: "spent api c'' (req_unique r) t (t + one_hour)" using serve_admit_spends [OF laws] n(1) q by simp
  have "sorted (drop i (map fst qs))" using srt by (rule sorted_wrt_drop)
  then have "sorted (t # map fst ?qs)" using \<open>i < length qs\<close> q by (simp add: drop_map [symmetric] Cons_nth_drop_Suc [symmetric])
  from serve_all_spent [OF laws sp this, of "j - Suc i" known] show ?thesis using ij n(2) adm(2) same q by simp
qed

theorem one_time_token_admits_once_witness:
  "fst (sample_requests ! 0) + one_hour \<le> fst (sample_requests ! 2)"
proof -
  have "sorted (map fst sample_requests)" by code_simp
  from one_time_token_admits_once [OF list_cache_laws this, of 0 2 "\<lambda>_. True" "[]"] show ?thesis
    unfolding sample_served by (simp add: sample_requests_def numeral_2_eq_2)
qed

end
