(* ===== verification/Ws_Handler.thy ===== *)
theory Ws_Handler
  imports Ws_Tokens
begin

text \<open>
  The websocket of a server (\<^verbatim>\<open>router/websocket/websocket.go\<close>, \<^verbatim>\<open>limiter.go\<close>, \<^verbatim>\<open>message.go\<close>,
  \<^verbatim>\<open>server_importer.go\<close>, and the connection's life in \<^verbatim>\<open>router/router_server_ws.go\<close>): which
  messages are dropped, which token is on the socket, and what a message may make the daemon do.

  What the daemon does is a list of effects. A message is handled in one step, at one reading of
  the clock and of the revocation lists. What the server, Docker and the connection answer is
  collected in \<open>ws_answers\<close>. The rate limiter library is a parameter.
\<close>

section \<open>Messages and effects (message.go)\<close>

record ws_message =
  ms_event :: string
  ms_args :: "string list"

datatype ws_error =
    ErrJwtNotPresent
  | ErrExpValidation
  | ErrJwtOnDenylist
  | ErrJwtNoConnectPerm
  | ErrJwtUuidMismatch
  | ErrParseToken
  | ErrSuspended
  | ErrImporterPermission
  | ErrContext
  | ErrOnAuthenticated
  | ErrWrite
  | ErrPower
  | ErrReadlog
  | ErrSendCommand
  | ErrCollaboration

text \<open>
  \<open>Raw v\<close> is a write of a message to the connection. The others are calls into the server:
  a power action, a console command, an entry of the activity log with the user it is
  attributed to, reading the console log, registering the event listeners, and asking for the
  disk usage.
\<close>

datatype ws_effect =
    Raw ws_message
  | Power string
  | Command string
  | Activity string string
  | ReadLog
  | Listen
  | AskSpace

datatype write_result = WriteOk | WriteCloseSent | WriteFailed

datatype power_result = PowerOk | PowerLocked | PowerFailed

text \<open>
  \<open>wa_on_auth\<close>: the function that runs on the first authentication succeeds; \<open>wa_attached\<close>: the
  environment is attached, or is not a Docker environment; \<open>wa_write\<close>: the result of writing to
  the connection; \<open>wa_text\<close>: the text of an error.
\<close>

record ws_answers =
  wa_suspended :: bool
  wa_now :: int
  wa_state :: string
  wa_on_auth :: bool
  wa_installing :: bool
  wa_transferring :: bool
  wa_running :: bool
  wa_logs :: "string list option"
  wa_stats :: string
  wa_power :: power_result
  wa_attached :: bool
  wa_command :: bool
  wa_ctx_done :: bool
  wa_importer :: string
  wa_write :: write_result
  wa_uuid :: string
  wa_text :: "ws_error \<Rightarrow> string"

definition msg :: "string \<Rightarrow> string list \<Rightarrow> ws_message" where
  "msg e args = \<lparr>ms_event = e, ms_args = args\<rparr>"

section \<open>The connection and its rate limits (limiter.go)\<close>

record 'l rate_api =
  rl_new :: "int \<Rightarrow> nat \<Rightarrow> 'l"
  rl_allow :: "int \<Rightarrow> 'l \<Rightarrow> bool \<times> 'l"

record 'l ws_conn =
  hc_uuid :: string
  hc_server :: string
  hc_jwt :: "ws_payload option"
  hc_limits :: "string \<Rightarrow> 'l option"
  hc_throttles :: "string \<Rightarrow> bool"

definition NewConn :: "string \<Rightarrow> string \<Rightarrow> 'l ws_conn" where
  "NewConn u s = \<lparr>hc_uuid = u, hc_server = s, hc_jwt = None, hc_limits = (\<lambda>_. None), hc_throttles = (\<lambda>_. False)\<rparr>"

text \<open>The interval of \<^verbatim>\<open>rate.Every\<close> in nanoseconds, and the burst.\<close>

definition limitValuesFor :: "string \<Rightarrow> int \<times> nat" where
  "limitValuesFor e =
     (if e = ''auth'' \<or> e = ''send logs'' then (5000000000, 2)
      else if e = ''send command'' then (1000000000, 10)
      else (1000000000, 4))"

definition limiterName :: "string \<Rightarrow> string" where
  "limiterName e = (if e = ''auth'' \<or> e = ''send logs'' \<or> e = ''send command'' then e else ''_default'')"

definition limiter_For :: "'l rate_api \<Rightarrow> string \<Rightarrow> 'l ws_conn \<Rightarrow> 'l \<times> 'l ws_conn" where
  "limiter_For api e h =
     (let name = limiterName e
      in case hc_limits h name of
           Some l \<Rightarrow> (l, h)
         | None \<Rightarrow> (let (limit, burst) = limitValuesFor e; l = rl_new api limit burst
                    in (l, h\<lparr>hc_limits := (hc_limits h)(name \<mapsto> l)\<rparr>)))"

definition SendThrottled :: "string \<Rightarrow> ws_effect list" where
  "SendThrottled scope = [Raw (msg ''throttled'' [scope])]"

definition IsThrottled :: "'l rate_api \<Rightarrow> int \<Rightarrow> string \<Rightarrow> 'l ws_conn \<Rightarrow> bool \<times> ws_effect list \<times> 'l ws_conn" where
  "IsThrottled api now e h =
     (let (l, h) = limiter_For api e h;
          (ok, l) = rl_allow api now l;
          h = h\<lparr>hc_limits := (hc_limits h)(limiterName e \<mapsto> l)\<rparr>
      in if ok then (False, [], h\<lparr>hc_throttles := (hc_throttles h)(e := False)\<rparr>)
         else let notify = \<not> hc_throttles h e
              in (True, if notify then SendThrottled e else [], h\<lparr>hc_throttles := (hc_throttles h)(e := True)\<rparr>))"

definition IsBetterFilesCollaborationEvent :: "string \<Rightarrow> bool" where
  "IsBetterFilesCollaborationEvent e = prefix ''betterfiles:collab:'' e"

definition native_events :: "string list" where
  "native_events = [''file collab subscribe'', ''file collab unsubscribe'', ''file collab update'',
                    ''file collab awareness'', ''file collab save'']"

definition IsNativeFileCollaborationEvent :: "string \<Rightarrow> bool" where
  "IsNativeFileCollaborationEvent e = (e \<in> set native_events)"

definition IsFileCollaborationEvent :: "string \<Rightarrow> bool" where
  "IsFileCollaborationEvent e = (IsBetterFilesCollaborationEvent e \<or> IsNativeFileCollaborationEvent e)"

text \<open>The events that \<^verbatim>\<open>HandleBetterFilesCollaboration\<close> handles.\<close>

definition better_events :: "string list" where
  "better_events = map (\<lambda>x. ''betterfiles:collab:'' @ x)
     [''join'', ''leave'', ''close'', ''file:open'', ''file:close'', ''presence'', ''patch'', ''snapshot'',
      ''file:saved'', ''file:check'', ''file:external-modified'']"

section \<open>The token on the socket\<close>

definition NewTokenPayload :: "ws_payload jwt_api \<Rightarrow> denylist \<Rightarrow> int \<Rightarrow> string \<Rightarrow> ws_error + ws_payload" where
  "NewTokenPayload api d now token =
     (case ParseToken api wp_payload now token of
        Inl VerifyExp \<Rightarrow> Inl ErrExpValidation
      | Inl VerifyOther \<Rightarrow> Inl ErrParseToken
      | Inr p \<Rightarrow>
          if Denylisted d p then Inl ErrJwtOnDenylist
          else if \<not> HasPermission d p ''websocket.connect'' \<or> \<not> HasScope (wp_scope p) ''websocket''
          then Inl ErrJwtNoConnectPerm
          else Inr p)"

definition validJwt :: "ws_payload jwt_api \<Rightarrow> denylist \<Rightarrow> int \<Rightarrow> 'l ws_conn \<Rightarrow> ws_error + ws_payload" where
  "validJwt api d now h =
     (case hc_jwt h of
        None \<Rightarrow> Inl ErrJwtNotPresent
      | Some j \<Rightarrow>
          if \<not> jv_exp_valid api now (jp_expires (wp_payload j)) then Inl ErrExpValidation
          else if Denylisted d j then Inl ErrJwtOnDenylist
          else if \<not> HasPermission d j ''websocket.connect'' \<or> \<not> HasScope (wp_scope j) ''websocket''
          then Inl ErrJwtNoConnectPerm
          else if hc_server h \<noteq> wp_server j then Inl ErrJwtUuidMismatch
          else Inr j)"

definition IsJwtError :: "ws_error \<Rightarrow> bool" where
  "IsJwtError e = (e \<in> {ErrJwtNotPresent, ErrJwtNoConnectPerm, ErrJwtUuidMismatch, ErrJwtOnDenylist, ErrExpValidation})"

definition conn_User :: "'l ws_conn \<Rightarrow> string" where
  "conn_User h = (case hc_jwt h of Some j \<Rightarrow> wp_user j | None \<Rightarrow> '''')"

section \<open>Sending\<close>

definition isBetterConsoleInstallOutputEvent :: "string \<Rightarrow> bool" where
  "isBetterConsoleInstallOutputEvent e =
     (e = ''install output'' \<or> e = ''image pull started'' \<or> e = ''image pull progress'' \<or> e = ''image pull completed'')"

definition isServerImporterEvent :: "string \<Rightarrow> bool" where
  "isServerImporterEvent e = prefix ''serverimporter:'' e"

definition write_error :: "ws_answers \<Rightarrow> ws_error option" where
  "write_error a = (case wa_write a of WriteFailed \<Rightarrow> Some ErrWrite | _ \<Rightarrow> None)"

definition SendJson ::
  "ws_payload jwt_api \<Rightarrow> denylist \<Rightarrow> ws_answers \<Rightarrow> 'l ws_conn \<Rightarrow> ws_message \<Rightarrow> ws_effect list \<times> ws_error option" where
  "SendJson api d a h v =
     (case validJwt api d (wa_now a) h of
        Inl e \<Rightarrow> ([Raw (msg ''jwt error'' [wa_text a e])], None)
      | Inr j \<Rightarrow>
          if isBetterConsoleInstallOutputEvent (ms_event v) \<and> \<not> HasPermission d j ''admin.websocket.install'' then ([], None)
          else if prefix ''backup completed'' (ms_event v) \<and> \<not> HasPermission d j ''backup.read'' then ([], None)
          else if ms_event v = ''transfer logs'' \<and>
                  (\<not> HasPermission d j ''admin.websocket.transfer'' \<or>
                   (isServerImporterEvent (ms_event v) \<and> \<not> HasPermission d j ''file.sftp''))
          then ([], None)
          else ([Raw v], write_error a))"

definition GetErrorMessage :: "ws_answers \<Rightarrow> string \<Rightarrow> string" where
  "GetErrorMessage a m = ''Error Event ['' @ wa_uuid a @ '']: '' @ m"

definition SendErrorJson :: "ws_payload jwt_api \<Rightarrow> denylist \<Rightarrow> ws_answers \<Rightarrow> 'l ws_conn \<Rightarrow> ws_error \<Rightarrow> ws_effect list" where
  "SendErrorJson api d a h err =
     (let j = validJwt api d (wa_now a) h;
          isJWTError = IsJwtError err;
          receive = (case j of Inr p \<Rightarrow> HasPermission d p ''admin.websocket.errors'' | Inl _ \<Rightarrow> False);
          event = (if isJWTError then ''jwt error'' else ''daemon error'');
          arg = (if isJWTError \<or> receive then wa_text a err
                 else ''an unexpected error was encountered while handling this request'')
      in [Raw (msg event [GetErrorMessage a arg])])"

section \<open>Inbound messages\<close>

type_synonym 'l outcome = "ws_effect list \<times> ws_error option \<times> 'l ws_conn"

definition inbound_auth :: "ws_payload jwt_api \<Rightarrow> denylist \<Rightarrow> ws_answers \<Rightarrow> ws_message \<Rightarrow> 'l ws_conn \<Rightarrow> 'l outcome" where
  "inbound_auth api d a m h =
     (case NewTokenPayload api d (wa_now a) (concat (ms_args m)) of
        Inl e \<Rightarrow> ([], Some e, h)
      | Inr token \<Rightarrow>
          if wp_server token \<noteq> hc_server h then ([], Some ErrJwtUuidMismatch, h)
          else let newConnection = (hc_jwt h = None)
               in if newConnection \<and> \<not> wa_on_auth a then ([], Some ErrOnAuthenticated, h)
                  else let h = h\<lparr>hc_jwt := Some token\<rparr>; ok = [Raw (msg ''auth success'' [])]
                       in if \<not> newConnection then (ok, None, h)
                          else (ok @ [Listen] @ fst (SendJson api d a h (msg ''status'' [wa_state a])) @
                                (if wa_state a = ''offline'' \<and> \<not> wa_installing a \<and> \<not> wa_transferring a
                                 then AskSpace # fst (SendJson api d a h (msg ''stats'' [wa_stats a])) else []),
                                None, h))"

definition power_permission :: "string \<Rightarrow> string option" where
  "power_permission action =
     (if action = ''start'' then Some ''control.start''
      else if action = ''stop'' then Some ''control.stop''
      else if action = ''restart'' then Some ''control.restart''
      else if action = ''kill'' then Some ''control.stop''
      else None)"

definition inbound_power ::
  "ws_payload jwt_api \<Rightarrow> denylist \<Rightarrow> ws_answers \<Rightarrow> ws_payload \<Rightarrow> ws_message \<Rightarrow> 'l ws_conn \<Rightarrow> 'l outcome" where
  "inbound_power api d a j m h =
     (let action = concat (ms_args m)
      in if (case power_permission action of Some p \<Rightarrow> \<not> HasPermission d j p | None \<Rightarrow> False) then ([], None, h)
         else case wa_power a of
                PowerLocked \<Rightarrow> (Power action # fst (SendJson api d a h (msg ''daemon error''
                  [GetErrorMessage a ''another power action is currently being processed for this server, please try again later''])), None, h)
              | PowerOk \<Rightarrow> ([Power action, Activity (wp_user j) (''server:power.'' @ action)], None, h)
              | PowerFailed \<Rightarrow> ([Power action], Some ErrPower, h))"

definition inbound_logs :: "ws_payload jwt_api \<Rightarrow> denylist \<Rightarrow> ws_answers \<Rightarrow> 'l ws_conn \<Rightarrow> 'l outcome" where
  "inbound_logs api d a h =
     (if \<not> wa_running a then ([], None, h)
      else case wa_logs a of
             None \<Rightarrow> ([ReadLog], Some ErrReadlog, h)
           | Some ls \<Rightarrow> (ReadLog # concat (map (\<lambda>l. fst (SendJson api d a h (msg ''console output'' [l]))) ls), None, h))"

definition inbound_stats :: "ws_payload jwt_api \<Rightarrow> denylist \<Rightarrow> ws_answers \<Rightarrow> 'l ws_conn \<Rightarrow> 'l outcome" where
  "inbound_stats api d a h = (fst (SendJson api d a h (msg ''stats'' [wa_stats a])), None, h)"

definition inbound_command :: "denylist \<Rightarrow> ws_answers \<Rightarrow> ws_payload \<Rightarrow> ws_message \<Rightarrow> 'l ws_conn \<Rightarrow> 'l outcome" where
  "inbound_command d a j m h =
     (if \<not> HasPermission d j ''control.console'' then ([], None, h)
      else if wa_state a = ''offline'' then ([], None, h)
      else if wa_state a = ''starting'' \<and> \<not> wa_attached a then ([], None, h)
      else let c = concat (ms_args m)
           in if \<not> wa_command a then ([Command c], Some ErrSendCommand, h)
              else ([Command c, Activity (wp_user j) ''server:console.command''], None, h))"

definition HandleServerImporter :: "ws_payload jwt_api \<Rightarrow> denylist \<Rightarrow> ws_answers \<Rightarrow> 'l ws_conn \<Rightarrow> 'l outcome" where
  "HandleServerImporter api d a h =
     (if (case hc_jwt h of None \<Rightarrow> True | Some j \<Rightarrow> \<not> HasPermission d j ''file.sftp'')
      then (SendErrorJson api d a h ErrImporterPermission, if wa_write a = WriteOk then None else Some ErrWrite, h)
      else if wa_ctx_done a then ([], Some ErrContext, h)
      else let (es, e) = SendJson api d a h (msg ''serverimporter:progress'' [wa_importer a]) in (es, e, h))"

text \<open>
  \<open>collab\<close> is what the two collaboration handlers do with an event of theirs: the effects they
  have on the socket, and their error.
\<close>

type_synonym 'l collab_handler = "'l ws_conn \<Rightarrow> ws_message \<Rightarrow> ws_message list \<times> bool"

text \<open>The handlers behind the check of the token, with the token that passed it.\<close>

definition inbound_dispatch ::
  "ws_payload jwt_api \<Rightarrow> 'l collab_handler \<Rightarrow> denylist \<Rightarrow> ws_answers \<Rightarrow> ws_payload \<Rightarrow> ws_message \<Rightarrow> 'l ws_conn \<Rightarrow> 'l outcome" where
  "inbound_dispatch api collab d a j m h =
     (let e = ms_event m
      in if e \<in> set better_events \<or> IsNativeFileCollaborationEvent e
         then (let (ms, ok) = collab h m
               in (concat (map (\<lambda>v. fst (SendJson api d a h v)) ms), if ok then None else Some ErrCollaboration, h))
         else if e = ''serverimporter:progress:get'' then HandleServerImporter api d a h
         else if e = ''set state'' then inbound_power api d a j m h
         else if e = ''send logs'' then inbound_logs api d a h
         else if e = ''send stats'' then inbound_stats api d a h
         else if e = ''send command'' then inbound_command d a j m h
         else ([], None, h))"

definition HandleInbound ::
  "ws_payload jwt_api \<Rightarrow> 'l rate_api \<Rightarrow> 'l collab_handler \<Rightarrow> denylist \<Rightarrow> ws_answers \<Rightarrow> ws_message \<Rightarrow> 'l ws_conn \<Rightarrow> 'l outcome" where
  "HandleInbound api rate collab d a m h =
     (let e = ms_event m
      in if wa_suspended a then ([], Some ErrSuspended, h)
         else case (if IsFileCollaborationEvent e then (False, [], h) else IsThrottled rate (wa_now a) e h) of
           (True, es, h) \<Rightarrow> (es, None, h)
         | (False, _, h) \<Rightarrow>
             if e = ''auth'' then inbound_auth api d a m h
             else case validJwt api d (wa_now a) h of
               Inl err \<Rightarrow> ([Raw (msg ''jwt error'' [wa_text a err])], None, h)
             | Inr j \<Rightarrow> inbound_dispatch api collab d a j m h)"

section \<open>The life of a connection (router_server_ws.go)\<close>

datatype open_result = TooMany | ClosedSuspended | Opened

definition ws_open :: "nat \<Rightarrow> ws_bag \<Rightarrow> bool \<Rightarrow> open_result" where
  "ws_open mx bag suspended =
     (if bag_Len bag \<ge> mx then TooMany else if suspended then ClosedSuspended else Opened)"

text \<open>
  The function that runs on the first authentication: the answer, the table of connections, and
  whether it cancels the connection. \<open>stopped\<close> is the answer of the timer's \<^verbatim>\<open>Stop\<close>.
\<close>

definition on_authenticated :: "bool \<Rightarrow> bool \<Rightarrow> string \<Rightarrow> nat \<Rightarrow> ws_bag \<Rightarrow> bool \<times> bool \<times> ws_bag" where
  "on_authenticated closed stopped u mx bag =
     (if closed \<or> \<not> stopped then (False, False, bag)
      else case bag_TryPush u mx bag of
             (False, bag) \<Rightarrow> (False, True, bag)
           | (True, bag) \<Rightarrow> (True, False, bag))"

datatype frame = Frame bool nat "ws_message option"

datatype dispatch = Drop | Handle ws_message

definition allowOrdinaryMessage :: "'l rate_api \<Rightarrow> int \<Rightarrow> 'l \<times> bool \<Rightarrow> bool \<times> ws_effect list \<times> 'l \<times> bool" where
  "allowOrdinaryMessage api now lt =
     (let (l, throttled) = lt; (ok, l) = rl_allow api now l
      in if \<not> ok then (False, if throttled then [] else SendThrottled ''global'', l, True)
         else (True, [], l, False))"

definition read_frame ::
  "'l rate_api \<Rightarrow> int \<Rightarrow> frame \<Rightarrow> 'l \<times> bool \<Rightarrow> dispatch \<times> ws_effect list \<times> 'l \<times> bool" where
  "read_frame api now f lt =
     (case f of Frame is_text len parsed \<Rightarrow>
        if \<not> is_text \<or> len > 32768 then (Drop, [], lt)
        else case parsed of
               None \<Rightarrow> (let (_, es, lt) = allowOrdinaryMessage api now lt in (Drop, es, lt))
             | Some m \<Rightarrow>
                 if IsFileCollaborationEvent (ms_event m) then (Handle m, [], lt)
                 else (let (ok, es, lt) = allowOrdinaryMessage api now lt in (if ok then Handle m else Drop, es, lt)))"

text \<open>\<^verbatim>\<open>handleMessage\<close>: the effects, and whether the connection is cancelled.\<close>

definition handleMessage ::
  "ws_payload jwt_api \<Rightarrow> 'l rate_api \<Rightarrow> 'l collab_handler \<Rightarrow> denylist \<Rightarrow> ws_answers \<Rightarrow> ws_message \<Rightarrow> 'l ws_conn \<Rightarrow>
   ws_effect list \<times> bool \<times> 'l ws_conn" where
  "handleMessage api rate collab d a m h =
     (case HandleInbound api rate collab d a m h of
        (es, None, h) \<Rightarrow> (es, False, h)
      | (es, Some e, h) \<Rightarrow>
          if e = ErrSuspended then (es, True, h) else (es @ SendErrorJson api d a h e, False, h))"

section \<open>What a message needs\<close>

text \<open>A token that the daemon accepts at a point in time on a connection to a server.\<close>

definition live_token :: "ws_payload jwt_api \<Rightarrow> denylist \<Rightarrow> int \<Rightarrow> string \<Rightarrow> ws_payload \<Rightarrow> bool" where
  "live_token api d now sid j \<longleftrightarrow>
     wp_server j = sid \<and> jv_exp_valid api now (jp_expires (wp_payload j)) \<and> \<not> Denylisted d j \<and>
     HasPermission d j ''websocket.connect'' \<and> HasScope (wp_scope j) ''websocket''"

text \<open>Everything except the messages that report an error or a dropped message.\<close>

definition privileged :: "ws_effect \<Rightarrow> bool" where
  "privileged e = (case e of Raw v \<Rightarrow> ms_event v \<notin> {''jwt error'', ''throttled'', ''daemon error''} | _ \<Rightarrow> True)"

definition permitted :: "denylist \<Rightarrow> ws_payload \<Rightarrow> ws_effect \<Rightarrow> bool" where
  "permitted d j e =
     (case e of
        Power act \<Rightarrow> (case power_permission act of Some p \<Rightarrow> HasPermission d j p | None \<Rightarrow> True)
      | Command _ \<Rightarrow> HasPermission d j ''control.console''
      | Activity u _ \<Rightarrow> u = wp_user j
      | Raw v \<Rightarrow> (isBetterConsoleInstallOutputEvent (ms_event v) \<longrightarrow> HasPermission d j ''admin.websocket.install'') \<and>
                 (prefix ''backup completed'' (ms_event v) \<longrightarrow> HasPermission d j ''backup.read'') \<and>
                 (ms_event v = ''transfer logs'' \<longrightarrow> HasPermission d j ''admin.websocket.transfer'')
      | _ \<Rightarrow> True)"

lemma validJwt_live: "validJwt api d now h = Inr j \<longleftrightarrow> hc_jwt h = Some j \<and> live_token api d now (hc_server h) j"
  by (auto simp: validJwt_def live_token_def split: option.splits if_splits)

lemma SendJson_live:
  assumes "e \<in> set (fst (SendJson api d a h v))" "privileged e"
  shows "\<exists>j. hc_jwt h = Some j \<and> live_token api d (wa_now a) (hc_server h) j \<and> permitted d j e"
  using assms
  by (auto simp: SendJson_def privileged_def permitted_def msg_def validJwt_live split: sum.splits if_splits)

lemma NewTokenPayload_live:
  assumes "jwt_laws api" "NewTokenPayload api d now tok = Inr j" "wp_server j = sid"
  shows "live_token api d now sid j"
  using assms
  by (auto simp: NewTokenPayload_def live_token_def jwt_laws_def ParseToken_def split: sum.splits verify_error.splits if_splits)

lemma IsThrottled_frame:
  assumes "IsThrottled rate now e h = (b, es, h')"
  shows "hc_jwt h' = hc_jwt h \<and> hc_server h' = hc_server h \<and> list_all (\<lambda>e. \<not> privileged e) es"
  using assms
  by (auto simp: IsThrottled_def limiter_For_def SendThrottled_def privileged_def msg_def Let_def
      split: prod.splits option.splits if_splits)

definition effects_ok :: "ws_payload jwt_api \<Rightarrow> denylist \<Rightarrow> int \<Rightarrow> 'l ws_conn \<Rightarrow> ws_effect list \<Rightarrow> bool" where
  "effects_ok api d now h es \<longleftrightarrow>
     (\<forall>e \<in> set es. privileged e \<longrightarrow> (\<exists>j. hc_jwt h = Some j \<and> live_token api d now (hc_server h) j \<and> permitted d j e))"

lemma effects_ok_simps [simp]:
  "effects_ok api d now h []"
  "effects_ok api d now h (es @ es') \<longleftrightarrow> effects_ok api d now h es \<and> effects_ok api d now h es'"
  "effects_ok api d now h (concat ess) \<longleftrightarrow> (\<forall>es \<in> set ess. effects_ok api d now h es)"
  by (auto simp: effects_ok_def)

lemma effects_ok_Cons:
  "effects_ok api d now h (e # es) \<longleftrightarrow>
     (privileged e \<longrightarrow> (\<exists>j. hc_jwt h = Some j \<and> live_token api d now (hc_server h) j \<and> permitted d j e)) \<and> effects_ok api d now h es"
  by (auto simp: effects_ok_def)

lemma effects_ok_SendJson [simp]: "effects_ok api d (wa_now a) h (fst (SendJson api d a h v))"
  unfolding effects_ok_def using SendJson_live by blast

lemma effects_ok_error [simp]:
  "effects_ok api d now h (SendErrorJson api d a h' err)" "effects_ok api d now h [Raw (msg ''jwt error'' x)]"
  by (simp_all add: effects_ok_def SendErrorJson_def privileged_def msg_def Let_def)

lemma inbound_auth_ok:
  assumes "jwt_laws api" "inbound_auth api d a m h = (es, err, h')"
  shows "effects_ok api d (wa_now a) h' es \<and> hc_server h' = hc_server h"
proof -
  have "effects_ok api d (wa_now a) (h\<lparr>hc_jwt := Some tok\<rparr>) (e # es)"
    if "NewTokenPayload api d (wa_now a) (concat (ms_args m)) = Inr tok" "wp_server tok = hc_server h"
      "effects_ok api d (wa_now a) (h\<lparr>hc_jwt := Some tok\<rparr>) es" "e \<in> {Raw (msg ''auth success'' []), Listen, AskSpace}" for tok e es
    using that NewTokenPayload_live [OF assms(1) that(1)]
    by (auto simp: effects_ok_Cons permitted_def msg_def isBetterConsoleInstallOutputEvent_def)
  note cons = this
  from assms(2) show ?thesis
    by (auto simp: inbound_auth_def Let_def split: sum.splits if_splits intro!: cons)
qed

lemma inbound_power_ok:
  assumes "validJwt api d (wa_now a) h = Inr j" "inbound_power api d a j m h = (es, err, h')"
  shows "effects_ok api d (wa_now a) h' es \<and> h' = h"
  using assms
  by (auto simp: inbound_power_def Let_def effects_ok_Cons validJwt_live permitted_def split: option.splits if_splits power_result.splits)

lemma inbound_command_ok:
  assumes "validJwt api d (wa_now a) h = Inr j" "inbound_command d a j m h = (es, err, h')"
  shows "effects_ok api d (wa_now a) h' es \<and> h' = h"
  using assms
  by (auto simp: inbound_command_def Let_def effects_ok_Cons validJwt_live permitted_def split: if_splits)

lemma inbound_other_ok:
  assumes "validJwt api d (wa_now a) h = Inr j"
  shows "inbound_logs api d a h = (es, err, h') \<Longrightarrow> effects_ok api d (wa_now a) h' es \<and> h' = h"
    and "inbound_stats api d a h = (es, err, h') \<Longrightarrow> effects_ok api d (wa_now a) h' es \<and> h' = h"
    and "HandleServerImporter api d a h = (es, err, h') \<Longrightarrow> effects_ok api d (wa_now a) h' es \<and> h' = h"
proof -
  show "effects_ok api d (wa_now a) h' es \<and> h' = h" if "inbound_logs api d a h = (es, err, h')"
    using assms that
    by (auto simp: inbound_logs_def effects_ok_Cons validJwt_live permitted_def split: if_splits option.splits)
  show "effects_ok api d (wa_now a) h' es \<and> h' = h" if "inbound_stats api d a h = (es, err, h')"
    using that by (auto simp: inbound_stats_def)
  show "effects_ok api d (wa_now a) h' es \<and> h' = h" if "HandleServerImporter api d a h = (es, err, h')"
    using that effects_ok_SendJson [of api d a h "msg ''serverimporter:progress'' [wa_importer a]"]
    unfolding HandleServerImporter_def by (auto split: if_splits simp: case_prod_beta)
qed

lemma inbound_dispatch_ok:
  assumes "validJwt api d (wa_now a) h = Inr j" "inbound_dispatch api collab d a j m h = (es, err, h')"
  shows "effects_ok api d (wa_now a) h' es \<and> h' = h"
proof -
  note ok = inbound_power_ok [OF assms(1)] inbound_command_ok [OF assms(1)] inbound_other_ok [OF assms(1)]
  from assms(2) show ?thesis
    unfolding inbound_dispatch_def Let_def
    by (simp only: split: if_splits) (auto dest: ok simp: case_prod_beta)
qed

lemma HandleInbound_ok:
  assumes laws: "jwt_laws api" and h: "HandleInbound api rate collab d a m h = (es, err, h')"
  shows "effects_ok api d (wa_now a) h' es \<and> hc_server h' = hc_server h"
proof (cases "wa_suspended a")
  case False
  obtain b es0 h0 where t: "(if IsFileCollaborationEvent (ms_event m) then (False, [], h) else IsThrottled rate (wa_now a) (ms_event m) h) = (b, es0, h0)"
    by (metis prod_cases3)
  then have f: "hc_server h0 = hc_server h" "list_all (\<lambda>e. \<not> privileged e) es0"
    using IsThrottled_frame by (fastforce split: if_splits)+
  have eq: "(es, err, h') = (if b then (es0, None, h0) else if ms_event m = ''auth'' then inbound_auth api d a m h0
      else case validJwt api d (wa_now a) h0 of Inl err \<Rightarrow> ([Raw (msg ''jwt error'' [wa_text a err])], None, h0)
           | Inr j \<Rightarrow> inbound_dispatch api collab d a j m h0)"
    using h False unfolding HandleInbound_def Let_def t by (cases b) simp_all
  show ?thesis
  proof (cases "b \<or> ms_event m = ''auth''")
    case True
    show ?thesis
    proof (cases b)
      case True
      with eq f show ?thesis by (simp add: effects_ok_def list_all_iff)
    next
      case False
      with eq True have "inbound_auth api d a m h0 = (es, err, h')" by simp
      from inbound_auth_ok [OF laws this] f show ?thesis by simp
    qed
  next
    case ndone: False
    show ?thesis
    proof (cases "validJwt api d (wa_now a) h0")
      case (Inl e)
      with eq ndone f show ?thesis by simp
    next
      case (Inr j)
      with eq ndone have "inbound_dispatch api collab d a j m h0 = (es, err, h')" by simp
      from inbound_dispatch_ok [OF Inr this] f show ?thesis by auto
    qed
  qed
qed (use h in \<open>simp add: HandleInbound_def\<close>)

section \<open>Revocation over a whole run\<close>

text \<open>
  The daemon with all its connections, and a log of the revocations and of what the messages
  made it do, each with the token that was on the socket then.
\<close>

datatype ws_log = LDeny int string string | LEffect "ws_payload option" ws_effect

record 'l ws_system =
  sy_deny :: denylist
  sy_conns :: "string \<Rightarrow> 'l ws_conn"
  sy_clock :: int
  sy_log :: "ws_log list"

datatype ws_input = Deny int string string | DenyToken int string | Inbound string ws_answers ws_message

definition input_time :: "ws_input \<Rightarrow> int" where
  "input_time i = (case i of Deny t _ _ \<Rightarrow> t | DenyToken t _ \<Rightarrow> t | Inbound _ a _ \<Rightarrow> wa_now a)"

definition ws_step ::
  "ws_payload jwt_api \<Rightarrow> 'l rate_api \<Rightarrow> 'l collab_handler \<Rightarrow> 'l ws_system \<Rightarrow> ws_input \<Rightarrow> 'l ws_system" where
  "ws_step api rate collab s i =
     (case i of
        Deny now sid user \<Rightarrow>
          s\<lparr>sy_deny := DenyForServer now sid user (sy_deny s), sy_clock := now, sy_log := sy_log s @ [LDeny now sid user]\<rparr>
      | DenyToken now jti \<Rightarrow> s\<lparr>sy_deny := DenyJTI now jti (sy_deny s), sy_clock := now\<rparr>
      | Inbound c a m \<Rightarrow>
          let (es, _, h) = handleMessage api rate collab (sy_deny s) a m (sy_conns s c)
          in s\<lparr>sy_conns := (sy_conns s)(c := h), sy_clock := wa_now a, sy_log := sy_log s @ map (LEffect (hc_jwt h)) es\<rparr>)"

text \<open>In order: every revocation of the log is in force, and no later effect is due to a token it covers.\<close>

definition covers :: "int \<Rightarrow> string \<Rightarrow> string \<Rightarrow> ws_log \<Rightarrow> bool" where
  "covers t sid user l =
     (case l of
        LEffect (Some j) e \<Rightarrow> privileged e \<and> wp_server j = sid \<and> wp_user j = user \<and> (case jp_issued (wp_payload j) of None \<Rightarrow> True | Some i \<Rightarrow> i \<le> t)
      | LEffect None e \<Rightarrow> privileged e
      | LDeny _ _ _ \<Rightarrow> False)"

fun log_ok :: "ws_log list \<Rightarrow> bool" where
  "log_ok [] = True"
| "log_ok (LDeny t sid user # ls) = (list_all (\<lambda>l. \<not> covers t sid user l) ls \<and> log_ok ls)"
| "log_ok (LEffect _ _ # ls) = log_ok ls"

definition denies_in_force :: "'l ws_system \<Rightarrow> bool" where
  "denies_in_force s \<longleftrightarrow>
     (\<forall>t sid user. LDeny t sid user \<in> set (sy_log s) \<longrightarrow>
        (\<exists>t'. dn_user (sy_deny s) (deny_key sid user) = Some t' \<and> t \<le> t')) \<and>
     (\<forall>k t. dn_user (sy_deny s) k = Some t \<longrightarrow> t \<le> sy_clock s)"

lemma log_ok_append:
  "log_ok (ls @ ls') \<longleftrightarrow> log_ok ls \<and> log_ok ls' \<and>
     (\<forall>t sid user. LDeny t sid user \<in> set ls \<longrightarrow> list_all (\<lambda>l. \<not> covers t sid user l) ls')"
  by (induction ls rule: log_ok.induct) auto

lemma log_ok_effects: "log_ok (map (LEffect j) es)"
  by (induction es) auto

lemma handleMessage_ok:
  assumes "jwt_laws api" "handleMessage api rate collab d a m h = (es, c, h')"
  shows "effects_ok api d (wa_now a) h' es"
  using assms(2) HandleInbound_ok [OF assms(1)]
  by (auto simp: handleMessage_def split: prod.splits option.splits if_splits) blast+

lemma live_not_covered:
  assumes "live_token api d now sid' j" "dn_user d (deny_key sid user) = Some t'" "t \<le> t'"
  shows "\<not> (wp_server j = sid \<and> wp_user j = user \<and> (case jp_issued (wp_payload j) of None \<Rightarrow> True | Some i \<Rightarrow> i \<le> t))"
  using assms
  by (auto simp: live_token_def Denylisted_def isDenylisted_def denied_at_def split: option.splits if_splits)

definition sys_ok :: "'l ws_system \<Rightarrow> bool" where
  "sys_ok s \<longleftrightarrow> log_ok (sy_log s) \<and> denies_in_force s"

lemma deny_step_keeps:
  assumes "sys_ok s" "sy_clock s \<le> now"
  shows "sys_ok (s\<lparr>sy_deny := DenyForServer now sid user (sy_deny s), sy_clock := now, sy_log := sy_log s @ [LDeny now sid user]\<rparr>)"
  using assms unfolding sys_ok_def denies_in_force_def
  by (auto simp: log_ok_append covers_def DenyForServer_def) (meson order_trans)+

lemma deny_token_keeps:
  assumes "sys_ok s" "sy_clock s \<le> now"
  shows "sys_ok (s\<lparr>sy_deny := DenyJTI now jti (sy_deny s), sy_clock := now\<rparr>)"
  using assms unfolding sys_ok_def denies_in_force_def by (auto simp: DenyJTI_def) (meson order_trans)

lemma inbound_step_keeps:
  assumes "sys_ok s" "sy_clock s \<le> now" "effects_ok api (sy_deny s) now h es"
  shows "sys_ok (s\<lparr>sy_conns := cs, sy_clock := now, sy_log := sy_log s @ map (LEffect (hc_jwt h)) es\<rparr>)"
proof -
  have "\<not> covers t sid user (LEffect (hc_jwt h) e)" if "LDeny t sid user \<in> set (sy_log s)" "e \<in> set es" for t sid user e
  proof
    assume c: "covers t sid user (LEffect (hc_jwt h) e)"
    then have "privileged e" by (auto simp: covers_def split: option.splits)
    with assms(3) that(2) obtain j where j: "hc_jwt h = Some j" "live_token api (sy_deny s) now (hc_server h) j"
      by (auto simp: effects_ok_def)
    from assms(1) that(1) obtain t' where "dn_user (sy_deny s) (deny_key sid user) = Some t'" "t \<le> t'"
      unfolding sys_ok_def denies_in_force_def by blast
    from live_not_covered [OF j(2) this] c j(1) show False by (auto simp: covers_def)
  qed
  with assms(1,2) show ?thesis
    by (auto simp: sys_ok_def denies_in_force_def log_ok_append log_ok_effects list_all_iff) (meson order_trans)
qed

lemma ws_step_keeps:
  assumes laws: "jwt_laws api" and ok: "sys_ok s" and t: "sy_clock s \<le> input_time i"
  shows "sys_ok (ws_step api rate collab s i)"
proof (cases i)
  case (Inbound c a m)
  obtain es b h where h: "handleMessage api rate collab (sy_deny s) a m (sy_conns s c) = (es, b, h)" by (metis prod_cases3)
  from inbound_step_keeps [OF ok _ handleMessage_ok [OF laws h]] t Inbound h show ?thesis by (simp add: ws_step_def input_time_def)
qed (use ok t deny_step_keeps deny_token_keeps in \<open>simp_all add: ws_step_def input_time_def\<close>)

interpretation wsy: step_system "ws_step api rate collab" "\<lambda>s i. jwt_laws api \<and> sy_clock s \<le> input_time i" sys_ok
  by unfold_locales (auto intro: ws_step_keeps)

lemma allowed_run_weaken:
  "allowed_run step P s es \<Longrightarrow> (\<And>s e. P s e \<Longrightarrow> Q s e) \<Longrightarrow> allowed_run step Q s es"
  by (induction es arbitrary: s) auto

text \<open>
  A library that knows two tokens of user \<open>u\<close> for server \<open>s\<close>, issued at 10 and at 100, and a
  run in which the access is revoked at 50.
\<close>

definition sample_token :: "int \<Rightarrow> ws_payload" where
  "sample_token issued =
     \<lparr>wp_payload = \<lparr>jp_issued = Some issued, jp_expires = Some 1000, jp_id = ''x''\<rparr>, wp_scope = ''websocket'',
      wp_user = ''u'', wp_server = ''s'', wp_permissions = [''*'']\<rparr>"

definition sample_jwt :: "ws_payload jwt_api" where
  "sample_jwt =
     \<lparr>jv_verify = (\<lambda>tok ok. let p = sample_token (if tok = ''new'' then 100 else 10) in if ok p then Inr p else Inl VerifyExp),
      jv_exp_valid = (\<lambda>now e. case e of Some x \<Rightarrow> now \<le> x | None \<Rightarrow> False)\<rparr>"

definition sample_rate :: "unit rate_api" where
  "sample_rate = \<lparr>rl_new = (\<lambda>_ _. ()), rl_allow = (\<lambda>_ l. (True, l))\<rparr>"

definition sample_answers :: "int \<Rightarrow> ws_answers" where
  "sample_answers now =
     \<lparr>wa_suspended = False, wa_now = now, wa_state = ''running'', wa_on_auth = True, wa_installing = False,
      wa_transferring = False, wa_running = True, wa_logs = Some [], wa_stats = '''', wa_power = PowerOk,
      wa_attached = True, wa_command = True, wa_ctx_done = False, wa_importer = '''', wa_write = WriteOk,
      wa_uuid = '''', wa_text = (\<lambda>_. '''')\<rparr>"

definition sample_system :: "unit ws_system" where
  "sample_system = \<lparr>sy_deny = \<lparr>dn_boot = 0, dn_jti = (\<lambda>_. None), dn_user = (\<lambda>_. None)\<rparr>,
     sy_conns = (\<lambda>c. NewConn c ''s''), sy_clock = 0, sy_log = []\<rparr>"

definition sample_inputs :: "ws_input list" where
  "sample_inputs =
     [Inbound ''c'' (sample_answers 20) (msg ''auth'' [''old'']),
      Inbound ''c'' (sample_answers 30) (msg ''set state'' [''start'']),
      Deny 50 ''s'' ''u'',
      Inbound ''c'' (sample_answers 60) (msg ''set state'' [''stop'']),
      Inbound ''c'' (sample_answers 110) (msg ''auth'' [''new'']),
      Inbound ''c'' (sample_answers 120) (msg ''set state'' [''stop''])]"

abbreviation sample_step :: "unit ws_system \<Rightarrow> ws_input \<Rightarrow> unit ws_system" where
  "sample_step \<equiv> ws_step sample_jwt sample_rate (\<lambda>_ _. ([], True))"

lemma sample_jwt_laws: "jwt_laws sample_jwt"
  by (auto simp: jwt_laws_def sample_jwt_def Let_def split: if_splits option.splits)

lemma sample_log:
  "sy_log (foldl sample_step sample_system sample_inputs) =
     (map (LEffect (Some (sample_token 10)))
       [Raw (msg ''auth success'' []), Listen, Raw (msg ''status'' [''running'']), Power ''start'', Activity ''u'' ''server:power.start'']) @
     LDeny 50 ''s'' ''u'' #
     [LEffect (Some (sample_token 10)) (Raw (msg ''jwt error'' [''''])), LEffect (Some (sample_token 100)) (Raw (msg ''auth success'' []))] @
     LEffect (Some (sample_token 100)) (Power ''stop'') # [LEffect (Some (sample_token 100)) (Activity ''u'' ''server:power.stop'')]"
  by code_simp

text \<open>
  C12. Revocation. Take any run of revocations and of messages on any connections, with a clock
  that does not go back. When the panel has revoked a user's access to a server at time \<open>t\<close>,
  nothing that the daemon does later because of a message on a websocket (a power action, a
  command, reading the log, a message other than an error) is done for a token of that user and
  server that was issued at \<open>t\<close> or before; and nothing is done for a socket without a token.
\<close>

theorem revoked_user_powerless:
  assumes laws: "jwt_laws api"
    and init: "sy_log s = []" "\<forall>k t. dn_user (sy_deny s) k = Some t \<longrightarrow> t \<le> sy_clock s"
    and run: "allowed_run (ws_step api rate collab) (\<lambda>s i. sy_clock s \<le> input_time i) s is"
    and log: "sy_log (foldl (ws_step api rate collab) s is) = before @ LDeny t sid user # between @ LEffect tok e # after"
    and e: "privileged e"
  shows "\<exists>j. tok = Some j \<and>
    (if wp_server j = sid \<and> wp_user j = user then \<exists>i. jp_issued (wp_payload j) = Some i \<and> t < i else True)"
proof -
  have "sys_ok s" using init by (simp add: sys_ok_def denies_in_force_def)
  moreover have "allowed_run (ws_step api rate collab) (\<lambda>s i. jwt_laws api \<and> sy_clock s \<le> input_time i) s is"
    by (rule allowed_run_weaken [OF run]) (use laws in auto)
  ultimately have "sys_ok (foldl (ws_step api rate collab) s is)" by (rule wsy.run_keeps)
  with log have "\<not> covers t sid user (LEffect tok e)" by (simp add: sys_ok_def log_ok_append)
  with e show ?thesis by (auto simp: covers_def split: option.splits)
qed

theorem revoked_user_powerless_witness:
  "\<exists>j. Some (sample_token 100) = Some j \<and>
    (if wp_server j = ''s'' \<and> wp_user j = ''u'' then \<exists>i. jp_issued (wp_payload j) = Some i \<and> (50::int) < i else True)"
proof -
  have init: "sy_log sample_system = []" "\<forall>k t. dn_user (sy_deny sample_system) k = Some t \<longrightarrow> t \<le> sy_clock sample_system"
    by (simp_all add: sample_system_def)
  have run: "allowed_run sample_step (\<lambda>s i. sy_clock s \<le> input_time i) sample_system sample_inputs" by code_simp
  have "privileged (Power ''stop'')" by code_simp
  from revoked_user_powerless [OF sample_jwt_laws init run sample_log this] show ?thesis .
qed


abbreviation sample_handled :: "unit outcome" where
  "sample_handled \<equiv> HandleInbound sample_jwt sample_rate (\<lambda>_ _. ([], True)) (sy_deny sample_system) (sample_answers 30)
     (msg ''set state'' [''start'']) ((NewConn ''c'' ''s'')\<lparr>hc_jwt := Some (sample_token 10)\<rparr>)"


end
