(* ===== verification/Collab_Sessions.thy ===== *)
theory Collab_Sessions
  imports Collab_Names Ws_Handler "HOL-Library.AList"
begin

text \<open>
  Live collaboration sessions (\<^verbatim>\<open>router/websocket/betterfiles_collaboration.go\<close>): the registry of
  sessions with their members and documents, and the handler of every message of the protocol.

  A handler runs in one step, at one reading of the clock. A session is a value on a heap and the
  registry maps codes to addresses, as the code keeps pointers to sessions that have left the
  registry. Go's maps are association lists without repeated keys; the order in which Go visits
  them is unspecified, here it is the order of the list. The answer of a handler is a list of
  messages with the connection each goes to; \<^verbatim>\<open>SendJson\<close> of \<open>Ws_Handler\<close> decides what of it is
  written. The contents of a file are an argument, given for a path of the server's filesystem.
  Texts decoded from JSON are runes: Go's decoder replaces bytes that are not UTF-8, so the checks
  of \<^verbatim>\<open>utf8.ValidString\<close> on the changes and contents of a message never fail.
\<close>

section \<open>Data\<close>

record collab_user =
  cu_uuid :: string
  cu_name :: string
  cu_image :: string
  cu_conn :: string

record session_info =
  si_code :: string
  si_server :: string
  si_owner :: string
  si_mode :: string
  si_max_users :: int
  si_max_bytes :: int
  si_token :: string
  si_expires :: int

record collab_token =
  ct_payload :: jwt_payload
  ct_server :: string
  ct_user :: string
  ct_enabled :: bool
  ct_code :: string
  ct_owner :: string
  ct_mode :: string
  ct_max_users :: int
  ct_max_bytes :: int
  ct_expires :: int

record collab_member =
  mb_handler :: string
  mb_user :: collab_user
  mb_path :: string
  mb_joined :: int
  mb_version :: int

record 'op collab_session =
  ss_code :: string
  ss_server :: string
  ss_owner :: string
  ss_mode :: string
  ss_max_users :: int
  ss_max_bytes :: int
  ss_expires :: int
  ss_members :: "(string \<times> collab_member) list"
  ss_docs :: "(string \<times> 'op collab_document) list"

record 'op collab_state =
  cs_heap :: "'op collab_session list"
  cs_codes :: "(string \<times> nat) list"

record join_payload =
  jn_session :: session_info
  jn_user :: collab_user

record file_payload_msg =
  fm_code :: string
  fm_path :: string

record presence_payload =
  pr_code :: string
  pr_path :: string
  pr_line :: int
  pr_column :: int
  pr_selection :: string

record patch_payload =
  pp_code :: string
  pp_path :: string
  pp_changes :: "text_edit list"
  pp_version :: int
  pp_line :: int
  pp_column :: int

record snapshot_payload =
  sn_code :: string
  sn_path :: string
  sn_content :: ctext
  sn_version :: int
  sn_line :: int
  sn_column :: int

record check_payload =
  ck_path :: string
  ck_request :: string

record external_payload =
  ex_path :: string
  ex_user :: collab_user

record file_conflict =
  fc_code :: string
  fc_mode :: string
  fc_users :: "collab_user list"

datatype collab_out =
    OError string
  | OJoined string collab_user string
  | OClosed string "string option"
  | OMembers string "collab_user list" string
  | OFileUsers string "(string \<times> collab_user list) list"
  | OPresence string string int int string collab_user
  | OPatch string string "text_edit list" int int int int collab_user
  | ODocument string string ctext int int
  | OSnapshot string string ctext int int int int collab_user
  | OSaved string string ctext int int collab_user
  | OCheck string string "file_conflict list" "collab_user list"
  | OExternal string string collab_user "collab_user list"

type_synonym sends = "(string \<times> collab_out) list"

text \<open>Opening and reading a file: an error, a directory, or its size and its bytes (none when reading fails).\<close>

datatype file_answer = FileError | FileIsDir | FileBytes int "nat list option"

section \<open>Helpers\<close>

definition CanRead :: "denylist \<Rightarrow> 'l ws_conn \<Rightarrow> bool" where
  "CanRead d h = (case hc_jwt h of None \<Rightarrow> False | Some j \<Rightarrow> HasPermission d j ''file.read-content'')"

definition CanWrite :: "denylist \<Rightarrow> 'l ws_conn \<Rightarrow> bool" where
  "CanWrite d h = (case hc_jwt h of None \<Rightarrow> False | Some j \<Rightarrow> HasPermission d j ''file.update'')"

definition collabError :: "'l ws_conn \<Rightarrow> string \<Rightarrow> sends" where
  "collabError h message = [(hc_uuid h, OError message)]"

text \<open>The arguments of a message, each with its length and what decoding it as JSON gives.\<close>

definition CollabDecode :: "(int \<times> 'p option) list \<Rightarrow> 'p option" where
  "CollabDecode args = (case args of [] \<Rightarrow> None | (n, p) # _ \<Rightarrow> if n > MaxMessageBytes then None else p)"

text \<open>A session's expiry is in nanoseconds.\<close>

definition SessionExpired :: "int \<Rightarrow> 'op collab_session \<Rightarrow> bool" where
  "SessionExpired now s = (ss_expires s = zero_time \<or> \<not> ss_expires s > now)"

definition collab_mode :: "string \<Rightarrow> string" where
  "collab_mode mode = (if mode \<noteq> ''edit'' then ''view'' else mode)"

definition clamp_users :: "int \<Rightarrow> int" where
  "clamp_users n = (if n < 2 \<or> n > int MaxUsers then 10 else n)"

definition clamp_bytes :: "int \<Rightarrow> int" where
  "clamp_bytes n = (if n < 1 \<or> n > MaxPayloadBytes then MaxPayloadBytes else n)"

definition payload_limit :: "'op collab_session \<Rightarrow> int" where
  "payload_limit s = (if ss_max_bytes s \<le> 0 \<or> ss_max_bytes s > MaxPayloadBytes then MaxPayloadBytes else ss_max_bytes s)"

definition VerifiedSession :: "collab_token jwt_api \<Rightarrow> int \<Rightarrow> session_info \<Rightarrow> (session_info \<times> string) option" where
  "VerifiedSession api now info =
     (if TrimSpace (si_token info) = '''' then None
      else case ParseToken api ct_payload now (si_token info) of
        Inl _ \<Rightarrow> None
      | Inr token \<Rightarrow>
          if \<not> ct_enabled token then None
          else let code = CollabCode (ct_code token)
               in if code = '''' \<or> code \<noteq> CollabCode (si_code info) then None
                  else let expires = (if ct_expires token \<le> 0 then (now + 15 * 60 * 1000000000) div 1000000000 else ct_expires token)
                       in if expires \<le> now div 1000000000 then None
                          else Some (\<lparr>si_code = code, si_server = ct_server token, si_owner = ct_owner token,
                                      si_mode = collab_mode (ct_mode token), si_max_users = clamp_users (ct_max_users token),
                                      si_max_bytes = clamp_bytes (ct_max_bytes token), si_token = si_token info,
                                      si_expires = expires\<rparr>, ct_user token))"

definition upd_session :: "nat \<Rightarrow> ('op collab_session \<Rightarrow> 'op collab_session) \<Rightarrow> 'op collab_state \<Rightarrow> 'op collab_state" where
  "upd_session sid f st = st\<lparr>cs_heap := (cs_heap st)[sid := f (cs_heap st ! sid)]\<rparr>"

definition new_session :: "session_info \<Rightarrow> 'op collab_session" where
  "new_session info =
     \<lparr>ss_code = CollabCode (si_code info), ss_server = si_server info, ss_owner = si_owner info,
      ss_mode = collab_mode (si_mode info), ss_max_users = clamp_users (si_max_users info),
      ss_max_bytes = clamp_bytes (si_max_bytes info), ss_expires = si_expires info * 1000000000,
      ss_members = [], ss_docs = []\<rparr>"

definition create_session :: "session_info \<Rightarrow> 'op collab_state \<Rightarrow> nat \<times> 'op collab_state" where
  "create_session info st =
     (length (cs_heap st),
      st\<lparr>cs_heap := cs_heap st @ [new_session info],
         cs_codes := AList.update (CollabCode (si_code info)) (length (cs_heap st)) (cs_codes st)\<rparr>)"

definition GetOrCreateSession :: "int \<Rightarrow> session_info \<Rightarrow> 'op collab_state \<Rightarrow> nat \<times> 'op collab_state" where
  "GetOrCreateSession now info st =
     (let code = CollabCode (si_code info)
      in case map_of (cs_codes st) code of
           None \<Rightarrow> create_session info st
         | Some sid \<Rightarrow>
             let s = cs_heap st ! sid
             in if SessionExpired now s then create_session info (st\<lparr>cs_codes := AList.delete code (cs_codes st)\<rparr>)
                else (sid, if si_expires info > 0 \<and> ss_expires s < si_expires info * 1000000000
                           then upd_session sid (\<lambda>s. s\<lparr>ss_expires := si_expires info * 1000000000\<rparr>) st else st))"

section \<open>Broadcasts\<close>

definition CollabBroadcast :: "'op collab_session \<Rightarrow> string \<Rightarrow> collab_out \<Rightarrow> sends" where
  "CollabBroadcast s exceptHandlerID ev =
     map (\<lambda>(_, m). (mb_handler m, ev))
       (filter (\<lambda>(_, m). \<not> (exceptHandlerID \<noteq> '''' \<and> mb_handler m = exceptHandlerID)) (ss_members s))"

definition BroadcastMembers :: "'op collab_session \<Rightarrow> sends" where
  "BroadcastMembers s = CollabBroadcast s '''' (OMembers (ss_code s) (map (mb_user \<circ> snd) (ss_members s)) (ss_mode s))"

definition add_file_user :: "collab_member \<Rightarrow> (string \<times> collab_user list) list \<Rightarrow> (string \<times> collab_user list) list" where
  "add_file_user m fs =
     (if mb_path m = '''' then fs
      else AList.update (mb_path m) ((case map_of fs (mb_path m) of None \<Rightarrow> [] | Some us \<Rightarrow> us) @ [mb_user m]) fs)"

definition BroadcastFileUsers :: "'op collab_session \<Rightarrow> sends" where
  "BroadcastFileUsers s = CollabBroadcast s '''' (OFileUsers (ss_code s) (fold (add_file_user \<circ> snd) (ss_members s) []))"

definition UsersForPath :: "'op collab_session \<Rightarrow> string \<Rightarrow> string \<Rightarrow> collab_user list" where
  "UsersForPath s path exceptHandlerID =
     map (mb_user \<circ> snd)
       (filter (\<lambda>(_, m). \<not> (exceptHandlerID \<noteq> '''' \<and> mb_handler m = exceptHandlerID) \<and> mb_path m = path) (ss_members s))"

definition SendDocument :: "'l ws_conn \<Rightarrow> 'op collab_session \<Rightarrow> 'op collab_document \<Rightarrow> string \<Rightarrow> sends" where
  "SendDocument h s document path =
     [(hc_uuid h, ODocument (ss_code s) path (cd_content document) (cd_revision document + 1) (cd_revision document))]"

definition SessionDocumentBytes :: "'op collab_session \<Rightarrow> int" where
  "SessionDocumentBytes s = sum_list (map (\<lambda>(_, d). text_bytes (cd_content d)) (ss_docs s))"

section \<open>Members\<close>

definition MemberFor :: "int \<Rightarrow> 'l ws_conn \<Rightarrow> string \<Rightarrow> 'op collab_state \<Rightarrow> (nat \<times> collab_member) option \<times> 'op collab_state" where
  "MemberFor now h code st =
     (let code = CollabCode code
      in case map_of (cs_codes st) code of
           None \<Rightarrow> (None, st)
         | Some sid \<Rightarrow>
             if SessionExpired now (cs_heap st ! sid) then (None, st\<lparr>cs_codes := AList.delete code (cs_codes st)\<rparr>)
             else (case map_of (ss_members (cs_heap st ! sid)) (hc_uuid h) of
                     None \<Rightarrow> (None, st)
                   | Some m \<Rightarrow> (Some (sid, m), st)))"

definition RemoveMember :: "string \<Rightarrow> string \<Rightarrow> 'op collab_state \<Rightarrow> sends \<times> 'op collab_state" where
  "RemoveMember code handlerID st =
     (let code = CollabCode code
      in case map_of (cs_codes st) code of
           None \<Rightarrow> ([], st)
         | Some sid \<Rightarrow>
             if map_of (ss_members (cs_heap st ! sid)) handlerID = None then ([], st)
             else let st = upd_session sid (\<lambda>s. s\<lparr>ss_members := AList.delete handlerID (ss_members s)\<rparr>) st;
                      s = cs_heap st ! sid
                  in if ss_members s = [] then ([], st\<lparr>cs_codes := AList.delete code (cs_codes st)\<rparr>)
                     else (BroadcastMembers s @ BroadcastFileUsers s, st))"

definition leave_one :: "string \<Rightarrow> string \<Rightarrow> sends \<times> 'op collab_state \<Rightarrow> sends \<times> 'op collab_state" where
  "leave_one handlerID code acc = (let (out, st) = acc; (o1, st) = RemoveMember code handlerID st in (out @ o1, st))"

definition LeaveAll :: "'l ws_conn \<Rightarrow> 'op collab_state \<Rightarrow> sends \<times> 'op collab_state" where
  "LeaveAll h st = fold (leave_one (hc_uuid h)) (map (\<lambda>(_, sid). ss_code (cs_heap st ! sid)) (cs_codes st)) ([], st)"

definition upd_member :: "nat \<Rightarrow> string \<Rightarrow> (collab_member \<Rightarrow> collab_member) \<Rightarrow> 'op collab_state \<Rightarrow> 'op collab_state" where
  "upd_member sid hid f st =
     upd_session sid (\<lambda>s. s\<lparr>ss_members := map (\<lambda>(k, m). (k, if k = hid then f m else m)) (ss_members s)\<rparr>) st"

definition AcceptVersion :: "nat \<Rightarrow> string \<Rightarrow> collab_member \<Rightarrow> int \<Rightarrow> 'op collab_state \<Rightarrow> bool \<times> 'op collab_state" where
  "AcceptVersion sid hid m version st =
     (if version < 1 then (False, st)
      else if version \<le> mb_version m then (False, st)
      else (True, upd_member sid hid (\<lambda>m. m\<lparr>mb_version := version\<rparr>) st))"

definition SetMemberPath :: "nat \<Rightarrow> string \<Rightarrow> collab_member \<Rightarrow> string \<Rightarrow> 'op collab_state \<Rightarrow> bool \<times> 'op collab_state" where
  "SetMemberPath sid hid m path st =
     (if mb_path m = path then (False, st) else (True, upd_member sid hid (\<lambda>m. m\<lparr>mb_path := path\<rparr>) st))"

text \<open>The two lines with which the handlers record where a member is.\<close>

definition move_member :: "nat \<Rightarrow> string \<Rightarrow> collab_member \<Rightarrow> string \<Rightarrow> 'op collab_state \<Rightarrow> sends \<times> 'op collab_state" where
  "move_member sid hid m path st =
     (case SetMemberPath sid hid m path st of
        (True, st) \<Rightarrow> (BroadcastFileUsers (cs_heap st ! sid), st)
      | (False, st) \<Rightarrow> ([], st))"

section \<open>Documents\<close>

definition put_doc :: "nat \<Rightarrow> string \<Rightarrow> 'op collab_document \<Rightarrow> 'op collab_state \<Rightarrow> 'op collab_state" where
  "put_doc sid path doc st = upd_session sid (\<lambda>s. s\<lparr>ss_docs := AList.update path doc (ss_docs s)\<rparr>) st"

definition DocumentFor :: "(string \<Rightarrow> file_answer) \<Rightarrow> nat \<Rightarrow> string \<Rightarrow> 'op collab_state \<Rightarrow> string + 'op collab_document \<times> 'op collab_state" where
  "DocumentFor file sid path st =
     (let s = cs_heap st ! sid
      in case map_of (ss_docs s) path of
           Some document \<Rightarrow> Inr (document, st)
         | None \<Rightarrow>
             (case file path of
                FileError \<Rightarrow> Inl ''could not open collaboration file''
              | FileIsDir \<Rightarrow> Inl ''collaboration path is not a file''
              | FileBytes sz bytes \<Rightarrow>
                  let maxBytes = payload_limit s
                  in if sz > maxBytes then Inl ''collaboration file is too large''
                     else case bytes of
                            None \<Rightarrow> Inl ''could not read collaboration file''
                          | Some bs \<Rightarrow>
                              let content = take (nat (maxBytes + 1)) bs
                              in if int (length content) > maxBytes \<or> \<not> utf8_valid content
                                 then Inl ''collaboration file is too large or is not UTF-8 text''
                                 else if length (ss_docs s) \<ge> MaxDocuments
                                 then Inl ''collaboration session has too many open documents''
                                 else if SessionDocumentBytes s + int (length content) > MaxSessionBytes
                                 then Inl ''collaboration session document memory limit reached''
                                 else let document = newDocument (runes_bytes content)
                                      in Inr (document, put_doc sid path document st)))"

section \<open>Handlers\<close>

type_synonym 'op reply = "sends \<times> 'op collab_state"

definition clean_user :: "'l ws_conn \<Rightarrow> ws_payload \<Rightarrow> collab_user \<Rightarrow> collab_user" where
  "clean_user h j user =
     (let name = SafeText (cu_name user) 48; conn = SafeText (cu_conn user) 80
      in \<lparr>cu_uuid = wp_user j, cu_name = (if name = '''' then ''User'' else name),
          cu_image = SafeImage (cu_image user), cu_conn = (if conn = '''' then hc_uuid h else conn)\<rparr>)"

text \<open>Joining, once the token is verified: leave every session, find or create this one, enter it.\<close>

definition join_session :: "int \<Rightarrow> 'l ws_conn \<Rightarrow> session_info \<Rightarrow> collab_user \<Rightarrow> 'op collab_state \<Rightarrow> 'op reply" where
  "join_session now h info user st =
     (let (o1, st) = LeaveAll h st;
          (sid, st) = GetOrCreateSession now info st;
          s = cs_heap st ! sid
      in if ss_server s \<noteq> si_server info \<or> ss_mode s \<noteq> si_mode info
         then (o1 @ collabError h ''collaboration session metadata changed'', st)
         else if int (length (ss_members s)) \<ge> ss_max_users s
         then (o1 @ collabError h ''collaboration session is full'', st)
         else let m = \<lparr>mb_handler = hc_uuid h, mb_user = user, mb_path = '''', mb_joined = now, mb_version = 0\<rparr>;
                  st = upd_session sid (\<lambda>s. s\<lparr>ss_members := AList.update (hc_uuid h) m (ss_members s)\<rparr>) st;
                  s = cs_heap st ! sid
              in (o1 @ [(hc_uuid h, OJoined (CollabCode (si_code info)) user (ss_mode s))] @ BroadcastMembers s @ BroadcastFileUsers s, st))"

definition collabJoin ::
  "collab_token jwt_api \<Rightarrow> denylist \<Rightarrow> int \<Rightarrow> 'l ws_conn \<Rightarrow> (int \<times> join_payload option) list \<Rightarrow> 'op collab_state \<Rightarrow> 'op reply" where
  "collabJoin api d now h args st =
     (if \<not> CanRead d h then (collabError h ''missing file read permission'', st)
      else case CollabDecode args of
        None \<Rightarrow> (collabError h ''invalid collaboration join payload'', st)
      | Some payload \<Rightarrow>
          (case VerifiedSession api now (jn_session payload) of
             None \<Rightarrow> (collabError h ''invalid or expired collaboration session token'', st)
           | Some (info, tokenUser) \<Rightarrow>
               (case hc_jwt h of
                  None \<Rightarrow> (collabError h ''collaboration session does not match this server'', st)
                | Some j \<Rightarrow>
                    if si_server info \<noteq> wp_server j \<or> tokenUser \<noteq> wp_user j
                    then (collabError h ''collaboration session does not match this server'', st)
                    else if si_mode info = ''edit'' \<and> \<not> CanWrite d h
                    then (collabError h ''missing file write permission'', st)
                    else if CollabCode (si_code info) = '''' then (collabError h ''invalid collaboration session code'', st)
                    else join_session now h info (clean_user h j (jn_user payload)) st)))"

definition not_joined :: "'l ws_conn \<Rightarrow> sends" where
  "not_joined h = collabError h ''not joined to this collaboration session''"

definition bad_path :: "'l ws_conn \<Rightarrow> sends" where
  "bad_path h = collabError h ''file is not allowed in live collaboration''"

definition collabSetFile ::
  "(string \<Rightarrow> file_answer) \<Rightarrow> int \<Rightarrow> 'l ws_conn \<Rightarrow> (int \<times> file_payload_msg option) list \<Rightarrow> bool \<Rightarrow> 'op collab_state \<Rightarrow> 'op reply" where
  "collabSetFile file now h args opening st =
     (case CollabDecode args of
        None \<Rightarrow> (collabError h ''invalid collaboration file payload'', st)
      | Some payload \<Rightarrow>
          (case MemberFor now h (fm_code payload) st of
             (None, st) \<Rightarrow> (not_joined h, st)
           | (Some (sid, m), st) \<Rightarrow>
               (case CollabPath (fm_path payload) of
                  None \<Rightarrow> (bad_path h, st)
                | Some path \<Rightarrow>
                    let st = upd_member sid (hc_uuid h)
                               (\<lambda>m. if opening then m\<lparr>mb_path := path\<rparr> else if mb_path m = path then m\<lparr>mb_path := ''''\<rparr> else m) st;
                        o1 = BroadcastFileUsers (cs_heap st ! sid)
                    in if opening
                       then (case DocumentFor file sid path st of
                               Inl e \<Rightarrow> (o1 @ collabError h e, st)
                             | Inr (document, st) \<Rightarrow> (o1 @ SendDocument h (cs_heap st ! sid) document path, st))
                       else (o1, st))))"

definition collabClose :: "int \<Rightarrow> 'l ws_conn \<Rightarrow> (int \<times> string option) list \<Rightarrow> 'op collab_state \<Rightarrow> 'op reply" where
  "collabClose now h args st =
     (case CollabDecode args of
        None \<Rightarrow> (collabError h ''invalid collaboration close payload'', st)
      | Some code \<Rightarrow>
          (case MemberFor now h code st of
             (None, st) \<Rightarrow> (not_joined h, st)
           | (Some (sid, m), st) \<Rightarrow>
               let s = cs_heap st ! sid
               in if ss_owner s \<noteq> '''' \<and> cu_uuid (mb_user m) \<noteq> ss_owner s
                  then (collabError h ''only the live session owner can close it'', st)
                  else (CollabBroadcast s (hc_uuid h) (OClosed (ss_code s) None),
                        st\<lparr>cs_codes := AList.delete (ss_code s) (cs_codes st)\<rparr>)))"

definition collabPresence :: "int \<Rightarrow> 'l ws_conn \<Rightarrow> (int \<times> presence_payload option) list \<Rightarrow> 'op collab_state \<Rightarrow> 'op reply" where
  "collabPresence now h args st =
     (case CollabDecode args of
        None \<Rightarrow> (collabError h ''invalid collaboration presence payload'', st)
      | Some p \<Rightarrow>
          (case MemberFor now h (pr_code p) st of
             (None, st) \<Rightarrow> (not_joined h, st)
           | (Some (sid, m), st) \<Rightarrow>
               (case CollabPath (pr_path p) of
                  None \<Rightarrow> (bad_path h, st)
                | Some path \<Rightarrow>
                    let (o1, st) = move_member sid (hc_uuid h) m path st
                    in (o1 @ CollabBroadcast (cs_heap st ! sid) (hc_uuid h)
                              (OPresence (pr_code p) path (ClampCursor (pr_line p)) (ClampCursor (pr_column p))
                                 (SafeText (pr_selection p) 120) (mb_user m)), st))))"

definition change_ok :: "text_edit \<Rightarrow> bool" where
  "change_ok c \<longleftrightarrow> \<not> (te_offset c < 0 \<or> te_length c < 0 \<or> te_base_length c < 0) \<and>
     \<not> (te_offset c > MaxPayloadBytes \<or> te_length c > MaxPayloadBytes \<or> te_base_length c > MaxPayloadBytes)"

text \<open>The patch of a member at an accepted path: everything after the checks of the payload.\<close>

definition patch_document ::
  "'op ot_lib \<Rightarrow> (string \<Rightarrow> file_answer) \<Rightarrow> 'l ws_conn \<Rightarrow> patch_payload \<Rightarrow> nat \<Rightarrow> collab_member \<Rightarrow> string \<Rightarrow> 'op collab_state \<Rightarrow> 'op reply" where
  "patch_document lib file h p sid m path st =
     (case AcceptVersion sid (hc_uuid h) m (pp_version p) st of
        (False, st) \<Rightarrow> ([], st)
      | (True, st) \<Rightarrow>
          let (o1, st) = move_member sid (hc_uuid h) m path st
          in case DocumentFor file sid path st of
               Inl e \<Rightarrow> (o1 @ collabError h e, st)
             | Inr (document, st) \<Rightarrow>
                 let s = cs_heap st ! sid;
                     available = MaxSessionBytes - (SessionDocumentBytes s - text_bytes (cd_content document));
                     limit = min (payload_limit s) available
                 in if limit \<le> 0 then (o1 @ collabError h ''collaboration session document memory limit reached'', st)
                    else case applyMonacoChanges lib document (pp_changes p) limit of
                           Inl err \<Rightarrow>
                             (if err = BaseNotFound then (o1 @ SendDocument h s document path, st)
                              else if err = TooLarge then (o1 @ collabError h ''collaboration document is too large'', st)
                              else (o1 @ collabError h ''invalid collaboration patch'', st))
                         | Inr (res, document) \<Rightarrow>
                             let st = put_doc sid path document st
                             in if cr_changes res = [] then (o1 @ SendDocument h s document path, st)
                                else (o1 @ CollabBroadcast s (hc_uuid h)
                                        (OPatch (pp_code p) path (cr_changes res) (pp_version p) (cr_revision res)
                                           (ClampCursor (pp_line p)) (ClampCursor (pp_column p)) (mb_user m)) @
                                      (if cr_transformed res then SendDocument h s document path else []), st))"

definition collabPatch ::
  "'op ot_lib \<Rightarrow> denylist \<Rightarrow> (string \<Rightarrow> file_answer) \<Rightarrow> int \<Rightarrow> 'l ws_conn \<Rightarrow> (int \<times> patch_payload option) list \<Rightarrow> 'op collab_state \<Rightarrow> 'op reply" where
  "collabPatch lib d file now h args st =
     (if \<not> CanWrite d h then (collabError h ''missing file write permission'', st)
      else case CollabDecode args of
        None \<Rightarrow> (collabError h ''invalid collaboration patch payload'', st)
      | Some p \<Rightarrow>
          (case MemberFor now h (pp_code p) st of
             (None, st) \<Rightarrow> (not_joined h, st)
           | (Some (sid, m), st) \<Rightarrow>
               let s = cs_heap st ! sid
               in if ss_mode s \<noteq> ''edit'' then (collabError h ''collaboration session is view-only'', st)
                  else if pp_changes p = [] \<or> length (pp_changes p) > MaxPatchChanges
                  then (collabError h ''invalid collaboration patch size'', st)
                  else if \<not> list_all change_ok (pp_changes p) then (collabError h ''invalid collaboration patch change'', st)
                  else if sum_list (map (text_bytes \<circ> te_text) (pp_changes p)) > payload_limit s
                  then (collabError h ''collaboration patch is too large'', st)
                  else case CollabPath (pp_path p) of
                         None \<Rightarrow> (bad_path h, st)
                       | Some path \<Rightarrow> patch_document lib file h p sid m path st))"

definition snapshot_document ::
  "(string \<Rightarrow> file_answer) \<Rightarrow> 'l ws_conn \<Rightarrow> snapshot_payload \<Rightarrow> nat \<Rightarrow> collab_member \<Rightarrow> string \<Rightarrow> 'op collab_state \<Rightarrow> 'op reply" where
  "snapshot_document file h p sid m path st =
     (case AcceptVersion sid (hc_uuid h) m (sn_version p) st of
        (False, st) \<Rightarrow> ([], st)
      | (True, st) \<Rightarrow>
          let (o1, st) = move_member sid (hc_uuid h) m path st
          in case DocumentFor file sid path st of
               Inl e \<Rightarrow> (o1 @ collabError h e, st)
             | Inr (document, st) \<Rightarrow>
                 let s = cs_heap st ! sid;
                     reply = (\<lambda>doc. CollabBroadcast s (hc_uuid h)
                       (OSnapshot (sn_code p) path (cd_content doc) (sn_version p) (cd_revision doc)
                          (ClampCursor (sn_line p)) (ClampCursor (sn_column p)) (mb_user m)))
                 in if cd_content document \<noteq> sn_content p
                    then (if cd_revision document = 0 \<and> UsersForPath s path (hc_uuid h) = []
                          then (let document = replace_doc (sn_content p) document
                                in (o1 @ reply document, put_doc sid path document st))
                          else (o1 @ SendDocument h s document path, st))
                    else (o1 @ reply document, st))"

definition collabSnapshot ::
  "denylist \<Rightarrow> (string \<Rightarrow> file_answer) \<Rightarrow> int \<Rightarrow> 'l ws_conn \<Rightarrow> (int \<times> snapshot_payload option) list \<Rightarrow> 'op collab_state \<Rightarrow> 'op reply" where
  "collabSnapshot d file now h args st =
     (if \<not> CanWrite d h then (collabError h ''missing file write permission'', st)
      else case CollabDecode args of
        None \<Rightarrow> (collabError h ''invalid collaboration snapshot payload'', st)
      | Some p \<Rightarrow>
          (case MemberFor now h (sn_code p) st of
             (None, st) \<Rightarrow> (not_joined h, st)
           | (Some (sid, m), st) \<Rightarrow>
               let s = cs_heap st ! sid
               in if ss_mode s \<noteq> ''edit'' then (collabError h ''collaboration session is view-only'', st)
                  else if text_bytes (sn_content p) > payload_limit s
                  then (collabError h ''collaboration snapshot is too large or invalid'', st)
                  else case CollabPath (sn_path p) of
                         None \<Rightarrow> (bad_path h, st)
                       | Some path \<Rightarrow> snapshot_document file h p sid m path st))"

definition saved_document ::
  "(string \<Rightarrow> file_answer) \<Rightarrow> 'l ws_conn \<Rightarrow> snapshot_payload \<Rightarrow> nat \<Rightarrow> collab_member \<Rightarrow> string \<Rightarrow> 'op collab_state \<Rightarrow> 'op reply" where
  "saved_document file h p sid m path st =
     (case AcceptVersion sid (hc_uuid h) m (sn_version p) st of
        (False, st) \<Rightarrow> ([], st)
      | (True, st) \<Rightarrow>
          let (o1, st) = move_member sid (hc_uuid h) m path st
          in case DocumentFor file sid path st of
               Inl e \<Rightarrow> (o1 @ collabError h e, st)
             | Inr (document, st) \<Rightarrow>
                 let document = replace_doc (sn_content p) document; s = cs_heap st ! sid
                 in (o1 @ CollabBroadcast s (hc_uuid h)
                           (OSaved (sn_code p) path (sn_content p) (sn_version p) (cd_revision document) (mb_user m)),
                     put_doc sid path document st))"

text \<open>A save carries the same fields as a snapshot, without the cursor.\<close>

definition collabFileSaved ::
  "denylist \<Rightarrow> (string \<Rightarrow> file_answer) \<Rightarrow> int \<Rightarrow> 'l ws_conn \<Rightarrow> (int \<times> snapshot_payload option) list \<Rightarrow> 'op collab_state \<Rightarrow> 'op reply" where
  "collabFileSaved d file now h args st =
     (if \<not> CanWrite d h then (collabError h ''missing file write permission'', st)
      else case CollabDecode args of
        None \<Rightarrow> (collabError h ''invalid collaboration save payload'', st)
      | Some p \<Rightarrow>
          (case MemberFor now h (sn_code p) st of
             (None, st) \<Rightarrow> (not_joined h, st)
           | (Some (sid, m), st) \<Rightarrow>
               let s = cs_heap st ! sid
               in if ss_mode s \<noteq> ''edit'' then (collabError h ''collaboration session is view-only'', st)
                  else if text_bytes (sn_content p) > payload_limit s
                  then (collabError h ''collaboration save payload is too large or invalid'', st)
                  else case CollabPath (sn_path p) of
                         None \<Rightarrow> (bad_path h, st)
                       | Some path \<Rightarrow> saved_document file h p sid m path st))"

section \<open>Other sessions of the server\<close>

definition drop_expired :: "int \<Rightarrow> 'op collab_state \<Rightarrow> 'op collab_state" where
  "drop_expired now st =
     st\<lparr>cs_codes := fold (\<lambda>(_, sid) cs. if SessionExpired now (cs_heap st ! sid) then AList.delete (ss_code (cs_heap st ! sid)) cs else cs)
                      (cs_codes st) (cs_codes st)\<rparr>"

definition SessionsForServer :: "int \<Rightarrow> string \<Rightarrow> 'op collab_state \<Rightarrow> 'op collab_session list \<times> 'op collab_state" where
  "SessionsForServer now serverUUID st =
     (filter (\<lambda>s. \<not> SessionExpired now s \<and> ss_server s = serverUUID) (map (\<lambda>(_, sid). cs_heap st ! sid) (cs_codes st)),
      drop_expired now st)"

definition ConflictsForPath :: "int \<Rightarrow> 'l ws_conn \<Rightarrow> string \<Rightarrow> 'op collab_state \<Rightarrow> file_conflict list \<times> 'op collab_state" where
  "ConflictsForPath now h path st =
     (case hc_jwt h of
        None \<Rightarrow> ([], st)
      | Some j \<Rightarrow>
          let (ss, st) = SessionsForServer now (wp_server j) st
          in (map (\<lambda>s. \<lparr>fc_code = ss_code s, fc_mode = ss_mode s, fc_users = UsersForPath s path (hc_uuid h)\<rparr>)
                (filter (\<lambda>s. ss_mode s = ''edit'' \<and> UsersForPath s path (hc_uuid h) \<noteq> []) ss), st))"

definition collabFileCheck :: "denylist \<Rightarrow> int \<Rightarrow> 'l ws_conn \<Rightarrow> (int \<times> check_payload option) list \<Rightarrow> 'op collab_state \<Rightarrow> 'op reply" where
  "collabFileCheck d now h args st =
     (if \<not> CanRead d h then (collabError h ''missing file read permission'', st)
      else case CollabDecode args of
        None \<Rightarrow> (collabError h ''invalid collaboration file check payload'', st)
      | Some p \<Rightarrow>
          (case CollabPath (ck_path p) of
             None \<Rightarrow> (bad_path h, st)
           | Some path \<Rightarrow>
               let (cs, st) = ConflictsForPath now h path st
               in ([(hc_uuid h, OCheck path (SafeText (ck_request p) 80) cs (concat (map fc_users cs)))], st)))"

definition collabExternalEdit :: "denylist \<Rightarrow> int \<Rightarrow> 'l ws_conn \<Rightarrow> (int \<times> external_payload option) list \<Rightarrow> 'op collab_state \<Rightarrow> 'op reply" where
  "collabExternalEdit d now h args st =
     (if \<not> CanWrite d h then (collabError h ''missing file write permission'', st)
      else case CollabDecode args of
        None \<Rightarrow> (collabError h ''invalid external edit payload'', st)
      | Some p \<Rightarrow>
          (case hc_jwt h of
             None \<Rightarrow> (collabError h ''missing websocket identity'', st)
           | Some j \<Rightarrow>
               (case CollabPath (ex_path p) of
                  None \<Rightarrow> (bad_path h, st)
                | Some path \<Rightarrow>
                    let (ss, st) = SessionsForServer now (wp_server j) st
                    in (concat (map (\<lambda>s. CollabBroadcast s '''' (OExternal (ss_code s) path (clean_user h j (ex_user p)) (UsersForPath s path (hc_uuid h))))
                          (filter (\<lambda>s. ss_mode s = ''edit'' \<and> UsersForPath s path (hc_uuid h) \<noteq> []) ss)), st))))"

definition closes :: "int \<Rightarrow> string \<Rightarrow> string \<Rightarrow> 'op collab_session \<Rightarrow> bool" where
  "closes now serverUUID mode s \<longleftrightarrow> \<not> SessionExpired now s \<and> ss_server s = serverUUID \<and> (mode = '''' \<or> ss_mode s = mode)"

definition CloseSessions :: "int \<Rightarrow> string \<Rightarrow> string \<Rightarrow> string \<Rightarrow> 'op collab_state \<Rightarrow> nat \<times> sends \<times> 'op collab_state" where
  "CloseSessions now serverUUID mode reason st =
     (let mode = (let m = TrimSpace mode in if m \<noteq> ''edit'' \<and> m \<noteq> ''view'' then '''' else m);
          reason = (let r = SafeText reason 160 in if r = '''' then ''Live collaboration was revoked by an administrator.'' else r);
          closed = filter (\<lambda>(_, sid). closes now serverUUID mode (cs_heap st ! sid)) (cs_codes st);
          codes = filter (\<lambda>(_, sid). \<not> SessionExpired now (cs_heap st ! sid) \<and> \<not> closes now serverUUID mode (cs_heap st ! sid)) (cs_codes st)
      in (length closed,
          concat (map (\<lambda>(_, sid). CollabBroadcast (cs_heap st ! sid) '''' (OClosed (ss_code (cs_heap st ! sid)) (Some reason))) closed),
          fold (\<lambda>(_, sid). upd_session sid (\<lambda>s. s\<lparr>ss_members := []\<rparr>)) closed (st\<lparr>cs_codes := codes\<rparr>)))"

section \<open>The protocol\<close>

datatype collab_message =
    MJoin "(int \<times> join_payload option) list"
  | MLeave
  | MClose "(int \<times> string option) list"
  | MFileOpen "(int \<times> file_payload_msg option) list"
  | MFileClose "(int \<times> file_payload_msg option) list"
  | MPresence "(int \<times> presence_payload option) list"
  | MPatch "(int \<times> patch_payload option) list"
  | MSnapshot "(int \<times> snapshot_payload option) list"
  | MSaved "(int \<times> snapshot_payload option) list"
  | MCheck "(int \<times> check_payload option) list"
  | MExternal "(int \<times> external_payload option) list"

definition HandleBetterFilesCollaboration ::
  "'op ot_lib \<Rightarrow> collab_token jwt_api \<Rightarrow> denylist \<Rightarrow> (string \<Rightarrow> file_answer) \<Rightarrow> int \<Rightarrow> 'l ws_conn \<Rightarrow> collab_message \<Rightarrow> 'op collab_state \<Rightarrow> 'op reply" where
  "HandleBetterFilesCollaboration lib api d file now h m st =
     (case m of
        MJoin args \<Rightarrow> collabJoin api d now h args st
      | MLeave \<Rightarrow> LeaveAll h st
      | MClose args \<Rightarrow> collabClose now h args st
      | MFileOpen args \<Rightarrow> collabSetFile file now h args True st
      | MFileClose args \<Rightarrow> collabSetFile file now h args False st
      | MPresence args \<Rightarrow> collabPresence now h args st
      | MPatch args \<Rightarrow> collabPatch lib d file now h args st
      | MSnapshot args \<Rightarrow> collabSnapshot d file now h args st
      | MSaved args \<Rightarrow> collabFileSaved d file now h args st
      | MCheck args \<Rightarrow> collabFileCheck d now h args st
      | MExternal args \<Rightarrow> collabExternalEdit d now h args st)"

section \<open>Well-formed sessions\<close>

text \<open>
  \<open>srv\<close> is the server that a connection belongs to, which does not change during its life.
\<close>

definition member_ok :: "(string \<Rightarrow> string) \<Rightarrow> string \<Rightarrow> string \<times> collab_member \<Rightarrow> bool" where
  "member_ok srv sv km \<longleftrightarrow> mb_handler (snd km) = fst km \<and> srv (fst km) = sv \<and> (mb_path (snd km) = '''' \<or> path_ok (mb_path (snd km)))"

definition file_doc_ok :: "'op ot_lib \<Rightarrow> int \<Rightarrow> string \<times> 'op collab_document \<Rightarrow> bool" where
  "file_doc_ok lib mx pd \<longleftrightarrow> path_ok (fst pd) \<and> doc_live lib (snd pd) \<and> text_bytes (cd_content (snd pd)) \<le> mx"

definition session_ok :: "'op ot_lib \<Rightarrow> (string \<Rightarrow> string) \<Rightarrow> 'op collab_session \<Rightarrow> bool" where
  "session_ok lib srv s \<longleftrightarrow>
     code_ok (ss_code s) \<and> (ss_mode s = ''edit'' \<or> ss_mode s = ''view'') \<and>
     2 \<le> ss_max_users s \<and> ss_max_users s \<le> int MaxUsers \<and> 1 \<le> ss_max_bytes s \<and> ss_max_bytes s \<le> MaxPayloadBytes \<and>
     distinct (map fst (ss_members s)) \<and> int (length (ss_members s)) \<le> ss_max_users s \<and>
     list_all (member_ok srv (ss_server s)) (ss_members s) \<and>
     distinct (map fst (ss_docs s)) \<and> length (ss_docs s) \<le> MaxDocuments \<and>
     list_all (file_doc_ok lib (ss_max_bytes s)) (ss_docs s)"

definition state_ok :: "'op ot_lib \<Rightarrow> (string \<Rightarrow> string) \<Rightarrow> 'op collab_state \<Rightarrow> bool" where
  "state_ok lib srv st \<longleftrightarrow>
     list_all (session_ok lib srv) (cs_heap st) \<and> distinct (map fst (cs_codes st)) \<and>
     list_all (\<lambda>(c, sid). sid < length (cs_heap st) \<and> ss_code (cs_heap st ! sid) = c) (cs_codes st)"

lemma state_ok_session: "state_ok lib srv st \<Longrightarrow> sid < length (cs_heap st) \<Longrightarrow> session_ok lib srv (cs_heap st ! sid)"
  by (simp add: state_ok_def list_all_length)

lemma state_ok_lookup:
  "state_ok lib srv st \<Longrightarrow> map_of (cs_codes st) c = Some sid \<Longrightarrow> sid < length (cs_heap st) \<and> ss_code (cs_heap st ! sid) = c"
  by (drule map_of_SomeD) (auto simp: state_ok_def list_all_iff)

lemma upd_session_ok:
  assumes "state_ok lib srv st" "sid < length (cs_heap st)"
    "session_ok lib srv (f (cs_heap st ! sid))" "ss_code (f (cs_heap st ! sid)) = ss_code (cs_heap st ! sid)"
  shows "state_ok lib srv (upd_session sid f st)"
  using assms
  by (auto simp: state_ok_def upd_session_def list_all_length nth_list_update list_all_iff split: if_splits)

lemma set_alist_update: "x \<in> set (AList.update k v al) \<Longrightarrow> x = (k, v) \<or> x \<in> set al"
  by (induction al) (auto split: if_splits)

lemma length_alist_update: "length (AList.update k v al) = (if map_of al k = None then Suc (length al) else length al)"
  by (induction al) auto

lemma length_alist_delete: "length (AList.delete k al) \<le> length al"
  by (simp add: AList.delete_eq)

lemma list_all_alist:
  "list_all P al \<Longrightarrow> P (k, v) \<Longrightarrow> list_all P (AList.update k v al)"
  "list_all P al \<Longrightarrow> list_all P (AList.delete k al)"
  using set_alist_update [of _ k v al] by (auto simp: list_all_iff AList.delete_eq)

lemma delete_code_ok: "state_ok lib srv st \<Longrightarrow> state_ok lib srv (st\<lparr>cs_codes := AList.delete c (cs_codes st)\<rparr>)"
  by (auto simp: state_ok_def list_all_iff AList.delete_eq distinct_map_filter)

lemma filter_codes_ok:
  assumes "state_ok lib srv st" "set cs \<subseteq> set (cs_codes st)" "distinct (map fst cs)"
  shows "state_ok lib srv (st\<lparr>cs_codes := cs\<rparr>)"
  using assms by (auto simp: state_ok_def list_all_iff)

lemma new_session_ok:
  assumes "code_ok (CollabCode (si_code info))"
  shows "session_ok lib srv (new_session info)"
  using assms
  by (auto simp: session_ok_def new_session_def collab_mode_def clamp_users_def clamp_bytes_def MaxUsers_def MaxPayloadBytes_def MaxDocuments_def)

lemma create_session_ok:
  assumes "state_ok lib srv st" "CollabCode (si_code info) \<noteq> ''''" "create_session info st = (sid, st')"
  shows "state_ok lib srv st' \<and> sid < length (cs_heap st')"
proof -
  let ?c = "CollabCode (si_code info)"
  let ?n = "length (cs_heap st)"
  from assms have st': "st' = st\<lparr>cs_heap := cs_heap st @ [new_session info], cs_codes := AList.update ?c ?n (cs_codes st)\<rparr>" "sid = ?n"
    by (auto simp: create_session_def)
  have "session_ok lib srv (new_session info)" using new_session_ok CollabCode_ok assms(2) by blast
  moreover have "distinct (map fst (AList.update ?c ?n (cs_codes st)))" using assms(1) by (simp add: state_ok_def AList.distinct_update)
  moreover have "list_all (\<lambda>(c, sid). sid < length (cs_heap st') \<and> ss_code (cs_heap st' ! sid) = c) (AList.update ?c ?n (cs_codes st))"
    using assms(1) set_alist_update [of _ ?c ?n "cs_codes st"] unfolding st' list_all_iff by (fastforce simp: state_ok_def list_all_iff nth_append new_session_def)
  ultimately show ?thesis using assms(1) by (auto simp: st' state_ok_def)
qed

lemma GetOrCreateSession_ok:
  assumes "state_ok lib srv st" "CollabCode (si_code info) \<noteq> ''''" "GetOrCreateSession now info st = (sid, st')"
  shows "state_ok lib srv st' \<and> sid < length (cs_heap st')"
proof (cases "map_of (cs_codes st) (CollabCode (si_code info))")
  case None
  with assms create_session_ok show ?thesis by (simp add: GetOrCreateSession_def)
next
  case (Some i)
  note i = state_ok_lookup [OF assms(1) Some]
  show ?thesis
  proof (cases "SessionExpired now (cs_heap st ! i)")
    case True
    with Some assms(3) have "create_session info (st\<lparr>cs_codes := AList.delete (CollabCode (si_code info)) (cs_codes st)\<rparr>) = (sid, st')"
      by (simp add: GetOrCreateSession_def Let_def)
    from create_session_ok [OF delete_code_ok [OF assms(1)] assms(2) this] show ?thesis .
  next
    case False
    let ?f = "\<lambda>s. s\<lparr>ss_expires := si_expires info * 1000000000\<rparr>"
    have "session_ok lib srv (?f (cs_heap st ! i))" using state_ok_session [OF assms(1) conjunct1 [OF i]] by (simp add: session_ok_def)
    with i have "state_ok lib srv (upd_session i ?f st)" by (intro upd_session_ok [OF assms(1)]) simp_all
    with False Some assms(1,3) i show ?thesis by (auto simp: GetOrCreateSession_def Let_def upd_session_def split: if_splits)
  qed
qed

lemma MemberFor_ok: "state_ok lib srv st \<Longrightarrow> MemberFor now h code st = (r, st') \<Longrightarrow> state_ok lib srv st'"
  using delete_code_ok by (auto simp: MemberFor_def Let_def split: option.splits if_splits)

lemma MemberFor_SomeD:
  assumes "state_ok lib srv st" "MemberFor now h code st = (Some (sid, m), st')"
  shows "st' = st \<and> sid < length (cs_heap st) \<and> map_of (ss_members (cs_heap st ! sid)) (hc_uuid h) = Some m \<and>
    \<not> SessionExpired now (cs_heap st ! sid)"
  using assms state_ok_lookup [OF assms(1)]
  by (auto simp: MemberFor_def Let_def split: option.splits if_splits)

lemma RemoveMember_ok:
  assumes "state_ok lib srv st" "RemoveMember code hid st = (out, st')"
  shows "state_ok lib srv st'"
proof (cases "map_of (cs_codes st) (CollabCode code)")
  case None
  with assms show ?thesis by (simp add: RemoveMember_def)
next
  case (Some sid)
  note i = state_ok_lookup [OF assms(1) Some]
  let ?f = "\<lambda>s::'a collab_session. s\<lparr>ss_members := AList.delete hid (ss_members s)\<rparr>"
  have "session_ok lib srv (?f (cs_heap st ! sid))"
    using state_ok_session [OF assms(1) conjunct1 [OF i]] length_alist_delete [of hid "ss_members (cs_heap st ! sid)"]
    by (auto simp: session_ok_def AList.distinct_delete list_all_alist)
  then have ok: "state_ok lib srv (upd_session sid ?f st)" using i by (intro upd_session_ok [OF assms(1)]) simp_all
  from assms(2) Some show ?thesis
    using assms(1) ok delete_code_ok [OF ok]
    by (simp add: RemoveMember_def Let_def split: if_splits) blast+
qed

lemma LeaveAll_ok:
  assumes "state_ok lib srv st" "LeaveAll h st = (out, st')"
  shows "state_ok lib srv st'"
proof -
  have "state_ok lib srv (snd (fold (leave_one hid) cs acc))" if "state_ok lib srv (snd acc)" for hid cs acc
    using that
  proof (induction cs arbitrary: acc)
    case (Cons c cs)
    obtain out st1 where acc: "acc = (out, st1)" by fastforce
    obtain o1 st2 where r: "RemoveMember c hid st1 = (o1, st2)" by fastforce
    from RemoveMember_ok [OF _ r] Cons.prems acc have "state_ok lib srv st2" by simp
    with Cons.IH [of "leave_one hid c acc"] show ?case by (simp add: leave_one_def acc r)
  qed simp
  from this [of "([], st)"] assms show ?thesis unfolding LeaveAll_def by (metis snd_conv)
qed

lemma session_ok_members:
  "session_ok lib srv s \<Longrightarrow> distinct (map fst ms) \<Longrightarrow> int (length ms) \<le> ss_max_users s \<Longrightarrow>
   list_all (member_ok srv (ss_server s)) ms \<Longrightarrow> session_ok lib srv (s\<lparr>ss_members := ms\<rparr>)"
  by (simp add: session_ok_def)

lemma session_okD:
  assumes "session_ok lib srv s"
  shows "distinct (map fst (ss_members s))" "int (length (ss_members s)) \<le> ss_max_users s"
    "list_all (member_ok srv (ss_server s)) (ss_members s)"
  using assms by (simp_all add: session_ok_def)

lemma upd_member_ok:
  assumes "state_ok lib srv st" "sid < length (cs_heap st)"
    "\<And>m. mb_handler (f m) = mb_handler m" "\<And>m. mb_path m = '''' \<or> path_ok (mb_path m) \<Longrightarrow> mb_path (f m) = '''' \<or> path_ok (mb_path (f m))"
  shows "state_ok lib srv (upd_member sid hid f st)"
  unfolding upd_member_def
proof (rule upd_session_ok [OF assms(1,2)])
  let ?g = "\<lambda>(k, m). (k, if k = hid then f m else m)"
  let ?s = "cs_heap st ! sid"
  note ok = state_ok_session [OF assms(1,2)]
  have "map fst (map ?g (ss_members ?s)) = map fst (ss_members ?s)" by (auto simp: case_prod_beta)
  then have "distinct (map fst (map ?g (ss_members ?s)))" using session_okD(1) [OF ok] by (simp only:)
  moreover have "list_all (member_ok srv (ss_server ?s)) (map ?g (ss_members ?s))"
    using session_okD(3) [OF ok] assms(3,4) by (fastforce simp: list_all_iff member_ok_def)
  moreover have "int (length (map ?g (ss_members ?s))) \<le> ss_max_users ?s" using session_okD(2) [OF ok] by simp
  ultimately show "session_ok lib srv (?s\<lparr>ss_members := map ?g (ss_members ?s)\<rparr>)" by (intro session_ok_members [OF ok])
qed simp

lemma AcceptVersion_ok:
  assumes "state_ok lib srv st" "sid < length (cs_heap st)" "AcceptVersion sid hid m v st = (b, st')"
  shows "state_ok lib srv st'"
  using assms upd_member_ok [OF assms(1,2), of "\<lambda>m. m\<lparr>mb_version := v\<rparr>" hid]
  by (auto simp: AcceptVersion_def split: if_splits)

lemma move_member_ok:
  assumes "state_ok lib srv st" "sid < length (cs_heap st)" "path_ok path" "move_member sid hid m path st = (out, st')"
  shows "state_ok lib srv st'"
  using assms upd_member_ok [OF assms(1,2), of "\<lambda>m. m\<lparr>mb_path := path\<rparr>" hid]
  by (auto simp: move_member_def SetMemberPath_def split: if_splits)

lemma put_doc_ok:
  assumes "state_ok lib srv st" "sid < length (cs_heap st)" "path_ok path" "doc_live lib doc"
    "text_bytes (cd_content doc) \<le> ss_max_bytes (cs_heap st ! sid)"
    "map_of (ss_docs (cs_heap st ! sid)) path \<noteq> None \<or> length (ss_docs (cs_heap st ! sid)) < MaxDocuments"
  shows "state_ok lib srv (put_doc sid path doc st)"
  unfolding put_doc_def
proof (rule upd_session_ok [OF assms(1,2)])
  let ?s = "cs_heap st ! sid"
  have "list_all (file_doc_ok lib (ss_max_bytes ?s)) (AList.update path doc (ss_docs ?s))"
    using state_ok_session [OF assms(1,2)] assms(3-5) by (auto simp: session_ok_def file_doc_ok_def intro!: list_all_alist)
  then show "session_ok lib srv (?s\<lparr>ss_docs := AList.update path doc (ss_docs ?s)\<rparr>)"
    using state_ok_session [OF assms(1,2)] assms(6) by (auto simp: session_ok_def length_alist_update AList.distinct_update)
qed simp

lemma payload_limit_ok: "session_ok lib srv s \<Longrightarrow> payload_limit s = ss_max_bytes s"
  by (auto simp: session_ok_def payload_limit_def)

lemma DocumentFor_cases:
  assumes "DocumentFor file sid path st = Inr (doc, st')"
  shows "(st' = st \<and> map_of (ss_docs (cs_heap st ! sid)) path = Some doc) \<or>
    (\<exists>sz bs. file path = FileBytes sz (Some bs) \<and> int (length bs) \<le> payload_limit (cs_heap st ! sid) \<and> utf8_valid bs \<and>
       map_of (ss_docs (cs_heap st ! sid)) path = None \<and> length (ss_docs (cs_heap st ! sid)) < MaxDocuments \<and>
       doc = newDocument (runes_bytes bs) \<and> st' = put_doc sid path doc st)"
proof -
  have "take n bs = bs" if "\<not> int (length (take (nat (mx + 1)) bs)) > mx" "n = nat (mx + 1)" for bs :: "nat list" and n mx
    using that by auto
  with assms show ?thesis
    unfolding DocumentFor_def Let_def by (auto split: option.splits file_answer.splits if_splits)
qed

lemma DocumentFor_ok:
  assumes "state_ok lib srv st" "sid < length (cs_heap st)" "path_ok path" "DocumentFor file sid path st = Inr (doc, st')"
  shows "state_ok lib srv st' \<and> length (cs_heap st') = length (cs_heap st) \<and> map_of (ss_docs (cs_heap st' ! sid)) path = Some doc \<and>
    ss_max_bytes (cs_heap st' ! sid) = ss_max_bytes (cs_heap st ! sid)"
  using DocumentFor_cases [OF assms(4)]
proof (elim disjE exE conjE)
  fix sz bs
  assume d: "int (length bs) \<le> payload_limit (cs_heap st ! sid)" "utf8_valid bs" "length (ss_docs (cs_heap st ! sid)) < MaxDocuments"
    "doc = newDocument (runes_bytes bs)" "st' = put_doc sid path doc st"
  have "text_bytes (cd_content doc) \<le> ss_max_bytes (cs_heap st ! sid)"
    using d sum_rune_size [OF d(2)] payload_limit_ok [OF state_ok_session [OF assms(1,2)]]
    by (simp add: newDocument_def text_bytes_def)
  with put_doc_ok [OF assms(1-3), of doc] d newDocument_live [of lib "runes_bytes bs"] assms(2) show ?thesis
    by (simp add: put_doc_def upd_session_def AList.update_conv')
qed (use assms in auto)

text \<open>The handlers begin by looking up the caller's membership.\<close>

lemma member_gate:
  assumes "state_ok lib srv st"
    "\<And>sid m. sid < length (cs_heap st) \<Longrightarrow> map_of (ss_members (cs_heap st ! sid)) (hc_uuid h) = Some m \<Longrightarrow>
       \<not> SessionExpired now (cs_heap st ! sid) \<Longrightarrow> P (snd (k sid m st))"
    "\<And>st'. state_ok lib srv st' \<Longrightarrow> cs_heap st' = cs_heap st \<Longrightarrow> P st'"
  shows "P (snd (case MemberFor now h code st of (None, st) \<Rightarrow> (x, st) | (Some (sid, m), st) \<Rightarrow> k sid m st))"
proof -
  obtain r st' where r: "MemberFor now h code st = (r, st')" by fastforce
  show ?thesis
  proof (cases r)
    case None
    have "cs_heap st' = cs_heap st" using r None by (auto simp: MemberFor_def Let_def split: option.splits if_splits)
    with r None assms(3) MemberFor_ok [OF assms(1) r] show ?thesis by simp
  next
    case (Some sm)
    then obtain sid m where "r = Some (sid, m)" by (cases sm) auto
    with r have mf: "MemberFor now h code st = (Some (sid, m), st')" by simp
    from MemberFor_SomeD [OF assms(1) mf] assms(2) [of sid m] mf show ?thesis by simp
  qed
qed

lemma member_gate_ok:
  assumes "state_ok lib srv st"
    "\<And>sid m. sid < length (cs_heap st) \<Longrightarrow> state_ok lib srv (snd (k sid m st))"
  shows "state_ok lib srv (snd (case MemberFor now h code st of (None, st) \<Rightarrow> (x, st) | (Some (sid, m), st) \<Rightarrow> k sid m st))"
  by (rule member_gate [OF assms(1), where P = "state_ok lib srv"]) (use assms(2) in auto)

lemma join_session_ok:
  assumes "state_ok lib srv st" "CollabCode (si_code info) \<noteq> ''''" "srv (hc_uuid h) = si_server info"
  shows "state_ok lib srv (snd (join_session now h info user st))"
proof -
  obtain o1 st1 where l: "LeaveAll h st = (o1, st1)" by fastforce
  obtain sid st2 where g: "GetOrCreateSession now info st1 = (sid, st2)" by fastforce
  note ok = GetOrCreateSession_ok [OF LeaveAll_ok [OF assms(1) l] assms(2) g]
  let ?s = "cs_heap st2 ! sid"
  let ?m = "\<lparr>mb_handler = hc_uuid h, mb_user = user, mb_path = '''', mb_joined = now, mb_version = 0\<rparr>"
  let ?f = "\<lambda>s::'a collab_session. s\<lparr>ss_members := AList.update (hc_uuid h) ?m (ss_members s)\<rparr>"
  note sok = state_ok_session [OF conjunct1 [OF ok] conjunct2 [OF ok]]
  have "state_ok lib srv (upd_session sid ?f st2)" if "ss_server ?s = si_server info" "\<not> int (length (ss_members ?s)) \<ge> ss_max_users ?s"
  proof (rule upd_session_ok)
    have "member_ok srv (ss_server ?s) (hc_uuid h, ?m)" using assms(3) that(1) by (simp add: member_ok_def)
    then show "session_ok lib srv (?f ?s)"
      using session_okD [OF sok] that(2)
      by (intro session_ok_members [OF sok]) (auto simp: AList.distinct_update length_alist_update list_all_alist)
  qed (use ok in simp_all)
  with ok l g show ?thesis by (auto simp: join_session_def Let_def)
qed

lemma VerifiedSession_SomeD:
  "VerifiedSession api now info = Some (info', u) \<Longrightarrow> CollabCode (si_code info') \<noteq> ''''"
  using CollabCode_id CollabCode_ok code_ok_nonempty
  by (auto simp: VerifiedSession_def Let_def split: sum.splits if_splits)

lemma collabJoin_ok:
  assumes "state_ok lib srv st" "srv (hc_uuid h) = hc_server h" "\<And>j. hc_jwt h = Some j \<Longrightarrow> wp_server j = hc_server h"
  shows "state_ok lib srv (snd (collabJoin api d now h args st))"
  unfolding collabJoin_def
  using assms by (auto split: option.split intro!: join_session_ok)

text \<open>Recording the version and the place of a member, before its document is looked up.\<close>

lemma enter_document:
  assumes st: "state_ok lib srv st" and sid: "sid < length (cs_heap st)" and path: "path_ok path"
    and a: "AcceptVersion sid hid m v st = (b, st1)" and mv: "move_member sid hid m path st1 = (o1, st2)"
  shows "state_ok lib srv st1" "state_ok lib srv st2" "sid < length (cs_heap st2)"
proof -
  show ok1: "state_ok lib srv st1" by (rule AcceptVersion_ok [OF st sid a])
  have len: "length (cs_heap st1) = length (cs_heap st)" "length (cs_heap st2) = length (cs_heap st1)"
    using a mv by (auto simp: AcceptVersion_def move_member_def SetMemberPath_def upd_member_def upd_session_def split: if_splits)
  with sid show "sid < length (cs_heap st2)" by simp
  show "state_ok lib srv st2" by (rule move_member_ok [OF ok1 _ path mv]) (use len sid in simp)
qed

lemma found_document:
  assumes "state_ok lib srv st" "sid < length (cs_heap st)" "path_ok path" "DocumentFor file sid path st = Inr (doc, st')"
  shows "session_ok lib srv (cs_heap st' ! sid)" "doc_live lib doc"
    "doc_live lib doc' \<Longrightarrow> text_bytes (cd_content doc') \<le> payload_limit (cs_heap st' ! sid) \<Longrightarrow> state_ok lib srv (put_doc sid path doc' st')"
proof -
  note ok = DocumentFor_ok [OF assms]
  show s: "session_ok lib srv (cs_heap st' ! sid)" using ok assms(2) by (auto intro: state_ok_session)
  have "(path, doc) \<in> set (ss_docs (cs_heap st' ! sid))" using ok by (auto dest: map_of_SomeD)
  with s show "doc_live lib doc" by (auto simp: session_ok_def list_all_iff file_doc_ok_def)
  show "state_ok lib srv (put_doc sid path doc' st')"
    if "doc_live lib doc'" "text_bytes (cd_content doc') \<le> payload_limit (cs_heap st' ! sid)"
    using ok that assms(2,3) payload_limit_ok [OF s] by (intro put_doc_ok) auto
qed

lemma replace_doc_live: "doc_live lib d \<Longrightarrow> doc_live lib (replace_doc content d)"
  by (auto simp: doc_live_def replace_doc_ok) (simp add: replace_doc_def)

lemma patch_document_ok:
  assumes st: "state_ok lib srv st" "sid < length (cs_heap st)" "path_ok path"
  shows "state_ok lib srv (snd (patch_document lib file h p sid m path st))"
proof -
  obtain b st1 where a: "AcceptVersion sid (hc_uuid h) m (pp_version p) st = (b, st1)" by fastforce
  obtain o1 st2 where mv: "move_member sid (hc_uuid h) m path st1 = (o1, st2)" by fastforce
  note ok = enter_document [OF st a mv]
  show ?thesis
  proof (cases "DocumentFor file sid path st2")
    case (Inl e)
    with a mv ok show ?thesis by (cases b) (simp_all add: patch_document_def)
  next
    case (Inr r)
    then obtain doc st3 where d: "DocumentFor file sid path st2 = Inr (doc, st3)" by (cases r) auto
    note fd = found_document [OF ok(2,3) st(3) d]
    have "state_ok lib srv (put_doc sid path doc' st3)"
      if ap: "applyMonacoChanges lib doc (pp_changes p) (min (payload_limit (cs_heap st3 ! sid)) avail) = Inr (res, doc')"
        "\<not> min (payload_limit (cs_heap st3 ! sid)) avail \<le> 0" for res doc' avail
      using ap by (intro fd(3) applyMonacoChanges_live [OF fd(2) ap(1)]) (auto elim!: applyMonacoChanges_InrD)
    with a mv d ok DocumentFor_ok [OF ok(2,3) st(3) d] show ?thesis
      by (cases b) (auto simp: patch_document_def Let_def split: sum.split)
  qed
qed

lemma snapshot_document_ok:
  assumes st: "state_ok lib srv st" "sid < length (cs_heap st)" "path_ok path"
    and sz: "text_bytes (sn_content p) \<le> payload_limit (cs_heap st ! sid)"
  shows "state_ok lib srv (snd (snapshot_document file h p sid m path st))" "state_ok lib srv (snd (saved_document file h p sid m path st))"
proof -
  obtain b st1 where a: "AcceptVersion sid (hc_uuid h) m (sn_version p) st = (b, st1)" by fastforce
  obtain o1 st2 where mv: "move_member sid (hc_uuid h) m path st1 = (o1, st2)" by fastforce
  note ok = enter_document [OF st a mv]
  have pl: "ss_max_bytes (cs_heap st2 ! sid) = ss_max_bytes (cs_heap st ! sid)"
    using a mv st(2) by (auto simp: AcceptVersion_def move_member_def SetMemberPath_def upd_member_def upd_session_def split: if_splits)
  have "state_ok lib srv (snd (snapshot_document file h p sid m path st)) \<and> state_ok lib srv (snd (saved_document file h p sid m path st))"
  proof (cases "DocumentFor file sid path st2")
    case (Inl e)
    with a mv ok show ?thesis by (cases b) (simp_all add: snapshot_document_def saved_document_def)
  next
    case (Inr r)
    then obtain doc st3 where d: "DocumentFor file sid path st2 = Inr (doc, st3)" by (cases r) auto
    note fd = found_document [OF ok(2,3) st(3) d] and dk = DocumentFor_ok [OF ok(2,3) st(3) d]
    have "payload_limit (cs_heap st3 ! sid) = payload_limit (cs_heap st ! sid)" using dk pl by (simp add: payload_limit_def)
    then have "state_ok lib srv (put_doc sid path (replace_doc (sn_content p) doc) st3)"
      using sz by (intro fd(3) replace_doc_live fd(2)) (simp add: replace_doc_def)
    with a mv d ok dk show ?thesis
      by (cases b) (auto simp: snapshot_document_def saved_document_def Let_def)
  qed
  then show "state_ok lib srv (snd (snapshot_document file h p sid m path st))" "state_ok lib srv (snd (saved_document file h p sid m path st))" by simp_all
qed

lemma collabPatch_ok: "state_ok lib srv st \<Longrightarrow> state_ok lib srv (snd (collabPatch lib d file now h args st))"
  unfolding collabPatch_def
  by (auto simp: Let_def split: option.split intro!: member_gate_ok patch_document_ok dest: CollabPath_ok)

lemma collabSnapshot_ok: "state_ok lib srv st \<Longrightarrow> state_ok lib srv (snd (collabSnapshot d file now h args st))"
  unfolding collabSnapshot_def
  by (auto simp: Let_def split: option.split intro!: member_gate_ok snapshot_document_ok dest: CollabPath_ok)

lemma collabFileSaved_ok: "state_ok lib srv st \<Longrightarrow> state_ok lib srv (snd (collabFileSaved d file now h args st))"
  unfolding collabFileSaved_def
  by (auto simp: Let_def split: option.split intro!: member_gate_ok snapshot_document_ok dest: CollabPath_ok)

lemma moved_ok:
  assumes "state_ok lib srv st" "sid < length (cs_heap st)" "path_ok path"
  shows "state_ok lib srv (snd (case move_member sid hid m path st of (o1, st) \<Rightarrow> (F o1 st, st)))"
  using move_member_ok [OF assms surjective_pairing] by (simp add: case_prod_beta Let_def)

lemma collabPresence_ok: "state_ok lib srv st \<Longrightarrow> state_ok lib srv (snd (collabPresence now h args st))"
  unfolding collabPresence_def
  by (auto split: option.split intro!: member_gate_ok moved_ok dest: CollabPath_ok)

lemma collabClose_ok: "state_ok lib srv st \<Longrightarrow> state_ok lib srv (snd (collabClose now h args st))"
  unfolding collabClose_def
  by (auto simp: Let_def split: option.split intro!: member_gate_ok delete_code_ok)

lemma collabSetFile_ok:
  assumes "state_ok lib srv st"
  shows "state_ok lib srv (snd (collabSetFile file now h args opening st))"
proof -
  have opn: "state_ok lib srv (upd_member sid hid (mb_path_update (\<lambda>_. path)) st)"
    if "sid < length (cs_heap st)" "path_ok path" for sid path hid
    by (rule upd_member_ok [OF assms that(1)]) (use that(2) in auto)
  have cls: "state_ok lib srv (upd_member sid hid (\<lambda>m. if mb_path m = path then m\<lparr>mb_path := ''''\<rparr> else m) st)"
    if "sid < length (cs_heap st)" for sid path hid
    by (rule upd_member_ok [OF assms that(1)]) auto
  have doc: "state_ok lib srv st'" if "sid < length (cs_heap st)" "path_ok path"
    "DocumentFor file sid path (upd_member sid (hc_uuid h) (mb_path_update (\<lambda>_. path)) st) = Inr (dc, st')" for sid path dc st'
    using DocumentFor_ok [OF opn [OF that(1,2)] _ that(2,3)] that(1) by (simp add: upd_member_def upd_session_def)
  show ?thesis
  proof (cases "opening")
    case True
    with assms show ?thesis
      unfolding collabSetFile_def Let_def
      by (auto split: option.split sum.split intro!: member_gate_ok dest!: CollabPath_ok intro: opn doc)
  next
    case False
    with assms show ?thesis
      unfolding collabSetFile_def Let_def by (auto split: option.split intro!: member_gate_ok intro: cls)
  qed
qed

lemma drop_expired_ok:
  assumes "state_ok lib srv st"
  shows "state_ok lib srv (drop_expired now st)"
proof -
  let ?f = "\<lambda>(_, sid) cs. if SessionExpired now (cs_heap st ! sid) then AList.delete (ss_code (cs_heap st ! sid)) cs else cs"
  have "set (fold ?f xs cs) \<subseteq> set cs \<and> distinct (map fst (fold ?f xs cs))" if "distinct (map fst cs)" for xs and cs :: "(string \<times> nat) list"
    using that
  proof (induction xs arbitrary: cs)
    case (Cons x xs)
    obtain c sid where x: "x = (c, sid)" by fastforce
    let ?cs = "?f x cs"
    have "distinct (map fst ?cs)" "set ?cs \<subseteq> set cs"
      using Cons.prems AList.distinct_delete [of cs] by (auto simp: x) (auto simp: AList.delete_eq)
    with Cons.IH [of ?cs] show ?case by auto
  qed simp
  moreover have "distinct (map fst (cs_codes st))" using assms by (simp add: state_ok_def)
  ultimately show ?thesis unfolding drop_expired_def by (intro filter_codes_ok [OF assms]) blast+
qed

lemma SessionsForServer_state: "snd (SessionsForServer now sv st) = drop_expired now st"
  by (simp add: SessionsForServer_def)

lemma collabFileCheck_ok: "state_ok lib srv st \<Longrightarrow> state_ok lib srv (snd (collabFileCheck d now h args st))"
  unfolding collabFileCheck_def ConflictsForPath_def
  by (auto simp: Let_def case_prod_beta SessionsForServer_state split: option.split intro!: drop_expired_ok)

lemma collabExternalEdit_ok: "state_ok lib srv st \<Longrightarrow> state_ok lib srv (snd (collabExternalEdit d now h args st))"
  unfolding collabExternalEdit_def
  by (auto simp: Let_def case_prod_beta SessionsForServer_state split: option.split intro!: drop_expired_ok)

lemma LeaveAll_snd_ok: "state_ok lib srv st \<Longrightarrow> state_ok lib srv (snd (LeaveAll h st))"
  using LeaveAll_ok [OF _ surjective_pairing] by blast

lemmas handler_oks = collabJoin_ok LeaveAll_snd_ok collabClose_ok collabSetFile_ok collabPresence_ok collabPatch_ok
  collabSnapshot_ok collabFileSaved_ok collabFileCheck_ok collabExternalEdit_ok

lemma HandleBetterFilesCollaboration_ok:
  assumes "state_ok lib srv st" "srv (hc_uuid h) = hc_server h" "\<And>j. hc_jwt h = Some j \<Longrightarrow> wp_server j = hc_server h"
  shows "state_ok lib srv (snd (HandleBetterFilesCollaboration lib api d file now h m st))"
  unfolding HandleBetterFilesCollaboration_def using assms by (cases m) (simp_all add: handler_oks)

lemma clear_members_ok:
  assumes "state_ok lib srv st" "sid < length (cs_heap st)"
  shows "state_ok lib srv (upd_session sid (\<lambda>s. s\<lparr>ss_members := []\<rparr>) st)"
  using state_ok_session [OF assms] by (intro upd_session_ok [OF assms]) (auto simp: session_ok_def)

lemma CloseSessions_ok:
  assumes "state_ok lib srv st"
  shows "state_ok lib srv (snd (snd (CloseSessions now sv mode reason st)))"
proof -
  have fold_ok: "state_ok lib srv (fold (\<lambda>(_, sid). upd_session sid (\<lambda>s. s\<lparr>ss_members := []\<rparr>)) xs st1)"
    if "state_ok lib srv st1" "\<forall>(c, sid) \<in> set xs. sid < length (cs_heap st1)" for xs :: "(string \<times> nat) list" and st1
    using that
  proof (induction xs arbitrary: st1)
    case (Cons x xs)
    obtain c sid where x: "x = (c, sid)" by fastforce
    with Cons.prems have "state_ok lib srv (upd_session sid (\<lambda>s. s\<lparr>ss_members := []\<rparr>) st1)" by (auto intro: clear_members_ok)
    with Cons.IH [OF this] Cons.prems(2) x show ?case by (auto simp: upd_session_def)
  qed simp
  have "\<forall>(c, sid) \<in> set (filter P (cs_codes st)). sid < length (cs_heap (st\<lparr>cs_codes := cs\<rparr>))" for P cs
    using assms by (auto simp: state_ok_def list_all_iff)
  moreover have "state_ok lib srv (st\<lparr>cs_codes := filter P (cs_codes st)\<rparr>)" for P
    using assms by (intro filter_codes_ok) (auto simp: state_ok_def distinct_map_filter)
  ultimately show ?thesis unfolding CloseSessions_def Let_def snd_conv by (intro fold_ok)
qed

section \<open>Where documents change\<close>

definition doc_at :: "'op collab_state \<Rightarrow> nat \<Rightarrow> string \<Rightarrow> 'op collab_document option" where
  "doc_at st sid path = (if sid < length (cs_heap st) then map_of (ss_docs (cs_heap st ! sid)) path else None)"

lemma doc_at_codes [simp]: "doc_at (st\<lparr>cs_codes := c\<rparr>) = doc_at st"
  by (intro ext) (simp add: doc_at_def)

lemma doc_at_upd_session: "(\<And>s. ss_docs (f s) = ss_docs s) \<Longrightarrow> doc_at (upd_session sid f st) = doc_at st"
  by (intro ext, rename_tac i p, case_tac "i = sid") (simp_all add: doc_at_def upd_session_def)

lemma doc_at_upd_member [simp]: "doc_at (upd_member sid hid f st) = doc_at st"
  by (simp add: upd_member_def doc_at_upd_session)

lemma length_upd_member [simp]: "length (cs_heap (upd_member sid hid f st)) = length (cs_heap st)"
  by (simp add: upd_member_def upd_session_def)

lemma doc_at_put_doc:
  "sid < length (cs_heap st) \<Longrightarrow> doc_at (put_doc sid path d st) sid' path' = (if sid' = sid \<and> path' = path then Some d else doc_at st sid' path')"
  by (cases "sid' = sid") (auto simp: doc_at_def put_doc_def upd_session_def AList.update_conv')

lemma doc_at_enter:
  "doc_at (snd (AcceptVersion sid hid m v st)) = doc_at st \<and> length (cs_heap (snd (AcceptVersion sid hid m v st))) = length (cs_heap st)"
  "doc_at (snd (move_member sid hid m path st)) = doc_at st \<and> length (cs_heap (snd (move_member sid hid m path st))) = length (cs_heap st)"
  by (simp_all add: AcceptVersion_def move_member_def SetMemberPath_def)

lemma doc_at_RemoveMember: "doc_at (snd (RemoveMember code hid st)) = doc_at st"
  by (simp add: RemoveMember_def Let_def doc_at_upd_session split: option.split)

lemma doc_at_LeaveAll: "doc_at (snd (LeaveAll h st)) = doc_at st"
proof -
  have "doc_at (snd (fold (leave_one hid) cs acc)) = doc_at (snd acc)" for hid cs and acc :: "sends \<times> 'a collab_state"
  proof (induction cs arbitrary: acc)
    case (Cons c cs)
    then show ?case using doc_at_RemoveMember [of c hid "snd acc"] by (simp add: leave_one_def case_prod_beta)
  qed simp
  then show ?thesis by (simp add: LeaveAll_def)
qed

lemma doc_at_create: "doc_at (snd (create_session info st)) = doc_at st"
  by (intro ext) (simp add: doc_at_def create_session_def new_session_def nth_append)

lemma doc_at_GetOrCreate: "doc_at (snd (GetOrCreateSession now info st)) = doc_at st"
  by (simp add: GetOrCreateSession_def Let_def doc_at_create doc_at_upd_session split: option.split)

lemma doc_at_join: "doc_at (snd (join_session now h info user st)) = doc_at st"
  by (simp add: join_session_def Let_def case_prod_beta doc_at_upd_session doc_at_GetOrCreate doc_at_LeaveAll)

lemma doc_at_collabJoin: "doc_at (snd (collabJoin api d now h args st)) = doc_at st"
  by (simp add: collabJoin_def doc_at_join split: option.split)

lemma doc_at_DocumentFor:
  assumes "DocumentFor file sid path st = Inr (doc, st')" "sid < length (cs_heap st)"
  shows "doc_at st' = doc_at st \<or> (doc_at st sid path = None \<and> (\<exists>sz bs. file path = FileBytes sz (Some bs) \<and> utf8_valid bs \<and>
    doc = newDocument (runes_bytes bs)) \<and> (\<forall>sid' path'. doc_at st' sid' path' = (if sid' = sid \<and> path' = path then Some doc else doc_at st sid' path')))"
  using DocumentFor_cases [OF assms(1)] assms(2) by (auto simp: doc_at_put_doc doc_at_def [of st])

lemma DocumentFor_frame:
  assumes "DocumentFor file sid path st = Inr (doc, st')" "sid < length (cs_heap st)"
  shows "sid < length (cs_heap st') \<and> (\<forall>sid' path'. (sid', path') \<noteq> (sid, path) \<longrightarrow> doc_at st' sid' path' = doc_at st sid' path')"
  using DocumentFor_cases [OF assms(1)] assms(2) by (auto simp: doc_at_put_doc) (simp_all add: put_doc_def upd_session_def)

lemma written_frame:
  assumes "sid < length (cs_heap st)" "(sid', path') \<noteq> (sid, path)"
  shows "doc_at (snd (patch_document lib file h p sid m path st)) sid' path' = doc_at st sid' path'"
    "doc_at (snd (snapshot_document file h q sid m path st)) sid' path' = doc_at st sid' path'"
    "doc_at (snd (saved_document file h q sid m path st)) sid' path' = doc_at st sid' path'"
proof -
  have "doc_at (snd (case AcceptVersion sid (hc_uuid h) m v st of (False, st) \<Rightarrow> ([], st) | (True, st) \<Rightarrow>
      (case move_member sid (hc_uuid h) m path st of (o1, st) \<Rightarrow>
        (case DocumentFor file sid path st of Inl e \<Rightarrow> (E o1 e, st) | Inr (document, st) \<Rightarrow> K o1 document st)))) sid' path' = doc_at st sid' path'"
    if k: "\<And>o1 doc st. sid < length (cs_heap st) \<Longrightarrow> doc_at (snd (K o1 doc st)) sid' path' = doc_at st sid' path'"
    for v E and K :: "sends \<Rightarrow> _ \<Rightarrow> _ \<Rightarrow> sends \<times> _"
  proof -
    obtain b st1 where a: "AcceptVersion sid (hc_uuid h) m v st = (b, st1)" by fastforce
    obtain o1 st2 where mv: "move_member sid (hc_uuid h) m path st1 = (o1, st2)" by fastforce
    have e: "doc_at st1 = doc_at st" "doc_at st2 = doc_at st" "length (cs_heap st2) = length (cs_heap st)"
      using doc_at_enter(1) [of sid "hc_uuid h" m v st] doc_at_enter(2) [of sid "hc_uuid h" m path st1] a mv by auto
    show ?thesis
      using a mv e k assms by (cases b) (auto split: sum.split dest!: DocumentFor_frame)
  qed
  note enter = this
  show "doc_at (snd (patch_document lib file h p sid m path st)) sid' path' = doc_at st sid' path'"
    unfolding patch_document_def Let_def using assms
    by (intro enter) (auto simp: doc_at_put_doc split: sum.split)
  show "doc_at (snd (snapshot_document file h q sid m path st)) sid' path' = doc_at st sid' path'"
    unfolding snapshot_document_def Let_def using assms by (intro enter) (auto simp: doc_at_put_doc)
  show "doc_at (snd (saved_document file h q sid m path st)) sid' path' = doc_at st sid' path'"
    unfolding saved_document_def Let_def using assms by (intro enter) (auto simp: doc_at_put_doc)
qed

text \<open>
  A change of a document in one step: by a member of the unexpired session, at a path the protocol
  accepts, either with the right to write in an edit session or by loading the file itself.
\<close>

definition doc_change_ok ::
  "denylist \<Rightarrow> (string \<Rightarrow> file_answer) \<Rightarrow> int \<Rightarrow> 'l ws_conn \<Rightarrow> 'op collab_state \<Rightarrow> 'op collab_state \<Rightarrow> nat \<Rightarrow> string \<Rightarrow> bool" where
  "doc_change_ok d file now h st st' sid path \<longleftrightarrow>
     (let s = cs_heap st ! sid
      in sid < length (cs_heap st) \<and> map_of (ss_members s) (hc_uuid h) \<noteq> None \<and> \<not> SessionExpired now s \<and> path_ok path \<and>
         ((ss_mode s = ''edit'' \<and> CanWrite d h) \<or>
          (doc_at st sid path = None \<and>
           (case file path of
              FileBytes _ (Some bs) \<Rightarrow> utf8_valid bs \<and> doc_at st' sid path = Some (newDocument (runes_bytes bs))
            | _ \<Rightarrow> False))))"

definition guarded_change ::
  "denylist \<Rightarrow> (string \<Rightarrow> file_answer) \<Rightarrow> int \<Rightarrow> 'l ws_conn \<Rightarrow> 'op collab_state \<Rightarrow> 'op collab_state \<Rightarrow> bool" where
  "guarded_change d file now h st st' \<longleftrightarrow>
     (\<forall>sid path. doc_at st' sid path \<noteq> doc_at st sid path \<longrightarrow> doc_change_ok d file now h st st' sid path)"

lemma guarded_same: "doc_at st' = doc_at st \<Longrightarrow> guarded_change d file now h st st'"
  by (simp add: guarded_change_def)

lemma guarded_refl [simp]: "guarded_change d file now h st st"
  by (simp add: guarded_same)

lemma guarded_heap: "cs_heap st' = cs_heap st \<Longrightarrow> guarded_change d file now h st st'"
  by (rule guarded_same) (simp add: doc_at_def fun_eq_iff)

lemma guarded_write:
  assumes "sid < length (cs_heap st)" "map_of (ss_members (cs_heap st ! sid)) (hc_uuid h) = Some m" "\<not> SessionExpired now (cs_heap st ! sid)"
    "path_ok path" "ss_mode (cs_heap st ! sid) = ''edit''" "CanWrite d h"
    "\<And>sid' path'. (sid', path') \<noteq> (sid, path) \<Longrightarrow> doc_at st' sid' path' = doc_at st sid' path'"
  shows "guarded_change d file now h st st'"
  unfolding guarded_change_def
proof (intro allI impI)
  fix sid' path'
  assume "doc_at st' sid' path' \<noteq> doc_at st sid' path'"
  with assms(7) have "sid' = sid \<and> path' = path" by blast
  with assms(1-6) show "doc_change_ok d file now h st st' sid' path'" by (simp add: doc_change_ok_def)
qed

lemma guarded_load:
  assumes "sid < length (cs_heap st)" "map_of (ss_members (cs_heap st ! sid)) (hc_uuid h) = Some m" "\<not> SessionExpired now (cs_heap st ! sid)"
    "path_ok path" "doc_at st1 = doc_at st" "sid < length (cs_heap st1)" "DocumentFor file sid path st1 = Inr (doc, st')"
  shows "guarded_change d file now h st st'"
  using doc_at_DocumentFor [OF assms(7,6)]
proof
  assume "doc_at st' = doc_at st1"
  with assms(5) show ?thesis by (simp add: guarded_same)
qed (use assms(1-5) in \<open>auto simp: guarded_change_def doc_change_ok_def\<close>)

lemma member_gated:
  assumes "state_ok lib srv st"
    "\<And>sid m. sid < length (cs_heap st) \<Longrightarrow> map_of (ss_members (cs_heap st ! sid)) (hc_uuid h) = Some m \<Longrightarrow>
       \<not> SessionExpired now (cs_heap st ! sid) \<Longrightarrow> guarded_change d file now h st (snd (k sid m st))"
  shows "guarded_change d file now h st
    (snd (case MemberFor now h code st of (None, st) \<Rightarrow> (x, st) | (Some (sid, m), st) \<Rightarrow> k sid m st))"
  by (rule member_gate [where P = "guarded_change d file now h st", OF assms(1)]) (auto intro: guarded_heap assms(2))

lemma collabSetFile_guarded:
  assumes "state_ok lib srv st"
  shows "guarded_change d file now h st (snd (collabSetFile file now h args True st))"
    "guarded_change d file now h st (snd (collabSetFile file now h args False st))"
proof -
  have ld: "guarded_change d file now h st (snd (case DocumentFor file sid path (upd_member sid hid f st) of
      Inl e \<Rightarrow> (E e, upd_member sid hid f st) | Inr (document, st) \<Rightarrow> (F document st, st)))"
    if "sid < length (cs_heap st)" "map_of (ss_members (cs_heap st ! sid)) (hc_uuid h) = Some m" "\<not> SessionExpired now (cs_heap st ! sid)"
      "path_ok path" for sid m path hid f E F
    using guarded_load [OF that, of "upd_member sid hid f st"] that(1) by (auto split: sum.split intro: guarded_same)
  show "guarded_change d file now h st (snd (collabSetFile file now h args True st))"
    unfolding collabSetFile_def Let_def if_True using assms
    by (auto split: option.split intro!: member_gated intro: ld dest!: CollabPath_ok)
  show "guarded_change d file now h st (snd (collabSetFile file now h args False st))"
    unfolding collabSetFile_def Let_def if_False using assms
    by (auto split: option.split intro!: member_gated intro: guarded_same)
qed

lemma written_guarded:
  assumes "state_ok lib srv st"
  shows "guarded_change d file now h st (snd (collabPatch lib d file now h args st))"
    "guarded_change d file now h st (snd (collabSnapshot d file now h args' st))"
    "guarded_change d file now h st (snd (collabFileSaved d file now h args' st))"
proof -
  note w = guarded_write [OF _ _ _ _ _ _ written_frame(1)] guarded_write [OF _ _ _ _ _ _ written_frame(2)]
    guarded_write [OF _ _ _ _ _ _ written_frame(3)]
  show "guarded_change d file now h st (snd (collabPatch lib d file now h args st))"
    unfolding collabPatch_def Let_def using assms
    by (auto split: option.split intro!: member_gated guarded_same [OF refl] dest!: CollabPath_ok intro: w(1))
  show "guarded_change d file now h st (snd (collabSnapshot d file now h args' st))"
    unfolding collabSnapshot_def Let_def using assms
    by (auto split: option.split intro!: member_gated guarded_same [OF refl] dest!: CollabPath_ok intro: w(2))
  show "guarded_change d file now h st (snd (collabFileSaved d file now h args' st))"
    unfolding collabFileSaved_def Let_def using assms
    by (auto split: option.split intro!: member_gated guarded_same [OF refl] dest!: CollabPath_ok intro: w(3))
qed

lemma doc_at_drop_expired: "doc_at (drop_expired now st) = doc_at st"
  by (simp add: drop_expired_def)

lemma others_guarded:
  assumes "state_ok lib srv st"
  shows "guarded_change d file now h st (snd (collabClose now h args1 st))"
    "guarded_change d file now h st (snd (collabPresence now h args2 st))"
    "doc_at (snd (collabFileCheck d now h args3 st)) = doc_at st"
    "doc_at (snd (collabExternalEdit d now h args4 st)) = doc_at st"
proof -
  show "guarded_change d file now h st (snd (collabClose now h args1 st))"
    unfolding collabClose_def Let_def using assms by (auto split: option.split intro!: member_gated intro: guarded_same)
  have mv: "guarded_change d file now h st (snd (case move_member sid hid m path st of (o1, st) \<Rightarrow> (F o1 st, st)))" for sid hid m path F
    using doc_at_enter(2) [of sid hid m path st] by (simp add: case_prod_beta guarded_same)
  show "guarded_change d file now h st (snd (collabPresence now h args2 st))"
    unfolding collabPresence_def Let_def using assms by (auto split: option.split intro!: member_gated intro: mv)
qed (simp_all add: collabFileCheck_def collabExternalEdit_def ConflictsForPath_def Let_def case_prod_beta SessionsForServer_state
       doc_at_drop_expired split: option.split)

lemma HandleBetterFilesCollaboration_guarded:
  assumes "state_ok lib srv st"
  shows "guarded_change d file now h st (snd (HandleBetterFilesCollaboration lib api d file now h m st))"
  unfolding HandleBetterFilesCollaboration_def
  by (cases m) (simp_all add: collabSetFile_guarded [OF assms] written_guarded [OF assms] others_guarded(1,2) [OF assms] guarded_same
      others_guarded(3,4) [OF assms] doc_at_LeaveAll doc_at_collabJoin)

section \<open>Where messages go\<close>

definition sends_within :: "(string \<Rightarrow> string) \<Rightarrow> string \<Rightarrow> sends \<Rightarrow> bool" where
  "sends_within srv sv out \<longleftrightarrow> list_all (\<lambda>(conn, _). srv conn = sv) out"

lemma sends_within_simps [simp]:
  "sends_within srv sv []" "sends_within srv sv (xs @ ys) \<longleftrightarrow> sends_within srv sv xs \<and> sends_within srv sv ys"
  "sends_within srv sv (collabError h e) \<longleftrightarrow> srv (hc_uuid h) = sv"
  "sends_within srv sv (not_joined h) \<longleftrightarrow> srv (hc_uuid h) = sv" "sends_within srv sv (bad_path h) \<longleftrightarrow> srv (hc_uuid h) = sv"
  "sends_within srv sv (SendDocument h s doc path) \<longleftrightarrow> srv (hc_uuid h) = sv"
  "sends_within srv sv ((c, ev) # xs) \<longleftrightarrow> srv c = sv \<and> sends_within srv sv xs"
  by (simp_all add: sends_within_def collabError_def not_joined_def bad_path_def SendDocument_def)

lemma broadcast_within:
  assumes "session_ok lib srv s" "ss_server s = sv"
  shows "sends_within srv sv (CollabBroadcast s ex ev)" "sends_within srv sv (BroadcastMembers s)" "sends_within srv sv (BroadcastFileUsers s)"
proof -
  have "sends_within srv sv (CollabBroadcast s ex ev)" for ex ev
    using assms by (fastforce simp: sends_within_def CollabBroadcast_def session_ok_def list_all_iff member_ok_def)
  then show "sends_within srv sv (CollabBroadcast s ex ev)" "sends_within srv sv (BroadcastMembers s)" "sends_within srv sv (BroadcastFileUsers s)"
    by (simp_all add: BroadcastMembers_def BroadcastFileUsers_def)
qed

lemma member_server:
  assumes "state_ok lib srv st" "sid < length (cs_heap st)" "map_of (ss_members (cs_heap st ! sid)) hid = Some m"
  shows "ss_server (cs_heap st ! sid) = srv hid"
proof -
  have "member_ok srv (ss_server (cs_heap st ! sid)) (hid, m)"
    using session_okD(3) [OF state_ok_session [OF assms(1,2)]] map_of_SomeD [OF assms(3)] unfolding list_all_iff by blast
  then show ?thesis by (simp add: member_ok_def)
qed

lemma nth_update_if: "xs[i := v] ! j = (if j = i \<and> i < length xs then v else xs ! j)"
  by (cases "i < length xs") (auto simp: nth_list_update list_update_beyond)

lemma server_kept [simp]:
  "ss_server (cs_heap (upd_member sid hid f st) ! i) = ss_server (cs_heap st ! i)"
  "ss_server (cs_heap (put_doc sid path doc st) ! i) = ss_server (cs_heap st ! i)"
  by (simp_all add: upd_member_def put_doc_def upd_session_def nth_update_if)

lemma RemoveMember_within:
  assumes "state_ok lib srv st"
  shows "sends_within srv (srv hid) (fst (RemoveMember code hid st))"
proof -
  obtain out st' where r: "RemoveMember code hid st = (out, st')" by fastforce
  note ok = RemoveMember_ok [OF assms r]
  show ?thesis
  proof (cases "map_of (cs_codes st) (CollabCode code)")
    case (Some sid)
    note i = conjunct1 [OF state_ok_lookup [OF assms Some]]
    show ?thesis
    proof (cases "out = []")
      case False
      with r Some obtain m where m: "map_of (ss_members (cs_heap st ! sid)) hid = Some m"
        and st': "st' = upd_session sid (\<lambda>s. s\<lparr>ss_members := AList.delete hid (ss_members s)\<rparr>) st"
        and ou: "out = BroadcastMembers (cs_heap st' ! sid) @ BroadcastFileUsers (cs_heap st' ! sid)"
        by (auto simp: RemoveMember_def Let_def split: if_splits)
      have "sid < length (cs_heap st')" "ss_server (cs_heap st' ! sid) = srv hid"
        using i st' member_server [OF assms i m] by (auto simp: upd_session_def)
      with broadcast_within(2,3) [OF state_ok_session [OF ok]] r ou show ?thesis by simp
    qed (use r in simp)
  qed (simp add: RemoveMember_def)
qed

lemma LeaveAll_within:
  assumes "state_ok lib srv st"
  shows "sends_within srv (srv (hc_uuid h)) (fst (LeaveAll h st))"
proof -
  have "sends_within srv (srv hid) (fst (fold (leave_one hid) cs acc))"
    if "state_ok lib srv (snd acc)" "sends_within srv (srv hid) (fst acc)" for hid cs and acc :: "sends \<times> 'a collab_state"
    using that
  proof (induction cs arbitrary: acc)
    case (Cons c cs)
    have "leave_one hid c acc = (fst acc @ fst (RemoveMember c hid (snd acc)), snd (RemoveMember c hid (snd acc)))"
      by (simp add: leave_one_def case_prod_beta)
    with Cons.IH [of "leave_one hid c acc"] Cons.prems RemoveMember_ok [OF Cons.prems(1) surjective_pairing]
      RemoveMember_within [OF Cons.prems(1)] show ?case by simp
  qed simp
  with assms show ?thesis by (simp add: LeaveAll_def)
qed

lemma member_gate_within:
  assumes "state_ok lib srv st" "srv (hc_uuid h) = sv"
    "\<And>sid m. sid < length (cs_heap st) \<Longrightarrow> ss_server (cs_heap st ! sid) = sv \<Longrightarrow> sends_within srv sv (fst (k sid m st))"
  shows "sends_within srv sv (fst (case MemberFor now h code st of (None, st) \<Rightarrow> (not_joined h, st) | (Some (sid, m), st) \<Rightarrow> k sid m st))"
proof -
  obtain r st' where r: "MemberFor now h code st = (r, st')" by fastforce
  show ?thesis
  proof (cases r)
    case (Some sm)
    then obtain sid m where "r = Some (sid, m)" by (cases sm) auto
    with r have mf: "MemberFor now h code st = (Some (sid, m), st')" by simp
    from MemberFor_SomeD [OF assms(1) mf] assms(2) assms(3) [of sid m] member_server [OF assms(1), of sid "hc_uuid h" m] mf show ?thesis by simp
  qed (use r assms(2) in simp)
qed

lemma move_within:
  assumes "state_ok lib srv st" "sid < length (cs_heap st)" "path_ok path" "ss_server (cs_heap st ! sid) = sv"
  shows "sends_within srv sv (fst (move_member sid hid m path st))" "ss_server (cs_heap (snd (move_member sid hid m path st)) ! sid) = sv"
proof -
  have "state_ok lib srv (snd (move_member sid hid m path st))" by (rule move_member_ok [OF assms(1-3) surjective_pairing])
  then show "sends_within srv sv (fst (move_member sid hid m path st))"
    using assms(2,4) by (auto simp: move_member_def SetMemberPath_def intro!: broadcast_within(3) [OF state_ok_session])
  show "ss_server (cs_heap (snd (move_member sid hid m path st)) ! sid) = sv" using assms(4) by (simp add: move_member_def SetMemberPath_def)
qed

lemma entered_within:
  assumes st: "state_ok lib srv st" "sid < length (cs_heap st)" "path_ok path" "ss_server (cs_heap st ! sid) = sv" "srv (hc_uuid h) = sv"
  shows "sends_within srv sv (fst (patch_document lib file h p sid m path st))"
    "sends_within srv sv (fst (snapshot_document file h q sid m path st))"
    "sends_within srv sv (fst (saved_document file h q sid m path st))"
proof -
  have enter: "sends_within srv sv (fst (case AcceptVersion sid (hc_uuid h) m v st of (False, st) \<Rightarrow> ([], st) | (True, st) \<Rightarrow>
      (case move_member sid (hc_uuid h) m path st of (o1, st) \<Rightarrow>
        (case DocumentFor file sid path st of Inl e \<Rightarrow> (o1 @ collabError h e, st) | Inr (document, st) \<Rightarrow> K o1 document st))))"
    if k: "\<And>o1 doc st. sends_within srv sv o1 \<Longrightarrow> session_ok lib srv (cs_heap st ! sid) \<Longrightarrow> ss_server (cs_heap st ! sid) = sv \<Longrightarrow>
      sends_within srv sv (fst (K o1 doc st))"
    for v and K :: "sends \<Rightarrow> _ \<Rightarrow> _ \<Rightarrow> sends \<times> _"
  proof -
    obtain b st1 where a: "AcceptVersion sid (hc_uuid h) m v st = (b, st1)" by fastforce
    obtain o1 st2 where mv: "move_member sid (hc_uuid h) m path st1 = (o1, st2)" by fastforce
    note ok = enter_document [OF st(1-3) a mv]
    have s1: "sid < length (cs_heap st1)" "ss_server (cs_heap st1 ! sid) = sv"
      using a st(2,4) by (auto simp: AcceptVersion_def split: if_splits)
    have s2: "sends_within srv sv o1" "ss_server (cs_heap st2 ! sid) = sv"
      using move_within [OF ok(1) s1(1) st(3) s1(2), of "hc_uuid h" m] mv by simp_all
    show ?thesis
    proof (cases "DocumentFor file sid path st2")
      case (Inr r)
      then obtain doc st3 where d: "DocumentFor file sid path st2 = Inr (doc, st3)" by (cases r) auto
      have "ss_server (cs_heap st3 ! sid) = sv" using DocumentFor_cases [OF d] s2 by auto
      with a mv d k [OF s2(1) found_document(1) [OF ok(2,3) st(3) d]] show ?thesis by (cases b) auto
    qed (use a mv s2 st(5) in \<open>cases b; simp\<close>)
  qed
  show "sends_within srv sv (fst (patch_document lib file h p sid m path st))"
    unfolding patch_document_def Let_def by (intro enter) (use st(5) in \<open>auto split: sum.split intro!: broadcast_within\<close>)
  show "sends_within srv sv (fst (snapshot_document file h q sid m path st))"
    unfolding snapshot_document_def Let_def by (intro enter) (use st(5) in \<open>auto intro!: broadcast_within\<close>)
  show "sends_within srv sv (fst (saved_document file h q sid m path st))"
    unfolding saved_document_def Let_def by (intro enter) (use st(5) in \<open>auto intro!: broadcast_within\<close>)
qed

lemma written_within:
  assumes "state_ok lib srv st" "srv (hc_uuid h) = sv"
  shows "sends_within srv sv (fst (collabPatch lib d file now h args st))"
    "sends_within srv sv (fst (collabSnapshot d file now h args' st))"
    "sends_within srv sv (fst (collabFileSaved d file now h args' st))"
  unfolding collabPatch_def collabSnapshot_def collabFileSaved_def Let_def using assms
  by (auto split: option.split intro!: member_gate_within entered_within dest!: CollabPath_ok)

lemma collabClose_within:
  assumes "state_ok lib srv st" "srv (hc_uuid h) = sv"
  shows "sends_within srv sv (fst (collabClose now h args st))"
  unfolding collabClose_def Let_def using assms
  by (auto split: option.split intro!: member_gate_within broadcast_within [OF state_ok_session])

lemma collabPresence_within:
  assumes "state_ok lib srv st" "srv (hc_uuid h) = sv"
  shows "sends_within srv sv (fst (collabPresence now h args st))"
proof -
  have mv: "sends_within srv sv1 (fst (case move_member sid hid m path st of (o1, st) \<Rightarrow> (o1 @ CollabBroadcast (cs_heap st ! sid) ex ev, st)))"
    if s: "sid < length (cs_heap st)" "ss_server (cs_heap st ! sid) = sv1" "path_ok path" for sid hid m path ex ev sv1
    using move_within [OF assms(1) s(1,3,2), of hid m] move_member_ok [OF assms(1) s(1,3) surjective_pairing, of hid m] s(1)
      doc_at_enter(2) [of sid hid m path st]
    by (auto simp: case_prod_beta intro!: broadcast_within [OF state_ok_session])
  show ?thesis
    unfolding collabPresence_def Let_def using assms
    by (auto split: option.split intro!: member_gate_within mv dest!: CollabPath_ok)
qed

lemma collabSetFile_within:
  assumes "state_ok lib srv st" "srv (hc_uuid h) = sv"
  shows "sends_within srv sv (fst (collabSetFile file now h args b st))"
proof -
  have bc: "sends_within srv sv1 (BroadcastFileUsers (cs_heap (upd_member sid hid
      (\<lambda>m. if b then m\<lparr>mb_path := path\<rparr> else if mb_path m = path then m\<lparr>mb_path := ''''\<rparr> else m) st) ! sid))"
    if "sid < length (cs_heap st)" "ss_server (cs_heap st ! sid) = sv1" "path_ok path" for sid hid path sv1
  proof -
    have "state_ok lib srv (upd_member sid hid
      (\<lambda>m. if b then m\<lparr>mb_path := path\<rparr> else if mb_path m = path then m\<lparr>mb_path := ''''\<rparr> else m) st)"
      by (rule upd_member_ok [OF assms(1) that(1)]) (use that(3) in auto)
    with that show ?thesis by (auto intro!: broadcast_within [OF state_ok_session])
  qed
  have k: "sends_within srv sv1 (fst (if b then (case D of Inl e \<Rightarrow> (out @ collabError h e, st1)
      | Inr (document, st) \<Rightarrow> (out @ SendDocument h (cs_heap st ! sid) document path, st)) else (out, st1)))"
    if "sends_within srv sv1 out" "srv (hc_uuid h) = sv1" for D :: "string + 'a collab_document \<times> 'a collab_state" and out st1 sid path sv1
    using that by (cases D) auto
  show ?thesis
  proof (cases "CollabDecode args")
    case (Some p)
    show ?thesis
      unfolding collabSetFile_def Let_def Some option.case
    proof (rule member_gate_within [OF assms], goal_cases)
      case (1 sid m)
      with assms(2) show ?case by (cases "CollabPath (fm_path p)") (simp, simp only: option.case, intro k bc CollabPath_ok, simp_all)
    qed
  qed (use assms in \<open>simp add: collabSetFile_def\<close>)
qed

lemma SessionsForServer_within:
  assumes "state_ok lib srv st" "s \<in> set (fst (SessionsForServer now sv st))"
  shows "session_ok lib srv s \<and> ss_server s = sv"
  using assms by (auto simp: SessionsForServer_def state_ok_def list_all_iff)

lemma others_within:
  assumes st: "state_ok lib srv st" and h: "srv (hc_uuid h) = sv" and j: "\<And>j. hc_jwt h = Some j \<Longrightarrow> wp_server j = sv"
  shows "sends_within srv sv (fst (collabFileCheck d now h args st))"
    "sends_within srv sv (fst (collabExternalEdit d now h args' st))"
proof -
  show "sends_within srv sv (fst (collabFileCheck d now h args st))"
    using h by (auto simp: collabFileCheck_def Let_def case_prod_beta split: option.split)
  have con: "sends_within srv sv (concat (map F xs))" if "\<And>x. x \<in> set xs \<Longrightarrow> sends_within srv sv (F x)" for F and xs :: "'a collab_session list"
    using that by (induction xs) auto
  have "sends_within srv sv (concat (map (\<lambda>s. CollabBroadcast s '''' (E s)) (filter P (fst (SessionsForServer now sv st)))))" for E P
    by (rule con) (auto dest!: SessionsForServer_within [OF st] intro: broadcast_within)
  with h j show "sends_within srv sv (fst (collabExternalEdit d now h args' st))"
    by (auto simp: collabExternalEdit_def Let_def case_prod_beta split: option.split)
qed

lemma join_within:
  assumes st: "state_ok lib srv st" and info: "CollabCode (si_code info) \<noteq> ''''" "si_server info = sv" and h: "srv (hc_uuid h) = sv"
  shows "sends_within srv sv (fst (join_session now h info user st))"
proof -
  obtain o1 st1 where l: "LeaveAll h st = (o1, st1)" by fastforce
  obtain sid st2 where g: "GetOrCreateSession now info st1 = (sid, st2)" by fastforce
  note ok = GetOrCreateSession_ok [OF LeaveAll_ok [OF st l] info(1) g]
  let ?s = "cs_heap st2 ! sid"
  let ?m = "\<lparr>mb_handler = hc_uuid h, mb_user = user, mb_path = '''', mb_joined = now, mb_version = 0\<rparr>"
  let ?s' = "?s\<lparr>ss_members := AList.update (hc_uuid h) ?m (ss_members ?s)\<rparr>"
  have o1: "sends_within srv sv o1" using LeaveAll_within [OF st, of h] l h by simp
  note sok = state_ok_session [OF conjunct1 [OF ok] conjunct2 [OF ok]]
  have "session_ok lib srv ?s'" if "ss_server ?s = sv" "int (length (ss_members ?s)) < ss_max_users ?s"
    using session_okD [OF sok] that h
    by (intro session_ok_members [OF sok]) (auto simp: AList.distinct_update length_alist_update member_ok_def intro!: list_all_alist)
  then have "sends_within srv sv (BroadcastMembers ?s')" "sends_within srv sv (BroadcastFileUsers ?s')"
    if "ss_server ?s = sv" "int (length (ss_members ?s)) < ss_max_users ?s" using that by (auto intro!: broadcast_within)
  with l g o1 ok info(2) h show ?thesis by (auto simp: join_session_def Let_def upd_session_def)
qed

lemma HandleBetterFilesCollaboration_within:
  assumes "state_ok lib srv st" "srv (hc_uuid h) = hc_server h" "\<And>j. hc_jwt h = Some j \<Longrightarrow> wp_server j = hc_server h"
  shows "sends_within srv (hc_server h) (fst (HandleBetterFilesCollaboration lib api d file now h m st))"
proof -
  have "sends_within srv (hc_server h) (fst (collabJoin api d now h args st))" for args
    unfolding collabJoin_def using assms by (auto split: option.split intro!: join_within)
  then show ?thesis
    unfolding HandleBetterFilesCollaboration_def
    using written_within [OF assms(1,2)] collabClose_within [OF assms(1,2)] collabPresence_within [OF assms(1,2)]
      collabSetFile_within [OF assms(1,2)] others_within [OF assms] LeaveAll_within [OF assms(1), of h] assms(2)
    by (cases m) simp_all
qed

section \<open>The system\<close>

text \<open>
  What reaches the registry: a message of a connection, with the deny list, the files and the clock
  of that moment; a connection that goes away, which is then removed from the session it had joined
  (the goroutine of \<^verbatim>\<open>betterFilesCollabJoin\<close>); an administrator who closes a server's sessions.
  \<open>conn_ok\<close> is what the websocket keeps of a connection: it belongs to one server, and
  \<^verbatim>\<open>setJwt\<close> stores a token of that server only (\<open>HandleInbound\<close> of \<open>Ws_Handler\<close>).
\<close>

datatype 'l collab_event =
    CEMessage denylist "string \<Rightarrow> file_answer" int "'l ws_conn" collab_message
  | CEGone string string
  | CEClose int string string string

definition collab_event_step ::
  "'op ot_lib \<Rightarrow> collab_token jwt_api \<Rightarrow> 'op collab_state \<Rightarrow> 'l collab_event \<Rightarrow> 'op collab_state" where
  "collab_event_step lib api st e =
     (case e of
        CEMessage d file now h m \<Rightarrow> snd (HandleBetterFilesCollaboration lib api d file now h m st)
      | CEGone code handlerID \<Rightarrow> snd (RemoveMember code handlerID st)
      | CEClose now sv mode reason \<Rightarrow> snd (snd (CloseSessions now sv mode reason st)))"

definition conn_ok :: "(string \<Rightarrow> string) \<Rightarrow> 'l ws_conn \<Rightarrow> bool" where
  "conn_ok srv h \<longleftrightarrow> srv (hc_uuid h) = hc_server h \<and> (case hc_jwt h of None \<Rightarrow> True | Some j \<Rightarrow> wp_server j = hc_server h)"

definition collab_event_ok :: "(string \<Rightarrow> string) \<Rightarrow> 'l collab_event \<Rightarrow> bool" where
  "collab_event_ok srv e = (case e of CEMessage _ _ _ h _ \<Rightarrow> conn_ok srv h | _ \<Rightarrow> True)"

lemma collab_event_step_ok:
  assumes "state_ok lib srv st" "collab_event_ok srv e"
  shows "state_ok lib srv (collab_event_step lib api st e)"
  using assms
  by (cases e) (auto simp: collab_event_step_def collab_event_ok_def conn_ok_def CloseSessions_ok
      RemoveMember_ok [OF _ surjective_pairing] intro!: HandleBetterFilesCollaboration_ok [OF assms(1)])

interpretation cse: step_system "collab_event_step lib api" "\<lambda>_ e. collab_event_ok srv e" "state_ok lib srv"
  by unfold_locales (rule collab_event_step_ok)

definition no_sessions :: "'op collab_state" where
  "no_sessions = \<lparr>cs_heap = [], cs_codes = []\<rparr>"

lemma no_sessions_ok: "state_ok lib srv no_sessions"
  by (simp add: state_ok_def no_sessions_def)

lemma allowed_run_all: "allowed_run step (\<lambda>_ e. P e) s es \<longleftrightarrow> list_all P es"
  by (induction es arbitrary: s) auto

text \<open>
  C10. The registry of collaboration sessions is well formed after every sequence of messages, lost
  connections and administrative closures: each session has a code of the accepted shape, a mode of
  the two, at most its own number of members (at most 20), each under its connection's id, of the
  session's server and at an accepted path, at most 32 documents, each at an accepted path, no
  larger than the session allows, with a history that can serve its bases; a registered code is its
  session's.
\<close>

theorem collab_registry_well_formed:
  assumes "list_all (collab_event_ok srv) es"
  shows "state_ok lib srv (foldl (collab_event_step lib api) no_sessions es)"
  using cse.run_keeps [OF no_sessions_ok] assms by (simp add: allowed_run_all)

text \<open>A run: user \<open>u\<close> joins an edit session of server \<open>s\<close> at time 100 s and then opens \<^verbatim>\<open>/a\<close>.\<close>

definition sample_collab_jwt :: "collab_token jwt_api" where
  "sample_collab_jwt =
     \<lparr>jv_verify = (\<lambda>tok ok.
        let p = \<lparr>ct_payload = \<lparr>jp_issued = Some 10, jp_expires = Some 1000, jp_id = ''c''\<rparr>, ct_server = ''s'', ct_user = ''u'',
                 ct_enabled = True, ct_code = ''abcd1234'', ct_owner = ''u'', ct_mode = ''edit'', ct_max_users = 3, ct_max_bytes = 50,
                 ct_expires = 900\<rparr>
        in if ok p then Inr p else Inl VerifyExp),
      jv_exp_valid = (\<lambda>now e. case e of Some x \<Rightarrow> now \<le> x * 1000000000 | None \<Rightarrow> False)\<rparr>"

definition sample_conn :: "unit ws_conn" where
  "sample_conn = (NewConn ''h'' ''s'')\<lparr>hc_jwt := Some (sample_token 50)\<rparr>"

definition sample_deny :: denylist where
  "sample_deny = \<lparr>dn_boot = 0, dn_jti = Map.empty, dn_user = Map.empty\<rparr>"

definition sample_files :: "string \<Rightarrow> file_answer" where
  "sample_files p = (if p = ''/a'' then FileBytes 2 (Some [104, 105]) else FileError)"

definition sample_join :: collab_message where
  "sample_join = MJoin [(10, Some \<lparr>
     jn_session = \<lparr>si_code = ''ABCD-1234'', si_server = '''', si_owner = '''', si_mode = '''', si_max_users = 0, si_max_bytes = 0,
                   si_token = ''t'', si_expires = 0\<rparr>,
     jn_user = \<lparr>cu_uuid = '''', cu_name = ''Ann'', cu_image = '''', cu_conn = ''''\<rparr>\<rparr>)]"

definition sample_open :: collab_message where
  "sample_open = MFileOpen [(10, Some \<lparr>fm_code = ''ABCD-1234'', fm_path = ''a''\<rparr>)]"

definition sample_joined :: "comp list collab_state" where
  "sample_joined = foldl (collab_event_step comp_lib sample_collab_jwt) no_sessions
     [CEMessage sample_deny sample_files 100000000000 sample_conn sample_join]"

definition sample_opened :: "sends \<times> comp list collab_state" where
  "sample_opened = HandleBetterFilesCollaboration comp_lib sample_collab_jwt sample_deny sample_files 101000000000 sample_conn sample_open sample_joined"

lemma sample_joined_members: "map (map fst \<circ> ss_members) (cs_heap sample_joined) = [[''h'']]"
  by code_simp

lemma sample_opened_document: "doc_at sample_joined 0 ''/a'' = None \<and> doc_at (snd sample_opened) 0 ''/a'' = Some (newDocument [104, 105])"
  by code_simp

lemma sample_run_ok:
  "list_all (collab_event_ok (\<lambda>_. ''s'')) [CEMessage sample_deny sample_files 100000000000 sample_conn sample_join]"
  by (simp add: collab_event_ok_def conn_ok_def sample_conn_def NewConn_def sample_token_def)

theorem collab_registry_well_formed_witness:
  "state_ok comp_lib (\<lambda>_. ''s'') sample_joined \<and> map (map fst \<circ> ss_members) (cs_heap sample_joined) = [[''h'']]"
  using collab_registry_well_formed [OF sample_run_ok, of comp_lib sample_collab_jwt] sample_joined_members
  by (simp add: sample_joined_def)

text \<open>
  C9. After any run, a message changes the document of a session at a path only if its connection
  is a member of that session, the session has not expired and belongs to the connection's server,
  and the path is one the protocol accepts (below the root, without dot segments, not a sensitive
  file). Either the session is for editing and the connection's token grants \<^verbatim>\<open>file.update\<close>, or the
  session had no document there and the new one is the file's content at revision 0.
\<close>

theorem collab_documents_guarded:
  assumes "list_all (collab_event_ok srv) es" and "st = foldl (collab_event_step lib api) no_sessions es" and "conn_ok srv h"
    and "st' = snd (HandleBetterFilesCollaboration lib api d file now h m st)" and "doc_at st' sid path \<noteq> doc_at st sid path"
  shows "doc_change_ok d file now h st st' sid path \<and> ss_server (cs_heap st ! sid) = hc_server h"
proof -
  have ok: "state_ok lib srv st" using cse.run_keeps [OF no_sessions_ok] assms(1,2) by (simp add: allowed_run_all)
  have ch: "doc_change_ok d file now h st st' sid path"
    using HandleBetterFilesCollaboration_guarded [OF ok, of d "file" now h api m] assms(4,5) by (simp add: guarded_change_def)
  moreover from ch obtain mb where "sid < length (cs_heap st)" "map_of (ss_members (cs_heap st ! sid)) (hc_uuid h) = Some mb"
    by (auto simp: doc_change_ok_def Let_def)
  with member_server [OF ok] assms(3) have "ss_server (cs_heap st ! sid) = hc_server h" by (simp add: conn_ok_def)
  ultimately show ?thesis ..
qed

theorem collab_documents_guarded_witness:
  "doc_at (snd sample_opened) 0 ''/a'' \<noteq> doc_at sample_joined 0 ''/a'' \<and>
   doc_change_ok sample_deny sample_files 101000000000 sample_conn sample_joined (snd sample_opened) 0 ''/a'' \<and>
   ss_server (cs_heap sample_joined ! 0) = ''s''"
  using collab_documents_guarded [OF sample_run_ok sample_joined_def, of sample_conn "snd sample_opened" sample_deny sample_files
      101000000000 sample_open 0 "''/a''"] sample_opened_document
  by (simp add: sample_opened_def [symmetric] conn_ok_def) (simp add: sample_conn_def NewConn_def sample_token_def)

text \<open>
  C11. After any run, everything a message makes the daemon send, to the caller, to the members of
  the sessions the caller leaves, joins or works in, and to the editors of a file it changes from
  outside, goes to connections of the caller's server.
\<close>

theorem collab_stays_on_server:
  assumes "list_all (collab_event_ok srv) es" and "st = foldl (collab_event_step lib api) no_sessions es" and "conn_ok srv h"
    and "(conn, out) \<in> set (fst (HandleBetterFilesCollaboration lib api d file now h m st))"
  shows "srv conn = hc_server h"
proof -
  have ok: "state_ok lib srv st" using cse.run_keeps [OF no_sessions_ok] assms(1,2) by (simp add: allowed_run_all)
  have "sends_within srv (hc_server h) (fst (HandleBetterFilesCollaboration lib api d file now h m st))"
    by (rule HandleBetterFilesCollaboration_within [OF ok]) (use assms(3) in \<open>simp_all add: conn_ok_def\<close>)
  with assms(4) show ?thesis by (auto simp: sends_within_def list_all_iff)
qed

lemma sample_opened_sends: "(''h'', ODocument ''ABCD-1234'' ''/a'' [104, 105] 1 0) \<in> set (fst sample_opened)"
  by code_simp

definition sample_srv :: "string \<Rightarrow> string" where
  "sample_srv c = (if c = ''h'' then ''s'' else ''other'')"

lemma sample_run_srv_ok:
  "list_all (collab_event_ok sample_srv) [CEMessage sample_deny sample_files 100000000000 sample_conn sample_join]"
  by (simp add: collab_event_ok_def conn_ok_def sample_conn_def NewConn_def sample_token_def sample_srv_def)

theorem collab_stays_on_server_witness:
  "(''h'', ODocument ''ABCD-1234'' ''/a'' [104, 105] 1 0) \<in> set (fst sample_opened) \<and> sample_srv ''h'' = hc_server sample_conn"
  using collab_stays_on_server [OF sample_run_srv_ok sample_joined_def, of sample_conn "''h''" _ sample_deny sample_files
      101000000000 sample_open] sample_opened_sends
  by (simp add: sample_opened_def [symmetric] conn_ok_def) (simp add: sample_conn_def NewConn_def sample_token_def sample_srv_def)

end
