(* ===== verification/Ws_Events.thy ===== *)
theory Ws_Events
  imports Ws_Handler Power_Lock
begin

text \<open>
  How the output of a server reaches the sockets: the rate limit of the console
  (\<^verbatim>\<open>system/rate.go\<close>, \<^verbatim>\<open>ConsoleThrottle\<close> of \<^verbatim>\<open>server/console.go\<close>), the pools of channels
  (\<^verbatim>\<open>system/sink_pool.go\<close>), the event bus on top of one (\<^verbatim>\<open>events/events.go\<close>) and the listeners
  of a socket (\<^verbatim>\<open>router/websocket/listeners.go\<close>).
\<close>

section \<open>The rate limit of the console\<close>

text \<open>\<^verbatim>\<open>count\<close> and \<^verbatim>\<open>limit\<close> are unsigned 64-bit integers: the increment wraps around.\<close>

record rate_limit =
  rt_limit :: int
  rt_duration :: int
  rt_count :: int
  rt_last :: int

definition NewRate :: "int \<Rightarrow> int \<Rightarrow> int \<Rightarrow> rate_limit" where
  "NewRate now limit duration = \<lparr>rt_limit = limit, rt_duration = duration, rt_count = 0, rt_last = now\<rparr>"

definition rate_Try :: "int \<Rightarrow> rate_limit \<Rightarrow> bool \<times> rate_limit" where
  "rate_Try now r =
     (let r = (if now - rt_last r > rt_duration r then r\<lparr>rt_count := 0, rt_last := now\<rparr> else r)
      in if (rt_count r + 1) mod 2 ^ 64 > rt_limit r then (False, r)
         else (True, r\<lparr>rt_count := (rt_count r + 1) mod 2 ^ 64\<rparr>))"

definition rate_Reset :: "int \<Rightarrow> rate_limit \<Rightarrow> rate_limit" where
  "rate_Reset now r = r\<lparr>rt_count := 0, rt_last := now\<rparr>"

text \<open>The period of \<^verbatim>\<open>Throttler\<close>: milliseconds to nanoseconds, capped below the largest duration.\<close>

definition throttle_period :: "int \<Rightarrow> int" where
  "throttle_period periodMillis = min periodMillis (max_i64 div 1000000) * 1000000"

record throttle =
  th_limit :: rate_limit
  th_lock :: locker

definition newConsoleThrottle :: "int \<Rightarrow> int \<Rightarrow> int \<Rightarrow> throttle" where
  "newConsoleThrottle now lines period = \<lparr>th_limit = NewRate now lines period, th_lock = NewLocker\<rparr>"

text \<open>Whether the line is let through, and whether the strike function runs.\<close>

definition throttle_Allow :: "int \<Rightarrow> throttle \<Rightarrow> bool \<times> bool \<times> throttle" where
  "throttle_Allow now ct =
     (case rate_Try now (th_limit ct) of
        (False, r) \<Rightarrow>
          (case Acquire (th_lock ct) of
             (None, l) \<Rightarrow> (False, True, ct\<lparr>th_limit := r, th_lock := l\<rparr>)
           | (Some _, l) \<Rightarrow> (False, False, ct\<lparr>th_limit := r, th_lock := l\<rparr>))
      | (True, r) \<Rightarrow> (True, False, ct\<lparr>th_limit := r, th_lock := Release (th_lock ct)\<rparr>))"

definition throttle_Reset :: "int \<Rightarrow> throttle \<Rightarrow> throttle" where
  "throttle_Reset now ct = ct\<lparr>th_limit := rate_Reset now (th_limit ct)\<rparr>"

section \<open>Sink pools\<close>

text \<open>A channel: its capacity, what it holds, what its reader has taken so far, and whether it is closed.\<close>

record 'm chan =
  ch_cap :: nat
  ch_buf :: "'m list"
  ch_got :: "'m list"
  ch_closed :: bool

record 'm sink_pool =
  sp_sinks :: "nat list"
  sp_chans :: "nat \<Rightarrow> 'm chan"

definition pool_On :: "nat \<Rightarrow> 'm sink_pool \<Rightarrow> 'm sink_pool" where
  "pool_On c p = p\<lparr>sp_sinks := sp_sinks p @ [c]\<rparr>"

definition close_chan :: "'m chan \<Rightarrow> 'm chan" where
  "close_chan c = c\<lparr>ch_closed := True\<rparr>"

definition pool_Off :: "nat \<Rightarrow> 'm sink_pool \<Rightarrow> 'm sink_pool" where
  "pool_Off c p =
     (if c \<in> set (sp_sinks p)
      then p\<lparr>sp_sinks := remove1 c (sp_sinks p), sp_chans := (sp_chans p)(c := close_chan (sp_chans p c))\<rparr>
      else p)"

definition pool_Destroy :: "'m sink_pool \<Rightarrow> 'm sink_pool" where
  "pool_Destroy p = p\<lparr>sp_sinks := [], sp_chans := (\<lambda>c. if c \<in> set (sp_sinks p) then close_chan (sp_chans p c) else sp_chans p c)\<rparr>"

text \<open>
  One goroutine of \<^verbatim>\<open>Push\<close>. \<open>ready\<close>: within 10 milliseconds the reader takes a message when the
  channel is full. A channel of capacity 0 hands the message over to a reader that is ready.
\<close>

definition push_chan :: "bool \<Rightarrow> 'm \<Rightarrow> 'm chan \<Rightarrow> 'm chan" where
  "push_chan ready m c =
     (if length (ch_buf c) < ch_cap c then c\<lparr>ch_buf := ch_buf c @ [m]\<rparr>
      else if ready then
        (case ch_buf c of
           [] \<Rightarrow> c\<lparr>ch_got := ch_got c @ [m]\<rparr>
         | x # xs \<Rightarrow> c\<lparr>ch_got := ch_got c @ [x], ch_buf := xs @ [m]\<rparr>)
      else
        (case ch_buf c of
           [] \<Rightarrow> c
         | x # xs \<Rightarrow> c\<lparr>ch_buf := xs @ [m]\<rparr>))"

definition pool_Push :: "(nat \<Rightarrow> bool) \<Rightarrow> 'm \<Rightarrow> 'm sink_pool \<Rightarrow> 'm sink_pool" where
  "pool_Push ready m p =
     p\<lparr>sp_chans := fold (\<lambda>c cs. cs(c := push_chan (ready c) m (cs c))) (sp_sinks p) (sp_chans p)\<rparr>"

definition receive :: "'m chan \<Rightarrow> 'm chan" where
  "receive c = (case ch_buf c of [] \<Rightarrow> c | x # xs \<Rightarrow> c\<lparr>ch_got := ch_got c @ [x], ch_buf := xs\<rparr>)"

section \<open>The event bus\<close>

text \<open>Only the part of the topic before the first colon is published.\<close>

definition bus_topic :: "string \<Rightarrow> string" where
  "bus_topic topic = (if CHR '':'' \<in> set topic then takeWhile (\<lambda>c. c \<noteq> CHR '':'') topic else topic)"

datatype event_data = DText string | DTexts "string list" | DJson string

definition bus_Publish :: "(nat \<Rightarrow> bool) \<Rightarrow> string \<Rightarrow> event_data \<Rightarrow> (string \<times> event_data) sink_pool \<Rightarrow> (string \<times> event_data) sink_pool" where
  "bus_Publish ready topic data p = pool_Push ready (bus_topic topic, data) p"

section \<open>The listeners of a socket\<close>

definition allowedServerEvents :: "string list" where
  "allowedServerEvents =
     [''stats'', ''status'', ''console output'', ''install output'', ''install started'', ''install completed'',
      ''daemon message'', ''backup completed'', ''backup restore completed'', ''transfer logs'', ''transfer status'',
      ''operation progress'', ''operation error'', ''operation completed'', ''image pull started'',
      ''image pull progress'', ''image pull completed'', ''serverimporter:progress'', ''serverimporter:completed'']"

text \<open>Lists of strings are passed on as they are; a string is one argument; other data is sent as JSON.\<close>

definition event_args :: "event_data \<Rightarrow> string list" where
  "event_args data = (case data of DTexts xs \<Rightarrow> xs | DText s \<Rightarrow> [s] | DJson s \<Rightarrow> [s])"

definition listen_event ::
  "ws_payload jwt_api \<Rightarrow> denylist \<Rightarrow> ws_answers \<Rightarrow> 'l ws_conn \<Rightarrow> string \<times> event_data \<Rightarrow> ws_effect list \<times> ws_error option" where
  "listen_event api d a h ev =
     (case ev of (topic, data) \<Rightarrow>
        if topic \<notin> set allowedServerEvents \<and> \<not> prefix ''backup completed:'' topic then ([], None)
        else SendJson api d a h (msg topic (event_args data)))"

definition listen_log :: "ws_payload jwt_api \<Rightarrow> denylist \<Rightarrow> ws_answers \<Rightarrow> 'l ws_conn \<Rightarrow> string \<Rightarrow> ws_effect list \<times> ws_error option" where
  "listen_log api d a h line = SendJson api d a h (msg ''console output'' [line])"

definition listen_install :: "ws_payload jwt_api \<Rightarrow> denylist \<Rightarrow> ws_answers \<Rightarrow> 'l ws_conn \<Rightarrow> string \<Rightarrow> ws_effect list \<times> ws_error option" where
  "listen_install api d a h line = SendJson api d a h (msg ''install output'' [line])"

text \<open>Seconds of a time in nanoseconds, as \<^verbatim>\<open>Unix()\<close> gives them.\<close>

definition unix :: "int \<Rightarrow> int" where
  "unix t = t div 1000000000"

text \<open>One tick of \<^verbatim>\<open>listenForExpiration\<close>. A token without an expiry never gets on the socket.\<close>

definition expiry_tick :: "ws_payload jwt_api \<Rightarrow> denylist \<Rightarrow> ws_answers \<Rightarrow> 'l ws_conn \<Rightarrow> ws_effect list" where
  "expiry_tick api d a h =
     (case hc_jwt h of
        None \<Rightarrow> []
      | Some j \<Rightarrow>
          (case jp_expires (wp_payload j) of
             None \<Rightarrow> []
           | Some e \<Rightarrow>
               if unix e - unix (wa_now a) \<le> 0 then fst (SendJson api d a h (msg ''token expired'' []))
               else if unix e - unix (wa_now a) \<le> 60 then fst (SendJson api d a h (msg ''token expiring'' []))
               else []))"

section \<open>How much console output passes\<close>

fun throttle_run :: "int list \<Rightarrow> throttle \<Rightarrow> (bool \<times> bool) list \<times> throttle" where
  "throttle_run [] ct = ([], ct)"
| "throttle_run (t # ts) ct =
     (case throttle_Allow t ct of (ok, strike, ct') \<Rightarrow> (case throttle_run ts ct' of (rs, ct'') \<Rightarrow> ((ok, strike) # rs, ct'')))"

definition passed :: "(bool \<times> bool) list \<Rightarrow> int" where
  "passed rs = int (length (filter fst rs))"

definition strikes :: "(bool \<times> bool) list \<Rightarrow> int" where
  "strikes rs = int (length (filter snd rs))"

definition rate_ok :: "rate_limit \<Rightarrow> bool" where
  "rate_ok r \<longleftrightarrow> 0 \<le> rt_count r \<and> rt_count r \<le> rt_limit r \<and> 0 \<le> rt_limit r \<and> rt_limit r < 2 ^ 64 - 1"

lemma rate_Try_simp:
  assumes "rate_ok r"
  shows "rate_Try now r =
    (let r = (if now - rt_last r > rt_duration r then r\<lparr>rt_count := 0, rt_last := now\<rparr> else r)
     in if rt_count r + 1 > rt_limit r then (False, r) else (True, r\<lparr>rt_count := rt_count r + 1\<rparr>))"
  using assms by (auto simp: rate_Try_def rate_ok_def Let_def)

lemma passed_simps [simp]: "passed [] = 0" "passed (x # xs) = (if fst x then 1 else 0) + passed xs"
  "strikes [] = 0" "strikes (x # xs) = (if snd x then 1 else 0) + strikes xs"
  "passed (xs @ ys) = passed xs + passed ys"
  by (auto simp: passed_def strikes_def)

text \<open>
  The room that is left in a window that began at \<open>t0\<close>: what is left of the current period and,
  unless the period began within the window, the limit once more.
\<close>

definition room :: "int \<Rightarrow> rate_limit \<Rightarrow> int" where
  "room t0 r = rt_limit r - rt_count r + (if rt_last r < t0 then rt_limit r else 0)"

lemma throttle_Allow_room:
  assumes "rate_ok (th_limit ct)" "rt_duration (th_limit ct) = D" "t0 \<le> t" "t \<le> t0 + D"
    "throttle_Allow t ct = (ok, strike, ct')"
  shows "rate_ok (th_limit ct') \<and> rt_duration (th_limit ct') = D \<and> rt_limit (th_limit ct') = rt_limit (th_limit ct) \<and>
    room t0 (th_limit ct') + (if ok then 1 else 0) \<le> room t0 (th_limit ct)"
  using assms
  by (auto simp: throttle_Allow_def rate_Try_simp Let_def room_def rate_ok_def split: prod.splits option.splits if_splits bool.splits)

lemma throttle_run_room:
  assumes "rate_ok (th_limit ct)" "rt_duration (th_limit ct) = D" "\<forall>t \<in> set ts. t0 \<le> t \<and> t \<le> t0 + D"
    "throttle_run ts ct = (rs, ct')"
  shows "passed rs \<le> room t0 (th_limit ct)"
  using assms
proof (induction ts arbitrary: ct rs)
  case Nil
  then show ?case by (auto simp: room_def rate_ok_def)
next
  case (Cons t ts)
  obtain ok strike ct1 where a: "throttle_Allow t ct = (ok, strike, ct1)" by (metis prod_cases3)
  obtain rs1 ct2 where r: "throttle_run ts ct1 = (rs1, ct2)" by fastforce
  from Cons.prems(3) have "t0 \<le> t" "t \<le> t0 + D" by auto
  note s = throttle_Allow_room [OF Cons.prems(1,2) this a]
  with Cons.IH [of ct1 rs1] Cons.prems(3,4) a r show ?case by auto
qed

lemma throttle_run_append:
  "throttle_run (ts @ us) ct = (case throttle_run ts ct of (rs, ct1) \<Rightarrow> (case throttle_run us ct1 of (rs', ct2) \<Rightarrow> (rs @ rs', ct2)))"
  by (induction ts arbitrary: ct) (auto split: prod.splits)

lemma throttle_run_ok:
  assumes "rate_ok (th_limit ct)" "throttle_run ts ct = (rs, ct')"
  shows "rate_ok (th_limit ct') \<and> rt_duration (th_limit ct') = rt_duration (th_limit ct) \<and>
    rt_limit (th_limit ct') = rt_limit (th_limit ct) \<and> length rs = length ts"
  using assms
proof (induction ts arbitrary: ct rs)
  case (Cons t ts)
  obtain ok strike ct1 where a: "throttle_Allow t ct = (ok, strike, ct1)" by (metis prod_cases3)
  have "rate_ok (th_limit ct1) \<and> rt_duration (th_limit ct1) = rt_duration (th_limit ct) \<and> rt_limit (th_limit ct1) = rt_limit (th_limit ct)"
    using a Cons.prems(1)
    by (auto simp: throttle_Allow_def rate_Try_simp Let_def rate_ok_def split: prod.splits option.splits if_splits bool.splits)
  with Cons.IH [of ct1] Cons.prems(2) a show ?case by (auto split: prod.splits)
qed simp

text \<open>A strike takes the lock, which only a line that passes releases.\<close>

lemma throttle_run_strikes:
  assumes "throttle_run ts ct = (rs, ct')" "\<not> destroyed (th_lock ct)"
  shows "strikes rs \<le> passed rs + (if lk_ch (th_lock ct) then 0 else 1)"
  using assms
proof (induction ts arbitrary: ct rs ct')
  case (Cons t ts)
  obtain ok strike ct1 where a: "throttle_Allow t ct = (ok, strike, ct1)" by (metis prod_cases3)
  have s: "\<not> destroyed (th_lock ct1)" "ok \<longrightarrow> \<not> strike" "strike \<longrightarrow> \<not> lk_ch (th_lock ct) \<and> lk_ch (th_lock ct1)"
    "\<not> ok \<longrightarrow> lk_ch (th_lock ct1)"
    using a Cons.prems(2)
    by (auto simp: throttle_Allow_def Acquire_def Release_def destroyed_def split: prod.splits option.splits if_splits bool.splits)
  obtain rs1 ct2 where r: "throttle_run ts ct1 = (rs1, ct2)" by fastforce
  from Cons.IH [OF r s(1)] s Cons.prems(1) a r show ?case by (auto split: if_splits)
qed simp



section \<open>What a reader of a sink gets\<close>

datatype 'm chan_op = Push bool 'm | Receive

definition chan_step :: "'m chan \<Rightarrow> 'm chan_op \<Rightarrow> 'm chan" where
  "chan_step c x = (case x of Push ready m \<Rightarrow> push_chan ready m c | Receive \<Rightarrow> receive c)"

fun pushed :: "'m chan_op list \<Rightarrow> 'm list" where
  "pushed [] = []"
| "pushed (Push _ m # xs) = m # pushed xs"
| "pushed (Receive # xs) = pushed xs"

definition new_chan :: "nat \<Rightarrow> 'm chan" where
  "new_chan n = \<lparr>ch_cap = n, ch_buf = [], ch_got = [], ch_closed = False\<rparr>"

definition chan_ok :: "'m list \<Rightarrow> 'm chan \<Rightarrow> bool" where
  "chan_ok ms c \<longleftrightarrow>
     (\<exists>us. ms = us @ ch_buf c \<and> subseq (ch_got c) us) \<and> length (ch_buf c) \<le> ch_cap c"

lemma pushed_append [simp]: "pushed (xs @ ys) = pushed xs @ pushed ys"
  by (induction xs rule: pushed.induct) auto

lemma subseq_skip: "subseq xs us \<Longrightarrow> subseq xs (us @ [x])"
  by (metis append_Nil2 list_emb_append_mono list_emb_Nil)

lemma subseq_take: "subseq xs us \<Longrightarrow> subseq (xs @ [x]) (us @ [x])"
  by (simp add: list_emb_append_mono)

lemma push_chan_ok:
  assumes "chan_ok ms c"
  shows "chan_ok (ms @ [m]) (push_chan ready m c)"
proof -
  from assms obtain us where u: "ms = us @ ch_buf c" "subseq (ch_got c) us" "length (ch_buf c) \<le> ch_cap c"
    by (auto simp: chan_ok_def)
  show ?thesis
  proof (cases "length (ch_buf c) < ch_cap c")
    case True
    with u show ?thesis by (auto simp: push_chan_def chan_ok_def)
  next
    case full: False
    show ?thesis
    proof (cases "ch_buf c")
      case Nil
      with u full subseq_skip subseq_take show ?thesis by (auto simp: push_chan_def chan_ok_def)
    next
      case (Cons x xs)
      with u full have "ms @ [m] = (us @ [x]) @ xs @ [m]" "subseq (ch_got c @ [x]) (us @ [x])" "subseq (ch_got c) (us @ [x])"
        by (auto intro: subseq_skip subseq_take)
      with u full Cons show ?thesis unfolding chan_ok_def by (cases ready) (fastforce simp: push_chan_def)+
    qed
  qed
qed

lemma receive_ok:
  assumes "chan_ok ms c"
  shows "chan_ok ms (receive c)"
proof (cases "ch_buf c")
  case (Cons x xs)
  with assms obtain us where u: "ms = us @ x # xs" "subseq (ch_got c) us" "Suc (length xs) \<le> ch_cap c"
    by (auto simp: chan_ok_def)
  then have "ms = (us @ [x]) @ xs" "subseq (ch_got c @ [x]) (us @ [x])" by (auto intro: subseq_take)
  with u(3) Cons show ?thesis unfolding chan_ok_def by (fastforce simp: receive_def)
qed (use assms in \<open>simp add: receive_def\<close>)

lemma chan_run_ok: "chan_ok ms c \<Longrightarrow> chan_ok (ms @ pushed xs) (foldl chan_step c xs)"
proof (induction xs arbitrary: c ms)
  case (Cons x xs)
  show ?case
  proof (cases x)
    case (Push ready m)
    from Cons.IH [OF push_chan_ok [OF Cons.prems]] Push show ?thesis by (simp add: chan_step_def)
  next
    case Receive
    from Cons.IH [OF receive_ok [OF Cons.prems]] Receive show ?thesis by (simp add: chan_step_def)
  qed
qed simp

lemma push_cap [simp]: "ch_cap (push_chan ready m c) = ch_cap c" "ch_cap (receive c) = ch_cap c"
  by (auto simp: push_chan_def receive_def split: list.splits)

lemma chan_run_cap: "ch_cap (foldl chan_step c xs) = ch_cap c"
  by (induction xs arbitrary: c) (auto simp: chan_step_def split: chan_op.splits)

lemma push_last:
  assumes "length (ch_buf c) \<le> ch_cap c" "0 < ch_cap c"
  shows "\<exists>zs. ch_buf (push_chan ready m c) = zs @ [m]"
  using assms by (auto simp: push_chan_def split: list.splits)

text \<open>
  A sink is a rolling buffer. After any interleaving of pushes and reads of a channel, what
  the reader took is a selection of the pushed messages in their order, all older than what the
  channel holds; what it holds are exactly the newest pushed messages, no more than its
  capacity. A push into a channel with a capacity is never lost at once: its message is the last
  one the channel holds. Only a channel of capacity 0 whose reader is not ready drops it.
\<close>

theorem sink_keeps_newest:
  assumes "c = foldl chan_step (new_chan cap) xs"
  shows "(\<exists>old. pushed xs = old @ ch_buf c \<and> subseq (ch_got c) old) \<and> length (ch_buf c) \<le> cap \<and>
    (if cap = 0 then push_chan False m c = c else \<exists>zs. ch_buf (push_chan ready m c) = zs @ [m])"
proof -
  have "chan_ok ([] @ pushed xs) c" unfolding assms by (rule chan_run_ok) (simp add: chan_ok_def new_chan_def)
  moreover have "ch_cap c = cap" by (simp add: assms chan_run_cap new_chan_def)
  moreover have "push_chan False m c = c" if "cap = 0" "chan_ok ms c" "ch_cap c = cap" for ms
    using that by (auto simp: chan_ok_def push_chan_def)
  ultimately show ?thesis using push_last [of c] by (auto simp: chan_ok_def)
qed

theorem sink_keeps_newest_witness:
  "(\<exists>old. [1, 2, 3, 4] = old @ ch_buf (foldl chan_step (new_chan 2) [Push False (1::nat), Push False 2, Push False 3, Receive, Push False 4]) \<and>
     subseq [2] old) \<and>
   length (ch_buf (foldl chan_step (new_chan 2) [Push False (1::nat), Push False 2, Push False 3, Receive, Push False 4])) \<le> 2"
proof -
  let ?xs = "[Push False (1::nat), Push False 2, Push False 3, Receive, Push False 4]"
  have "ch_got (foldl chan_step (new_chan 2) ?xs) = [2]" by code_simp
  with sink_keeps_newest [where cap = 2 and xs = ?xs, OF refl] show ?thesis by simp
qed

section \<open>Which events reach a socket\<close>

lemma listen_event_allowed:
  "fst (listen_event api d a h (topic, data)) \<noteq> [] \<Longrightarrow> topic \<in> set allowedServerEvents \<or> prefix ''backup completed:'' topic"
  by (auto simp: listen_event_def split: if_splits)

lemma bus_topic_no_colon: "CHR '':'' \<notin> set (bus_topic topic)"
  by (auto simp: bus_topic_def dest: set_takeWhileD)


end
