(* ===== verification/Upload_Registry.thy ===== *)
theory Upload_Registry
  imports Ws_Tokens "HOL-Library.AList" "HOL-Library.Multiset"
begin

text \<open>
  The registries of resumable uploads (\<^verbatim>\<open>router/router_resumable_upload.go\<close>): the files that are
  being written, the number of requests at work per server and per token, and the file that each
  upload token is bound to. Each method holds the registry's mutex, so it is one function of the
  registry. Go's \<^verbatim>\<open>map[string]int\<close> is a map whose missing keys read as zero.
\<close>

section \<open>Limits\<close>

definition maxConcurrentResumableUploads :: int where
  "maxConcurrentResumableUploads = 64"

definition maxConcurrentResumableUploadsPerServer :: int where
  "maxConcurrentResumableUploadsPerServer = 16"

definition maxConcurrentResumableUploadsPerToken :: int where
  "maxConcurrentResumableUploadsPerToken = 4"

definition maxResumableUploadLocks :: nat where
  "maxResumableUploadLocks = 64 + 64"

definition maxResumableUploadSessions :: int where
  "maxResumableUploadSessions = 4096"

definition maxResumableUploadSessionsPerServer :: int where
  "maxResumableUploadSessionsPerServer = 256"

section \<open>Locks\<close>

definition lock_acquire :: "string \<Rightarrow> string list \<Rightarrow> string list option" where
  "lock_acquire key active =
     (if key \<in> set active \<or> length active \<ge> maxResumableUploadLocks then None else Some (key # active))"

definition lock_release :: "string \<Rightarrow> string list \<Rightarrow> string list" where
  "lock_release key active = removeAll key active"

section \<open>Admissions\<close>

type_synonym counts = "string \<Rightarrow> int option"

definition count_of :: "counts \<Rightarrow> string \<Rightarrow> int" where
  "count_of m k = (case m k of None \<Rightarrow> 0 | Some n \<Rightarrow> n)"

definition count_up :: "string \<Rightarrow> counts \<Rightarrow> counts" where
  "count_up k m = m(k \<mapsto> count_of m k + 1)"

definition count_down :: "string \<Rightarrow> counts \<Rightarrow> counts" where
  "count_down k m = (let n = count_of m k - 1 in if n = 0 then m(k := None) else m(k \<mapsto> n))"

record upload_admissions =
  ad_globalLimit :: int
  ad_perServerLimit :: int
  ad_perTokenLimit :: int
  ad_global :: int
  ad_byServer :: counts
  ad_byToken :: counts

definition newResumableUploadAdmissionRegistry :: "int \<Rightarrow> int \<Rightarrow> int \<Rightarrow> upload_admissions" where
  "newResumableUploadAdmissionRegistry global perServer perToken =
     \<lparr>ad_globalLimit = global, ad_perServerLimit = perServer, ad_perTokenLimit = perToken,
      ad_global = 0, ad_byServer = Map.empty, ad_byToken = Map.empty\<rparr>"

definition nul_key :: "string \<Rightarrow> string \<Rightarrow> string" where
  "nul_key a b = a @ CHR 0x00 # b"

definition admission_acquire :: "string \<Rightarrow> string \<Rightarrow> upload_admissions \<Rightarrow> upload_admissions option" where
  "admission_acquire serverID tokenID r =
     (let tokenKey = nul_key serverID tokenID
      in if ad_global r \<ge> ad_globalLimit r \<or> count_of (ad_byServer r) serverID \<ge> ad_perServerLimit r \<or>
            count_of (ad_byToken r) tokenKey \<ge> ad_perTokenLimit r
         then None
         else Some (r\<lparr>ad_global := ad_global r + 1, ad_byServer := count_up serverID (ad_byServer r),
                      ad_byToken := count_up tokenKey (ad_byToken r)\<rparr>))"

definition admission_release :: "string \<Rightarrow> string \<Rightarrow> upload_admissions \<Rightarrow> upload_admissions" where
  "admission_release serverID tokenID r =
     r\<lparr>ad_global := ad_global r - 1, ad_byServer := count_down serverID (ad_byServer r),
       ad_byToken := count_down (nul_key serverID tokenID) (ad_byToken r)\<rparr>"

section \<open>Sessions\<close>

record upload_session =
  us_server :: string
  us_target :: string
  us_expires :: int
  us_consumed :: bool

record upload_sessions =
  sr_globalLimit :: int
  sr_perServerLimit :: int
  sr_nextExpiry :: int
  sr_sessions :: "(string \<times> upload_session) list"
  sr_byServer :: counts

definition newResumableUploadSessionRegistry :: "int \<Rightarrow> int \<Rightarrow> upload_sessions" where
  "newResumableUploadSessionRegistry global perServer =
     \<lparr>sr_globalLimit = global, sr_perServerLimit = perServer, sr_nextExpiry = zero_time, sr_sessions = [], sr_byServer = Map.empty\<rparr>"

definition earlier_expiry :: "int \<Rightarrow> upload_sessions \<Rightarrow> upload_sessions" where
  "earlier_expiry expires r =
     (if sr_nextExpiry r = zero_time \<or> expires < sr_nextExpiry r then r\<lparr>sr_nextExpiry := expires\<rparr> else r)"

definition prune_step :: "int \<Rightarrow> string \<times> upload_session \<Rightarrow> upload_sessions \<Rightarrow> upload_sessions" where
  "prune_step now entry r =
     (case entry of (tokenID, session) \<Rightarrow>
        if \<not> now < us_expires session
        then r\<lparr>sr_sessions := AList.delete tokenID (sr_sessions r), sr_byServer := count_down (us_server session) (sr_byServer r)\<rparr>
        else earlier_expiry (us_expires session) r)"

definition pruneExpired :: "int \<Rightarrow> upload_sessions \<Rightarrow> upload_sessions" where
  "pruneExpired now r =
     (if sr_nextExpiry r = zero_time \<or> now < sr_nextExpiry r then r
      else fold (prune_step now) (sr_sessions r) (r\<lparr>sr_nextExpiry := zero_time\<rparr>))"

text \<open>\<open>cache\<close> is the store of one-time tokens, which \<^verbatim>\<open>IsUniqueRequest\<close> asks last.\<close>

definition bind ::
  "'c cache_api \<Rightarrow> int \<Rightarrow> upload_payload \<Rightarrow> string \<Rightarrow> string \<Rightarrow> upload_sessions \<times> 'c \<Rightarrow> bool \<times> upload_sessions \<times> 'c" where
  "bind api now token serverID target st =
     (let (r, cache) = st; r = pruneExpired now r
      in case map_of (sr_sessions r) (up_unique token) of
           Some session \<Rightarrow> (\<not> us_consumed session \<and> us_server session = serverID \<and> us_target session = target, r, cache)
         | None \<Rightarrow>
             if int (length (sr_sessions r)) \<ge> sr_globalLimit r \<or> count_of (sr_byServer r) serverID \<ge> sr_perServerLimit r
             then (False, r, cache)
             else case jp_expires (up_payload token) of
               None \<Rightarrow> (False, r, cache)
             | Some expires \<Rightarrow>
                 if \<not> now < expires then (False, r, cache)
                 else case IsValidToken api now (up_unique token) cache of
                   (False, cache) \<Rightarrow> (False, r, cache)
                 | (True, cache) \<Rightarrow>
                     let session = \<lparr>us_server = serverID, us_target = target, us_expires = expires, us_consumed = False\<rparr>;
                         r = r\<lparr>sr_sessions := AList.update (up_unique token) session (sr_sessions r),
                               sr_byServer := count_up serverID (sr_byServer r)\<rparr>
                     in (True, earlier_expiry expires r, cache))"

definition retire :: "string \<Rightarrow> string \<Rightarrow> string \<Rightarrow> upload_sessions \<Rightarrow> upload_sessions" where
  "retire tokenID serverID target r =
     (case map_of (sr_sessions r) tokenID of
        None \<Rightarrow> r
      | Some session \<Rightarrow>
          if \<not> us_consumed session \<and> us_server session = serverID \<and> us_target session = target
          then r\<lparr>sr_sessions := AList.update tokenID (session\<lparr>us_target := '''', us_consumed := True\<rparr>) (sr_sessions r)\<rparr>
          else r)"

section \<open>Counters are tallies\<close>

text \<open>A counter map kept up to date stands for the number of entries with each key, without zeros.\<close>

definition tally :: "('a \<Rightarrow> string) \<Rightarrow> 'a list \<Rightarrow> counts" where
  "tally key xs k = (let n = length (filter (\<lambda>x. key x = k) xs) in if n = 0 then None else Some (int n))"

lemma count_of_tally [simp]: "count_of (tally key xs) k = int (length (filter (\<lambda>x. key x = k) xs))"
  by (simp add: count_of_def tally_def Let_def)

lemma tally_Nil [simp]: "tally key [] = Map.empty"
  by (simp add: tally_def fun_eq_iff)

lemma count_up_tally: "count_up (key x) (tally key xs) = tally key (x # xs)"
  unfolding count_up_def count_of_tally by (auto simp: fun_eq_iff tally_def)

lemma tally_perm: "mset xs = mset ys \<Longrightarrow> tally key xs = tally key ys"
proof -
  assume "mset xs = mset ys"
  then have "length (filter P xs) = length (filter P ys)" for P by (metis mset_filter size_mset)
  then show ?thesis by (simp add: tally_def fun_eq_iff)
qed

lemma count_down_tally: "count_down (key x) (tally key (x # xs)) = tally key xs"
  unfolding count_down_def count_of_tally Let_def by (auto simp: fun_eq_iff tally_def Let_def)

section \<open>Admissions count the requests at work\<close>

text \<open>\<open>L\<close> lists the server and the token of every request that has been admitted and not released.\<close>

definition admissions_ok :: "(string \<times> string) list \<Rightarrow> upload_admissions \<Rightarrow> bool" where
  "admissions_ok L r \<longleftrightarrow>
     ad_global r = int (length L) \<and> ad_byServer r = tally fst L \<and> ad_byToken r = tally (\<lambda>(s, t). nul_key s t) L \<and>
     ad_global r \<le> ad_globalLimit r \<and>
     (\<forall>s. count_of (ad_byServer r) s \<le> ad_perServerLimit r) \<and> (\<forall>k. count_of (ad_byToken r) k \<le> ad_perTokenLimit r)"

lemma admission_acquire_ok:
  assumes "admissions_ok L r" "admission_acquire s t r = Some r'"
  shows "admissions_ok ((s, t) # L) r'"
proof -
  have r': "r' = r\<lparr>ad_global := ad_global r + 1, ad_byServer := count_up s (ad_byServer r), ad_byToken := count_up (nul_key s t) (ad_byToken r)\<rparr>"
    and lim: "ad_global r < ad_globalLimit r" "count_of (ad_byServer r) s < ad_perServerLimit r" "count_of (ad_byToken r) (nul_key s t) < ad_perTokenLimit r"
    using assms(2) by (auto simp: admission_acquire_def Let_def split: if_splits)
  have "ad_byServer r' = tally fst ((s, t) # L)" "ad_byToken r' = tally (\<lambda>(s, t). nul_key s t) ((s, t) # L)"
    using assms(1) count_up_tally [of fst "(s, t)" L] count_up_tally [of "\<lambda>(s, t). nul_key s t" "(s, t)" L]
    by (simp_all add: r' admissions_ok_def)
  with assms(1) lim show ?thesis by (auto simp: admissions_ok_def r')
qed

lemma admission_release_ok:
  assumes "admissions_ok L r" "mset L = mset ((s, t) # L')"
  shows "admissions_ok L' (admission_release s t r)"
proof -
  have len: "length (filter P L) = length (filter P ((s, t) # L'))" for P using assms(2) by (metis mset_filter size_mset)
  have "ad_byServer (admission_release s t r) = tally fst L'" "ad_byToken (admission_release s t r) = tally (\<lambda>(s, t). nul_key s t) L'"
    using assms(1) count_down_tally [of fst "(s, t)" L'] count_down_tally [of "\<lambda>(s, t). nul_key s t" "(s, t)" L']
      tally_perm [OF assms(2), of fst] tally_perm [OF assms(2), of "\<lambda>(s, t). nul_key s t"]
    by (simp_all add: admission_release_def admissions_ok_def)
  moreover have "length L = Suc (length L')" using assms(2) by (metis length_Cons size_mset)
  moreover have "int (length (filter P L')) \<le> n" if "int (length (filter P L)) \<le> n" for P n using that by (simp add: len split: if_splits)
  ultimately show ?thesis
    using assms(1) by (auto simp: admissions_ok_def admission_release_def)
qed

section \<open>Sessions: pruning removes exactly the expired ones\<close>

definition session_server :: "string \<times> upload_session \<Rightarrow> string" where
  "session_server e = us_server (snd e)"

lemma session_server_simp [simp]: "session_server (k, x) = us_server x"
  by (simp add: session_server_def)

definition expiry_bound :: "int \<Rightarrow> (string \<times> upload_session) list \<Rightarrow> bool" where
  "expiry_bound n xs \<longleftrightarrow> list_all (\<lambda>(_, x). n \<le> us_expires x \<and> n \<noteq> zero_time) xs"

definition sessions_ok :: "upload_sessions \<Rightarrow> bool" where
  "sessions_ok r \<longleftrightarrow>
     distinct (map fst (sr_sessions r)) \<and> sr_byServer r = tally session_server (sr_sessions r) \<and>
     int (length (sr_sessions r)) \<le> sr_globalLimit r \<and> (\<forall>s. count_of (sr_byServer r) s \<le> sr_perServerLimit r) \<and>
     list_all (\<lambda>(_, x). zero_time < us_expires x) (sr_sessions r) \<and> expiry_bound (sr_nextExpiry r) (sr_sessions r)"

definition pruned :: "int \<Rightarrow> upload_sessions \<Rightarrow> (string \<times> upload_session) list" where
  "pruned now r = filter (\<lambda>(_, x). now < us_expires x) (sr_sessions r)"

lemma delete_middle:
  assumes "distinct (map fst (ys @ (k, v) # xs))"
  shows "AList.delete k (ys @ (k, v) # xs) = ys @ xs"
proof -
  have "filter (\<lambda>(k', _). k \<noteq> k') zs = zs" if "k \<notin> fst ` set zs" for zs :: "('a \<times> 'b) list"
    using that by (intro filter_True) force
  with assms show ?thesis by (simp add: AList.delete_eq)
qed

lemma prune_fold:
  assumes "sr_sessions r = ys @ xs" "distinct (map fst (ys @ xs))" "sr_byServer r = tally session_server (ys @ xs)"
    "list_all (\<lambda>(_, x). zero_time < us_expires x) (ys @ xs)"
    "expiry_bound (sr_nextExpiry r) ys"
    "r' = fold (prune_step now) xs r"
  shows "sr_sessions r' = ys @ filter (\<lambda>(_, x). now < us_expires x) xs \<and>
    sr_byServer r' = tally session_server (sr_sessions r') \<and>
    expiry_bound (sr_nextExpiry r') (sr_sessions r') \<and>
    sr_globalLimit r' = sr_globalLimit r \<and> sr_perServerLimit r' = sr_perServerLimit r"
  using assms
proof (induction xs arbitrary: ys r)
  case (Cons e xs)
  obtain k v where e: "e = (k, v)" by fastforce
  show ?case
  proof (cases "now < us_expires v")
    case True
    let ?r = "earlier_expiry (us_expires v) r"
    have step: "prune_step now e r = ?r" by (simp add: prune_step_def e True)
    have keep: "sr_sessions ?r = sr_sessions r" "sr_byServer ?r = sr_byServer r"
      "sr_globalLimit ?r = sr_globalLimit r" "sr_perServerLimit ?r = sr_perServerLimit r" by (simp_all add: earlier_expiry_def)
    have bound: "expiry_bound (sr_nextExpiry ?r) (ys @ [e])"
      using Cons.prems(4,5) by (fastforce simp: expiry_bound_def earlier_expiry_def e list_all_iff)
    have "sr_sessions ?r = (ys @ [e]) @ xs" "sr_byServer ?r = tally session_server ((ys @ [e]) @ xs)"
      using Cons.prems(1,3) keep by simp_all
    from Cons.IH [OF this(1) _ this(2) _ bound] Cons.prems(2,4,6) keep(3,4) True show ?thesis by (auto simp: step [unfolded e] e)
  next
    case False
    let ?r = "r\<lparr>sr_sessions := AList.delete k (sr_sessions r), sr_byServer := count_down (us_server v) (sr_byServer r)\<rparr>"
    have step: "prune_step now e r = ?r" using False by (simp add: prune_step_def e)
    have "count_down (us_server v) (sr_byServer r) = tally session_server (ys @ xs)"
      using Cons.prems(3) count_down_tally [of session_server e "ys @ xs"] tally_perm [of "ys @ e # xs" "e # ys @ xs" session_server]
      by (simp add: e)
    then have "sr_byServer ?r = tally session_server (ys @ xs)" by simp
    moreover have "sr_sessions ?r = ys @ xs" using Cons.prems(1,2) delete_middle [of ys k v xs] by (simp add: e)
    ultimately show ?thesis using Cons.IH [of ?r ys] Cons.prems(2,4,5,6) False by (auto simp: step [unfolded e] e)
  qed
qed simp

lemma length_filter_twice: "length (filter P (filter Q xs)) \<le> length (filter P xs)"
  by (induction xs) auto

text \<open>
  The cached earliest expiry only saves the walk: pruning always leaves the sessions that have not
  expired, in a well-formed registry.
\<close>

lemma pruneExpired_exact:
  assumes "sessions_ok r"
  shows "sr_sessions (pruneExpired now r) = pruned now r \<and> sessions_ok (pruneExpired now r) \<and>
    sr_globalLimit (pruneExpired now r) = sr_globalLimit r \<and> sr_perServerLimit (pruneExpired now r) = sr_perServerLimit r"
proof (cases "sr_nextExpiry r = zero_time \<or> now < sr_nextExpiry r")
  case True
  have "list_all (\<lambda>(_, x). now < us_expires x) (sr_sessions r)"
    using assms True by (fastforce simp: sessions_ok_def expiry_bound_def list_all_iff)
  then have "pruned now r = sr_sessions r" by (auto simp: pruned_def list_all_iff intro!: filter_True)
  with True assms show ?thesis by (simp add: pruneExpired_def)
next
  case False
  let ?r' = "pruneExpired now r"
  have "?r' = fold (prune_step now) (sr_sessions r) (r\<lparr>sr_nextExpiry := zero_time\<rparr>)" using False by (auto simp: pruneExpired_def)
  from prune_fold [of "r\<lparr>sr_nextExpiry := zero_time\<rparr>" "[]", OF _ _ _ _ _ this] assms
  have p: "sr_sessions ?r' = pruned now r" "sr_byServer ?r' = tally session_server (pruned now r)"
    "expiry_bound (sr_nextExpiry ?r') (pruned now r)" "sr_globalLimit ?r' = sr_globalLimit r" "sr_perServerLimit ?r' = sr_perServerLimit r"
    by (auto simp: sessions_ok_def expiry_bound_def pruned_def)
  have "int (length (filter P (pruned now r))) \<le> n" if "int (length (filter P (sr_sessions r))) \<le> n" for P n
    using that length_filter_twice [of P _ "sr_sessions r"] unfolding pruned_def by (meson of_nat_mono order_trans)
  moreover have "length (pruned now r) \<le> length (sr_sessions r)" by (simp add: pruned_def)
  moreover have "distinct (map fst (pruned now r))" "list_all (\<lambda>(_, x). zero_time < us_expires x) (pruned now r)"
    using assms by (auto simp: sessions_ok_def pruned_def list_all_iff distinct_map_filter)
  ultimately show ?thesis using assms p by (auto simp: sessions_ok_def)
qed

lemma alist_update_new: "map_of al k = None \<Longrightarrow> AList.update k v al = al @ [(k, v)]"
  by (induction al) (auto split: if_splits)

lemma map_server_update:
  "map_of al k = Some v \<Longrightarrow> us_server v' = us_server v \<Longrightarrow> map session_server (AList.update k v' al) = map session_server al"
  by (induction al) (auto simp: session_server_def)

lemma tally_map: "tally key xs = tally id (map key xs)"
  by (simp add: tally_def fun_eq_iff filter_map o_def)

lemma list_all_update:
  "list_all P al \<Longrightarrow> P (k, v) \<Longrightarrow> list_all P (AList.update k v al)"
  by (induction al) auto

lemma retire_ok:
  assumes "sessions_ok r"
  shows "sessions_ok (retire i s t r)"
proof (cases "map_of (sr_sessions r) i")
  case (Some x)
  let ?x = "x\<lparr>us_target := '''', us_consumed := True\<rparr>"
  have "(i, x) \<in> set (sr_sessions r)" using Some by (rule map_of_SomeD)
  then have x: "zero_time < us_expires ?x" "sr_nextExpiry r \<le> us_expires ?x \<and> sr_nextExpiry r \<noteq> zero_time"
    using assms by (auto simp: sessions_ok_def expiry_bound_def list_all_iff)
  have m: "tally session_server (AList.update i ?x (sr_sessions r)) = tally session_server (sr_sessions r)"
    using map_server_update [OF Some, of ?x] tally_map [of session_server] by simp
  have "map fst (AList.update i ?x (sr_sessions r)) = map fst (sr_sessions r)"
    using Some by (simp add: AList.update_keys) (metis map_of_SomeD fst_conv image_eqI list.set_map option.distinct(1))
  then have "length (AList.update i ?x (sr_sessions r)) = length (sr_sessions r)" by (metis length_map)
  with assms x m show ?thesis
    by (auto simp: retire_def Some sessions_ok_def expiry_bound_def AList.distinct_update intro!: list_all_update)
qed (use assms in \<open>simp add: retire_def\<close>)

lemma insert_session_ok:
  assumes "sessions_ok r" "map_of (sr_sessions r) i = None" "int (length (sr_sessions r)) < sr_globalLimit r"
    "count_of (sr_byServer r) (us_server x) < sr_perServerLimit r" "zero_time < us_expires x"
  shows "sessions_ok (earlier_expiry (us_expires x)
    (r\<lparr>sr_sessions := AList.update i x (sr_sessions r), sr_byServer := count_up (us_server x) (sr_byServer r)\<rparr>))"
proof -
  let ?xs = "sr_sessions r @ [(i, x)]"
  have cu: "count_up (us_server x) (sr_byServer r) = tally session_server ?xs"
    using assms(1) count_up_tally [of session_server "(i, x)" "sr_sessions r"] tally_perm [of "(i, x) # sr_sessions r" ?xs session_server]
    by (simp add: sessions_ok_def)
  have "i \<notin> fst ` set (sr_sessions r)" using assms(2) by (simp add: map_of_eq_None_iff)
  moreover have "expiry_bound (sr_nextExpiry (earlier_expiry (us_expires x) r')) ?xs" if "sr_nextExpiry r' = sr_nextExpiry r" for r'
    using assms(1,5) that by (fastforce simp: sessions_ok_def earlier_expiry_def expiry_bound_def list_all_iff)
  ultimately show ?thesis
    using assms(1,3-5) unfolding alist_update_new [OF assms(2)] cu
    by (auto simp: sessions_ok_def earlier_expiry_def)
qed

text \<open>What \<open>bind\<close> does: it finds the session, refuses, or creates one.\<close>

definition bound_session :: "upload_payload \<Rightarrow> string \<Rightarrow> string \<Rightarrow> int \<Rightarrow> upload_sessions \<Rightarrow> upload_sessions" where
  "bound_session token s t e r =
     earlier_expiry e (r\<lparr>sr_sessions := AList.update (up_unique token)
                          \<lparr>us_server = s, us_target = t, us_expires = e, us_consumed = False\<rparr> (sr_sessions r),
                        sr_byServer := count_up s (sr_byServer r)\<rparr>)"

lemma bind_cases:
  assumes "bind api now token s t (r, c) = (b, r', c')"
  obtains (Found) x where "map_of (sr_sessions (pruneExpired now r)) (up_unique token) = Some x"
      "b \<longleftrightarrow> \<not> us_consumed x \<and> us_server x = s \<and> us_target x = t" "r' = pruneExpired now r"
  | (Refused) "\<not> b" "r' = pruneExpired now r"
  | (Created) e where "map_of (sr_sessions (pruneExpired now r)) (up_unique token) = None" b
      "int (length (sr_sessions (pruneExpired now r))) < sr_globalLimit (pruneExpired now r)"
      "count_of (sr_byServer (pruneExpired now r)) s < sr_perServerLimit (pruneExpired now r)"
      "jp_expires (up_payload token) = Some e" "now < e" "r' = bound_session token s t e (pruneExpired now r)"
proof (cases "map_of (sr_sessions (pruneExpired now r)) (up_unique token)")
  case (Some x)
  with assms show thesis by (intro Found) (auto simp: bind_def Let_def)
next
  case None
  show thesis
  proof (cases b)
    case False
    with None assms show thesis
      by (intro Refused) (auto simp: bind_def Let_def split: if_splits option.splits prod.splits bool.splits)
  next
    case True
    from None True assms obtain e where "jp_expires (up_payload token) = Some e" "now < e"
      "\<not> int (length (sr_sessions (pruneExpired now r))) \<ge> sr_globalLimit (pruneExpired now r)"
      "\<not> count_of (sr_byServer (pruneExpired now r)) s \<ge> sr_perServerLimit (pruneExpired now r)"
      "r' = bound_session token s t e (pruneExpired now r)"
      by (auto simp: bind_def Let_def bound_session_def split: if_splits option.splits prod.splits bool.splits)
    with None True show thesis by (intro Created) auto
  qed
qed

lemma bind_ok:
  assumes "sessions_ok r" "zero_time \<le> now" "bind api now token s t (r, c) = (b, r', c')"
  shows "sessions_ok r' \<and> sr_globalLimit r' = sr_globalLimit r \<and> sr_perServerLimit r' = sr_perServerLimit r"
  using assms(3)
proof (cases rule: bind_cases)
  case (Created e)
  let ?x = "\<lparr>us_server = s, us_target = t, us_expires = e, us_consumed = False\<rparr>"
  from Created assms(2) have "sessions_ok r'"
    using insert_session_ok [of "pruneExpired now r" "up_unique token" ?x] pruneExpired_exact [OF assms(1), of now]
    by (simp add: bound_session_def)
  with Created(7) pruneExpired_exact [OF assms(1), of now] show ?thesis by (simp add: bound_session_def earlier_expiry_def)
qed (use pruneExpired_exact [OF assms(1), of now] in simp_all)

end
