(* ===== verification/Upload_Patch.thy ===== *)
theory Upload_Patch
  imports Upload_Registry Disk_Writers
begin

text \<open>
  Resumable uploads (\<^verbatim>\<open>router/router_resumable_upload.go\<close>): \<^verbatim>\<open>HEAD /upload/file\<close> tells how much of a
  file has arrived and \<^verbatim>\<open>PATCH /upload/file\<close> appends to it. A request runs in three steps: it binds
  its token to the file, it takes its admission and the lock of the file, and it does its work and
  gives both back; other requests run between the steps. The work of a PATCH is one step, as the
  lock keeps the other uploads away from the file; what else a server does to the file while a
  request writes it is not modelled. The clock, the deny list, the configuration and the answers of
  the operating system and the connection are arguments.
\<close>

section \<open>Requests and replies\<close>

datatype upload_error = UpFs fs_error | UpIdle | UpDeadline nat | UpContext nat | UpRead nat

text \<open>A reply is a status with its error text, or an error given to \<^verbatim>\<open>CaptureAndAbort\<close>.\<close>

datatype upload_reply = Status nat string | Captured upload_error

record upload_request =
  rq_token :: string
  rq_directory :: string
  rq_file :: string
  rq_header :: "string \<Rightarrow> string"
  rq_contentLength :: int
  rq_body :: "nat list"

record upload_env =
  ue_now :: int
  ue_deny :: denylist
  ue_known :: "string \<Rightarrow> bool"
  ue_ignored :: "string \<Rightarrow> string \<Rightarrow> bool"
  ue_limit :: int

definition abortResumableUploadFile :: upload_reply where
  "abortResumableUploadFile = Status 404 ''The requested resource was not found on this server.''"

definition resumableUploadServer :: "upload_payload jwt_api \<Rightarrow> upload_env \<Rightarrow> upload_request \<Rightarrow> upload_reply + upload_payload" where
  "resumableUploadServer api env rq =
     (case ParseToken api up_payload (ue_now env) (rq_token rq) of
        Inl _ \<Rightarrow> Inl abortResumableUploadFile
      | Inr token \<Rightarrow>
          if \<not> ue_known env (up_server token) \<or> up_unique token = '''' \<or> upload_Denylisted (ue_deny env) token \<or>
             \<not> HasScope (up_scope token) ''file-upload''
          then Inl abortResumableUploadFile else Inr token)"

definition resumableUploadTarget :: "upload_env \<Rightarrow> upload_request \<Rightarrow> string \<Rightarrow> upload_reply + string \<times> string" where
  "resumableUploadTarget env rq serverID =
     (case normalizeBetterFilesUploadPath (rq_directory rq) (rq_file rq) of
        None \<Rightarrow> Inl abortResumableUploadFile
      | Some (directory, target) \<Rightarrow>
          if ensureBetterFilesAllowed (ue_ignored env serverID) [target] \<noteq> None then Inl abortResumableUploadFile
          else Inr (directory, target))"

section \<open>Headers\<close>

definition digit_of :: "char \<Rightarrow> int option" where
  "digit_of c = (if 48 \<le> byte_of c \<and> byte_of c \<le> 57 then Some (int (byte_of c) - 48) else None)"

fun decimal_from :: "int \<Rightarrow> string \<Rightarrow> int option" where
  "decimal_from n [] = Some n"
| "decimal_from n (c # cs) = (case digit_of c of None \<Rightarrow> None | Some d \<Rightarrow> decimal_from (10 * n + d) cs)"

text \<open>\<^verbatim>\<open>strconv.ParseInt(s, 10, 64)\<close>: an optional sign, then digits; a value outside the range is an error.\<close>

definition ParseInt64 :: "string \<Rightarrow> int option" where
  "ParseInt64 s =
     (let neg = prefix ''-'' s; ds = (if prefix ''-'' s \<or> prefix ''+'' s then tl s else s)
      in if ds = '''' then None
         else case decimal_from 0 ds of
                None \<Rightarrow> None
              | Some n \<Rightarrow> let v = (if neg then - n else n) in if in_i64 v then Some v else None)"

definition parseUploadInteger :: "upload_request \<Rightarrow> string \<Rightarrow> bool \<Rightarrow> upload_reply + int" where
  "parseUploadInteger rq name required =
     (let value = rq_header rq name
      in if value = '''' \<and> required then Inl (Status 400 (name @ '' header is required.''))
         else case ParseInt64 value of
                None \<Rightarrow> Inl (Status 400 (name @ '' must be a non-negative integer.''))
              | Some parsed \<Rightarrow>
                  if parsed < 0 then Inl (Status 400 (name @ '' must be a non-negative integer.'')) else Inr parsed)"

definition parseOptionalUploadInteger :: "upload_request \<Rightarrow> string \<Rightarrow> upload_reply + int option" where
  "parseOptionalUploadInteger rq name =
     (if rq_header rq name = '''' then Inr None
      else rbind (parseUploadInteger rq name False) (\<lambda>v. Inr (Some v)))"

definition parseUploadComplete :: "upload_request \<Rightarrow> upload_reply + bool" where
  "parseUploadComplete rq =
     (let v = rq_header rq ''Upload-Complete''
      in if v = '''' \<or> v = ''?0'' then Inr False
         else if v = ''?1'' then Inr True
         else Inl (Status 400 ''Upload-Complete must be ?0 or ?1.''))"

definition maxMegabytes :: int where
  "maxMegabytes = max_i64 div (1024 * 1024)"

definition resumableUploadLimit :: "upload_env \<Rightarrow> upload_reply + int" where
  "resumableUploadLimit env =
     (let megabytes = ue_limit env
      in if megabytes \<le> 0 \<or> megabytes > maxMegabytes then Inl (Status 500 ''Upload limit is not configured correctly.'')
         else Inr (megabytes * 1024 * 1024))"

record patch_params =
  pa_offset :: int
  pa_length :: "int option"
  pa_complete :: bool
  pa_max :: int
  pa_contentLength :: int
  pa_body :: "nat list"

definition patch_headers :: "upload_env \<Rightarrow> upload_request \<Rightarrow> upload_reply + patch_params" where
  "patch_headers env rq =
     (if rq_header rq ''Content-Type'' \<noteq> ''application/offset+octet-stream''
      then Inl (Status 415 ''Content-Type must be application/offset+octet-stream.'')
      else
        rbind (parseUploadInteger rq ''Upload-Offset'' True) (\<lambda>requestedOffset.
        rbind (parseOptionalUploadInteger rq ''Upload-Length'') (\<lambda>uploadLength.
        rbind (parseUploadComplete rq) (\<lambda>complete.
        rbind (resumableUploadLimit env) (\<lambda>maxSize.
        if (case uploadLength of None \<Rightarrow> False | Some l \<Rightarrow> l > maxSize)
        then Inl (Status 413 ''The upload exceeds the configured upload limit.'')
        else Inr \<lparr>pa_offset = requestedOffset, pa_length = uploadLength, pa_complete = complete, pa_max = maxSize,
                  pa_contentLength = rq_contentLength rq, pa_body = rq_body rq\<rparr>)))))"

section \<open>Admission\<close>

text \<open>A request on its way: \<open>tk_patch\<close> is missing for a HEAD.\<close>

record upload_ticket =
  tk_server :: string
  tk_unique :: string
  tk_directory :: string
  tk_target :: string
  tk_patch :: "patch_params option"

definition lock_key :: "upload_ticket \<Rightarrow> string" where
  "lock_key t = nul_key (tk_server t) (tk_target t)"

definition upload_ticket_for :: "upload_payload jwt_api \<Rightarrow> bool \<Rightarrow> upload_env \<Rightarrow> upload_request \<Rightarrow> upload_reply + upload_payload \<times> upload_ticket" where
  "upload_ticket_for api head env rq =
     rbind (resumableUploadServer api env rq) (\<lambda>token.
     rbind (resumableUploadTarget env rq (up_server token)) (\<lambda>(directory, target).
     rbind (if head then Inr None else rbind (patch_headers env rq) (\<lambda>p. Inr (Some p))) (\<lambda>patch.
     Inr (token, \<lparr>tk_server = up_server token, tk_unique = up_unique token, tk_directory = directory, tk_target = target,
                  tk_patch = patch\<rparr>))))"

text \<open>A PATCH that finds the file locked gives its admission back.\<close>

definition upload_acquire ::
  "upload_ticket \<Rightarrow> string list \<times> upload_admissions \<Rightarrow> upload_reply option \<times> string list \<times> upload_admissions" where
  "upload_acquire t st =
     (let (locks, adm) = st
      in if tk_patch t = None
         then (case lock_acquire (lock_key t) locks of
                 None \<Rightarrow> (Some (Status 503 ''Too many uploads are currently active.''), locks, adm)
               | Some locks \<Rightarrow> (None, locks, adm))
         else (case admission_acquire (tk_server t) (tk_unique t) adm of
                 None \<Rightarrow> (Some (Status 429 ''Too many resumable uploads are currently active.''), locks, adm)
               | Some adm \<Rightarrow>
                   (case lock_acquire (lock_key t) locks of
                      None \<Rightarrow> (Some (Status 409 ''An upload is already active for this file.''),
                               locks, admission_release (tk_server t) (tk_unique t) adm)
                    | Some locks \<Rightarrow> (None, locks, adm))))"

definition upload_release :: "upload_ticket \<Rightarrow> string list \<times> upload_admissions \<Rightarrow> string list \<times> upload_admissions" where
  "upload_release t st =
     (let (locks, adm) = st
      in (lock_release (lock_key t) locks,
          if tk_patch t = None then adm else admission_release (tk_server t) (tk_unique t) adm))"

section \<open>The body\<close>

text \<open>
  One round of \<^verbatim>\<open>io.CopyBuffer\<close>: whether the request was cancelled, the answer to setting the
  deadline, how many bytes have arrived and how the read ends, and what the file answers to
  \<^verbatim>\<open>Seek\<close> and \<^verbatim>\<open>Write\<close>. The end of the body is reported with its last bytes or by an empty read.
\<close>

datatype body_error = BodyTimeout | BodyOther nat

record copy_round =
  cp_ctx :: "nat option"
  cp_deadline :: "nat option"
  cp_arrived :: nat
  cp_eof :: bool
  cp_err :: "body_error option"
  cp_seek :: "fs_error option"
  cp_stored :: nat
  cp_werr :: "fs_error option"

datatype read_end = ReadMore | ReadEOF | ReadFail upload_error

text \<open>The readers from the outside in: the limit, the context, the deadline. The flag is \<^verbatim>\<open>supported\<close>.\<close>

definition deadline_Read :: "nat \<Rightarrow> copy_round \<Rightarrow> nat list \<Rightarrow> bool \<Rightarrow> nat list \<times> nat list \<times> read_end \<times> bool" where
  "deadline_Read room c rest supported =
     (case cp_deadline c of
        Some e \<Rightarrow> ([], rest, ReadFail (UpDeadline e), supported)
      | None \<Rightarrow>
          let n = min (cp_arrived c) room; bytes = take n rest; rest = drop n rest
          in (bytes, rest,
              (case cp_err c of
                 Some BodyTimeout \<Rightarrow> ReadFail UpIdle
               | Some (BodyOther e) \<Rightarrow> ReadFail (UpRead e)
               | None \<Rightarrow> if rest = [] \<and> (cp_eof c \<or> bytes = []) then ReadEOF else ReadMore), True))"

definition context_Read :: "nat \<Rightarrow> copy_round \<Rightarrow> nat list \<Rightarrow> bool \<Rightarrow> nat list \<times> nat list \<times> read_end \<times> bool" where
  "context_Read room c rest supported =
     (case cp_ctx c of
        Some e \<Rightarrow> ([], rest, ReadFail (UpContext e), supported)
      | None \<Rightarrow> deadline_Read room c rest supported)"

definition limit_Read :: "int \<Rightarrow> copy_round \<Rightarrow> nat list \<Rightarrow> bool \<Rightarrow> nat list \<times> nat list \<times> read_end \<times> bool" where
  "limit_Read N c rest supported =
     (if N \<le> 0 then ([], rest, ReadEOF, supported) else context_Read (nat (min (64 * 1024) N)) c rest supported)"

text \<open>
  The file opened for appending: its content and the position of the descriptor, which is 0 after
  opening and the end of the file after a write.
\<close>

record open_upload =
  of_content :: "nat list"
  of_pos :: int
  of_quota :: quotaFile

definition append_Write :: "nat list \<Rightarrow> copy_round \<Rightarrow> open_upload \<Rightarrow> filesystem \<Rightarrow> io_result \<times> open_upload \<times> filesystem" where
  "append_Write bytes c f fs =
     (let ((nw, ew), q, fs) =
            quotaFile_Write (int (length bytes)) (case cp_seek c of Some e \<Rightarrow> Inl e | None \<Rightarrow> Inr (of_pos f))
              (int (min (cp_stored c) (length bytes)), cp_werr c) (of_quota f) fs;
          content = of_content f @ take (nat nw) bytes
      in ((nw, ew), \<lparr>of_content = content, of_pos = (if nw > 0 then int (length content) else of_pos f), of_quota = q\<rparr>, fs))"

record copy_state =
  cy_written :: int
  cy_limit :: int
  cy_rest :: "nat list"
  cy_supported :: bool
  cy_file :: open_upload
  cy_fs :: filesystem

text \<open>\<^verbatim>\<open>None\<close> when the rounds end before the copy does: the request still waits.\<close>

fun copy_body :: "copy_round list \<Rightarrow> copy_state \<Rightarrow> (upload_error option \<times> copy_state) option" where
  "copy_body [] y = None"
| "copy_body (c # cs) y =
     (let (bytes, rest, ending, supported) = limit_Read (cy_limit y) c (cy_rest y) (cy_supported y);
          y = y\<lparr>cy_limit := cy_limit y - int (length bytes), cy_rest := rest, cy_supported := supported\<rparr>;
          (err, y) =
            (if bytes = [] then (None, y)
             else let ((nw, ew), f, fs) = append_Write bytes c (cy_file y) (cy_fs y);
                      y = y\<lparr>cy_written := wrap64 (cy_written y + nw), cy_file := f, cy_fs := fs\<rparr>
                  in case ew of
                       Some e \<Rightarrow> (Some (UpFs e), y)
                     | None \<Rightarrow> if nw \<noteq> int (length bytes) then (Some (UpFs (E_IO 1)), y) else (None, y))
      in case err of
           Some e \<Rightarrow> Some (Some e, y)
         | None \<Rightarrow>
             (case ending of
                ReadFail e \<Rightarrow> Some (Some e, y)
              | ReadEOF \<Rightarrow> Some (None, y)
              | ReadMore \<Rightarrow> copy_body cs y))"

section \<open>Appending to the file\<close>

datatype target_state = TMissing | TFile "nat list" | TOther

record patch_answers =
  pb_lstat :: "fs_error option"
  pb_mkdir :: "string \<Rightarrow> string \<Rightarrow> fs_error option"
  pb_open :: "fs_error option"
  pb_opened :: "fs_error option"
  pb_rounds :: "copy_round list"
  pb_clear :: "nat option"
  pb_truncate :: "fs_error option"
  pb_stat :: "fs_error option"
  pb_close :: "fs_error option"
  pb_chown :: "fs_error option"

definition resumableUploadOffset :: "patch_answers \<Rightarrow> target_state \<Rightarrow> int option" where
  "resumableUploadOffset a f =
     (case pb_lstat a of
        Some _ \<Rightarrow> None
      | None \<Rightarrow> (case f of TMissing \<Rightarrow> Some 0 | TFile content \<Rightarrow> Some (int (length content)) | TOther \<Rightarrow> None))"

definition pathBase :: "string \<Rightarrow> string" where
  "pathBase v = rev (takeWhile (\<lambda>c. c \<noteq> slash) (rev v))"

definition pathDirectory :: "string \<Rightarrow> string" where
  "pathDirectory v = (let d = rev (tl (dropWhile (\<lambda>c. c \<noteq> slash) (rev v))) in if d = '''' then ''/'' else d)"

definition content_of :: "target_state \<Rightarrow> nat list" where
  "content_of f = (case f of TFile content \<Rightarrow> content | _ \<Rightarrow> [])"

lemma content_of_TFile [simp]: "content_of (TFile c) = c"
  by (simp add: content_of_def)

text \<open>\<^verbatim>\<open>Touch\<close> with \<^verbatim>\<open>O_APPEND\<close>; opening creates a missing file.\<close>

definition upload_Touch :: "patch_answers \<Rightarrow> target_state \<Rightarrow> (fs_error + open_upload) \<times> target_state" where
  "upload_Touch a f =
     (let content = content_of f;
          w = \<lparr>wo_isdir = False, wo_mkdir = None, wo_existed = (f \<noteq> TMissing), wo_touch = pb_open a,
               wo_stat = (case pb_opened a of
                            Some e \<Rightarrow> Inl e
                          | None \<Rightarrow> Inr \<lparr>fi_regular = True, fi_nlink = Some 1, fi_size = int (length content)\<rparr>),
               wo_truncate = None, wo_remove = Inl (E_IO 0), wo_copy = (0, None), wo_chown = None\<rparr>
      in ((case Touch False w of
             Inl e \<Rightarrow> Inl e
           | Inr q \<Rightarrow> Inr \<lparr>of_content = content, of_pos = 0, of_quota = q\<rparr>),
          if pb_open a = None then TFile content else f))"

definition upload_Close :: "patch_answers \<Rightarrow> open_upload \<Rightarrow> filesystem \<Rightarrow> fs_error option \<times> filesystem" where
  "upload_Close a f fs =
     quotaFile_Close (case pb_stat a of Some e \<Rightarrow> Inl e | None \<Rightarrow> Inr (int (length (of_content f)))) (pb_close a) (of_quota f) fs"

definition upload_rollback :: "patch_answers \<Rightarrow> int \<Rightarrow> open_upload \<Rightarrow> open_upload" where
  "upload_rollback a current f =
     (case pb_truncate a of Some _ \<Rightarrow> f | None \<Rightarrow> f\<lparr>of_content := take (nat current) (of_content f)\<rparr>)"

record patch_result =
  pt_reply :: upload_reply
  pt_offset :: "int option"
  pt_file :: target_state
  pt_fs :: filesystem
  pt_completed :: bool

definition no_space :: upload_reply where
  "no_space = Status 507 ''The server does not have enough disk space for this upload.''"

definition chunk_too_long :: upload_reply where
  "chunk_too_long = Status 413 ''The upload chunk exceeds the remaining upload length.''"

text \<open>The reply to a copy that failed or went past what was allowed.\<close>

definition copy_failed :: "upload_error option \<Rightarrow> int \<Rightarrow> int \<Rightarrow> upload_reply" where
  "copy_failed copyErr written allowed =
     (if copyErr = Some (UpFs E_NODISK) then no_space
      else if written > allowed then chunk_too_long
      else case copyErr of
        Some UpIdle \<Rightarrow> Status 408 ''The upload body was idle for too long.''
      | Some e \<Rightarrow> Captured e
      | None \<Rightarrow> Status 200 '''')"

text \<open>Everything after the checks: writing the body, rolling back, closing and the ownership.\<close>

definition patch_write ::
  "upload_ticket \<Rightarrow> patch_params \<Rightarrow> patch_answers \<Rightarrow> int \<Rightarrow> int \<Rightarrow> open_upload \<Rightarrow> filesystem \<Rightarrow> patch_result option" where
  "patch_write t p a current allowed f fs =
     (case copy_body (pb_rounds a)
             \<lparr>cy_written = 0, cy_limit = wrap64 (allowed + 1), cy_rest = pa_body p, cy_supported = False, cy_file = f, cy_fs = fs\<rparr> of
        None \<Rightarrow> None
      | Some (copyErr, y) \<Rightarrow>
          let copyErr = (case copyErr of
                           Some e \<Rightarrow> Some e
                         | None \<Rightarrow> if cy_supported y then map_option UpDeadline (pb_clear a) else None);
              written = cy_written y; f = cy_file y; fs = cy_fs y; newOffset = wrap64 (current + written)
          in if copyErr \<noteq> None \<or> written > allowed
             then (let f = upload_rollback a current f
                   in Some \<lparr>pt_reply = copy_failed copyErr written allowed, pt_offset = Some current, pt_file = TFile (of_content f),
                            pt_fs = snd (upload_Close a f fs), pt_completed = False\<rparr>)
             else if pa_complete p \<and> (case pa_length p of None \<Rightarrow> False | Some l \<Rightarrow> newOffset \<noteq> l)
             then (let f = upload_rollback a current f
                   in Some \<lparr>pt_reply = Status 409 ''Final upload length does not match Upload-Length.'', pt_offset = Some current,
                            pt_file = TFile (of_content f), pt_fs = snd (upload_Close a f fs), pt_completed = False\<rparr>)
             else case upload_Close a f fs of
               (Some e, fs) \<Rightarrow> Some \<lparr>pt_reply = Captured (UpFs e), pt_offset = Some current, pt_file = TFile (of_content f), pt_fs = fs, pt_completed = False\<rparr>
             | (None, fs) \<Rightarrow>
                 (case pb_chown a of
                    Some e \<Rightarrow> Some \<lparr>pt_reply = Captured (UpFs e), pt_offset = Some current, pt_file = TFile (of_content f), pt_fs = fs, pt_completed = False\<rparr>
                  | None \<Rightarrow> Some \<lparr>pt_reply = Status 200 '''', pt_offset = Some newOffset, pt_file = TFile (of_content f), pt_fs = fs,
                                  pt_completed = pa_complete p\<rparr>))"

text \<open>The checks that need the size of the file, then opening it.\<close>

definition patch_stop :: "upload_reply \<Rightarrow> int option \<Rightarrow> target_state \<Rightarrow> filesystem \<Rightarrow> patch_result option" where
  "patch_stop reply off file fs = Some \<lparr>pt_reply = reply, pt_offset = off, pt_file = file, pt_fs = fs, pt_completed = False\<rparr>"

definition patch_open ::
  "upload_ticket \<Rightarrow> patch_params \<Rightarrow> patch_answers \<Rightarrow> int \<Rightarrow> int \<Rightarrow> target_state \<Rightarrow> filesystem \<Rightarrow> patch_result option" where
  "patch_open t p a current allowed file fs =
     (case HasSpaceFor (max (pa_contentLength p) 0) fs of
        Inl _ \<Rightarrow> patch_stop no_space (Some current) file fs
      | Inr _ \<Rightarrow>
          (case (if tk_directory t = ''/'' then None
                 else pb_mkdir a (pathBase (tk_directory t)) (pathDirectory (tk_directory t))) of
             Some e \<Rightarrow> patch_stop (Captured (UpFs e)) (Some current) file fs
           | None \<Rightarrow>
               (case upload_Touch a file of
                  (Inl e, file) \<Rightarrow> patch_stop (Captured (UpFs e)) (Some current) file fs
                | (Inr f, _) \<Rightarrow> patch_write t p a current allowed f fs)))"

definition patch_allowed :: "patch_params \<Rightarrow> int \<Rightarrow> int" where
  "patch_allowed p current =
     (case pa_length p of
        None \<Rightarrow> pa_max p - current
      | Some l \<Rightarrow> if l - current < pa_max p - current then l - current else pa_max p - current)"

definition patch_body ::
  "upload_ticket \<Rightarrow> patch_params \<Rightarrow> patch_answers \<Rightarrow> target_state \<Rightarrow> filesystem \<Rightarrow> patch_result option" where
  "patch_body t p a file fs =
     (case resumableUploadOffset a file of
        None \<Rightarrow> patch_stop abortResumableUploadFile None file fs
      | Some current \<Rightarrow>
          if pa_offset p \<noteq> current
          then patch_stop (Status 409 ''Upload offset does not match the current file size.'') (Some current) file fs
          else if current > pa_max p \<or> (case pa_length p of None \<Rightarrow> False | Some l \<Rightarrow> l < current \<or> pa_offset p > l)
          then patch_stop (Status 409 ''Upload length is inconsistent with the current file size.'') (Some current) file fs
          else if pa_contentLength p \<ge> 0 \<and> pa_contentLength p > patch_allowed p current
          then patch_stop chunk_too_long (Some current) file fs
          else patch_open t p a current (patch_allowed p current) file fs)"

section \<open>A PATCH appends its body or leaves the file as it was\<close>

lemma quotaFile_Write_count:
  assumes "quotaFile_Write n seek (m, w) q fs = ((nw, ew), q', fs')"
  shows "nw = m \<or> nw = 0"
  using assms by (auto simp: quotaFile_Write_def writeAtLocked_def Let_def split: if_splits sum.splits prod.splits)

lemma append_Write_content:
  assumes "append_Write bytes c f fs = ((nw, ew), f', fs')"
  shows "0 \<le> nw \<and> nw \<le> int (length bytes) \<and> of_content f' = of_content f @ take (nat nw) bytes"
proof -
  obtain n w q fs2 where q: "quotaFile_Write (int (length bytes)) (case cp_seek c of Some e \<Rightarrow> Inl e | None \<Rightarrow> Inr (of_pos f))
      (int (min (cp_stored c) (length bytes)), cp_werr c) (of_quota f) fs = ((n, w), q, fs2)" by (metis prod.exhaust)
  with assms have "nw = n" "of_content f' = of_content f @ take (nat nw) bytes" by (auto simp: append_Write_def Let_def)
  moreover from quotaFile_Write_count [OF q] have "n = int (min (cp_stored c) (length bytes)) \<or> n = 0" .
  ultimately show ?thesis by auto
qed

lemma limit_Read_splits:
  assumes "limit_Read N c rest spt = (bytes, rest', ending, spt')"
  shows "rest = bytes @ rest' \<and> int (length bytes) \<le> max 0 N \<and> (ending = ReadEOF \<longrightarrow> N \<le> 0 \<or> rest' = [])"
  using assms
  by (auto simp: limit_Read_def context_Read_def deadline_Read_def Let_def split: if_splits option.splits body_error.splits)

lemma copy_body_appends:
  assumes "copy_body cs y = Some (err, y')" "0 \<le> cy_written y" "cy_written y + max 0 (cy_limit y) \<le> max_i64"
  shows "\<exists>k \<le> length (cy_rest y). int k \<le> max 0 (cy_limit y) \<and> of_content (cy_file y') = of_content (cy_file y) @ take k (cy_rest y) \<and>
    cy_written y' = cy_written y + int k \<and> (err = None \<longrightarrow> int k = max 0 (cy_limit y) \<or> k = length (cy_rest y))"
  using assms
proof (induction cs arbitrary: y)
  case (Cons c cs)
  obtain bytes rest ending spt where rd: "limit_Read (cy_limit y) c (cy_rest y) (cy_supported y) = (bytes, rest, ending, spt)"
    by (metis prod.exhaust)
  note r = limit_Read_splits [OF rd]
  show ?case
  proof (cases "bytes = []")
    case True
    let ?y = "y\<lparr>cy_rest := rest, cy_supported := spt\<rparr>"
    show ?thesis
    proof (cases ending)
      case ReadMore
      with Cons.prems(1) rd True have "copy_body cs ?y = Some (err, y')" by simp
      from Cons.IH [OF this] Cons.prems(2,3) True r show ?thesis by simp
    qed (use Cons.prems(1) rd True r in \<open>auto intro!: exI [of _ 0]\<close>)
  next
    case False
    obtain nw ew f fs where w: "append_Write bytes c (cy_file y) (cy_fs y) = ((nw, ew), f, fs)" by (metis prod.exhaust)
    note a = append_Write_content [OF w]
    have bnd: "in_i64 (cy_written y + nw)" using a r Cons.prems(2,3) by (auto simp: in_i64_def min_i64_def max_def split: if_splits)
    let ?y = "y\<lparr>cy_limit := cy_limit y - int (length bytes), cy_rest := rest, cy_supported := spt, cy_written := cy_written y + nw, cy_file := f, cy_fs := fs\<rparr>"
    have stop: ?thesis if "y' = ?y" "err = None \<longrightarrow> nw = int (length bytes) \<and> ending = ReadEOF"
      using that a r Cons.prems(2,3) by (intro exI [of _ "nat nw"]) (auto simp: max_def split: if_splits)
    show ?thesis
    proof (cases "ew = None \<and> nw = int (length bytes) \<and> ending = ReadMore")
      case True
      with Cons.prems(1) rd w False bnd have cp: "copy_body cs ?y = Some (err, y')" by (simp add: wrap64_id)
      from Cons.IH [OF cp] True bnd r Cons.prems(2,3) a
      obtain k where "k \<le> length rest" "int k \<le> max 0 (cy_limit ?y)" "of_content (cy_file y') = of_content f @ take k rest"
        "cy_written y' = cy_written y + nw + int k" "err = None \<longrightarrow> int k = max 0 (cy_limit ?y) \<or> k = length rest"
        by (auto simp: max_def split: if_splits)
      with True a r show ?thesis by (intro exI [of _ "length bytes + k"]) (auto simp: max_def split: if_splits)
    next
      case other: False
      show ?thesis
        by (rule stop) (use other Cons.prems(1) rd w False bnd in \<open>auto simp: wrap64_id Let_def split: option.splits if_splits read_end.splits\<close>)
    qed
  qed
qed simp

lemma patch_headers_InrD:
  assumes "patch_headers env rq = Inr p"
  shows "0 \<le> pa_max p \<and> pa_max p \<le> maxMegabytes * 1024 * 1024 \<and> pa_body p = rq_body rq \<and> pa_contentLength p = rq_contentLength rq"
  using assms
  by (auto simp: patch_headers_def resumableUploadLimit_def Let_def rbind_Inr_iff split: if_splits)

text \<open>Writing the body: all of it is appended and kept, or the file is cut back to its old length.\<close>

lemma patch_write_appends:
  assumes "patch_write t p a current allowed f fs = Some r" "current = int (length (of_content f))" "pb_truncate a = None"
    "0 \<le> allowed" "current + allowed < max_i64"
  shows "(pt_file r = TFile (of_content f @ pa_body p) \<and> int (length (pa_body p)) \<le> allowed \<and>
      (pt_reply r = Status 200 '''' \<and> pt_offset r = Some (current + int (length (pa_body p))) \<and> pt_completed r = pa_complete p \<and>
         (pa_complete p \<longrightarrow> pa_length p = None \<or> pa_length p = Some (current + int (length (pa_body p)))) \<or>
       (\<exists>e. pt_reply r = Captured (UpFs e) \<and> (pb_stat a = Some e \<or> pb_close a = Some e \<or> pb_chown a = Some e)) \<and> \<not> pt_completed r)) \<or>
    (pt_file r = TFile (of_content f) \<and> pt_reply r \<noteq> Status 200 '''' \<and> \<not> pt_completed r)"
proof -
  let ?y = "\<lparr>cy_written = 0, cy_limit = allowed + 1, cy_rest = pa_body p, cy_supported = False, cy_file = f, cy_fs = fs\<rparr>"
  have lim: "wrap64 (allowed + 1) = allowed + 1" using assms(2,4,5) by (simp add: wrap64_id in_i64_def min_i64_def max_i64_def)
  from assms(1) obtain err y where cp: "copy_body (pb_rounds a) ?y = Some (err, y)"
    unfolding patch_write_def lim by (auto split: option.splits)
  from copy_body_appends [OF this] assms(2,4,5) obtain k where k: "k \<le> length (pa_body p)" "int k \<le> allowed + 1"
    "of_content (cy_file y) = of_content f @ take k (pa_body p)" "cy_written y = int k"
    "err = None \<longrightarrow> int k = allowed + 1 \<or> k = length (pa_body p)" by auto
  have off: "wrap64 (current + int k) = current + int k"
    using k(2) assms(2,4,5) by (simp add: wrap64_id in_i64_def min_i64_def max_i64_def)
  have cutb: "of_content (upload_rollback a current (cy_file y)) = of_content f" using k(3) assms(2,3) by (simp add: upload_rollback_def)
  define copyErr where "copyErr = (case err of Some e \<Rightarrow> Some e | None \<Rightarrow> if cy_supported y then map_option UpDeadline (pb_clear a) else None)"
  show ?thesis
  proof (cases "copyErr \<noteq> None \<or> int k > allowed")
    case True
    then have "copy_failed copyErr (int k) allowed \<noteq> Status 200 ''''"
      by (auto simp: copy_failed_def no_space_def chunk_too_long_def split: upload_error.splits)
    with True assms(1) cp k(4) cutb show ?thesis
      unfolding patch_write_def lim by (auto simp: copyErr_def [symmetric] Let_def)
  next
    case False
    then have "k = length (pa_body p)" using k(2,5) by (cases err) (auto simp: copyErr_def)
    with False assms(1) cp k(3,4) cutb off show ?thesis
      unfolding patch_write_def lim
      by (auto simp: copyErr_def [symmetric] Let_def upload_Close_def quotaFile_Close_def split: if_splits option.splits prod.splits)
  qed
qed

lemma upload_Touch_content:
  "upload_Touch a file = (x, f') \<Longrightarrow> content_of f' = content_of file"
  "upload_Touch a file = (Inr f, f') \<Longrightarrow> of_content f = content_of file"
  by (auto simp: upload_Touch_def Let_def content_of_def split: if_splits target_state.splits sum.splits)

lemma patch_open_cases:
  assumes "patch_open t p a current allowed file fs = Some r"
  obtains (Stopped) "content_of (pt_file r) = content_of file" "pt_reply r \<noteq> Status 200 ''''" "\<not> pt_completed r"
  | (Written) f where "of_content f = content_of file" "patch_write t p a current allowed f fs = Some r"
proof -
  obtain x f' where tc: "upload_Touch a file = (x, f')" by fastforce
  have stop: thesis if "patch_stop reply off g fs = Some r" "content_of g = content_of file" "reply \<noteq> Status 200 ''''" for reply off g
    using that by (intro Stopped) (auto simp: patch_stop_def)
  show thesis
  proof (cases x)
    case (Inl e)
    with assms tc show thesis
      unfolding patch_open_def
      by (auto simp: no_space_def upload_Touch_content(1) split: sum.splits option.splits if_splits intro: stop)
  next
    case (Inr f)
    with assms tc show thesis
      unfolding patch_open_def
      by (auto simp: no_space_def split: sum.splits option.splits if_splits intro: stop Written [OF upload_Touch_content(2)])
  qed
qed

lemma patch_body_cases:
  assumes "patch_body t p a file fs = Some r" "current = int (length (content_of file))"
  obtains (Stopped) "content_of (pt_file r) = content_of file" "pt_reply r \<noteq> Status 200 ''''" "\<not> pt_completed r"
  | (Written) f where "of_content f = content_of file" "patch_write t p a current (patch_allowed p current) f fs = Some r"
      "pa_offset p = current" "current \<le> pa_max p" "\<And>l. pa_length p = Some l \<Longrightarrow> current \<le> l"
proof -
  have stop: thesis if "patch_stop reply off file fs = Some r" "reply \<noteq> Status 200 ''''" for reply off
    using that by (intro Stopped) (auto simp: patch_stop_def)
  show thesis
  proof (cases "resumableUploadOffset a file")
    case None
    with assms(1) show thesis by (intro stop) (auto simp: patch_body_def abortResumableUploadFile_def)
  next
    case (Some off)
    then have off: "off = current" using assms(2) by (auto simp: resumableUploadOffset_def content_of_def split: option.splits target_state.splits)
    show thesis
    proof (cases "patch_open t p a current (patch_allowed p current) file fs = Some r \<and> pa_offset p = current \<and> \<not> current > pa_max p \<and>
        \<not> (case pa_length p of None \<Rightarrow> False | Some l \<Rightarrow> l < current \<or> pa_offset p > l)")
      case True
      then have len: "pa_length p = Some l \<Longrightarrow> current \<le> l" for l by simp
      from True have "patch_open t p a current (patch_allowed p current) file fs = Some r" by blast
      then show thesis by (cases rule: patch_open_cases) (use True len Stopped Written in auto)
    next
      case False
      with assms(1) Some off show thesis
        unfolding patch_body_def by (auto simp: chunk_too_long_def split: if_splits intro: stop)
    qed
  qed
qed

text \<open>The rounds in which bytes arrive. The copy ends once there are more of them than bytes.\<close>

definition arriving :: "copy_round list \<Rightarrow> nat" where
  "arriving cs = length (filter (\<lambda>c. 0 < cp_arrived c) cs)"

lemma limit_Read_progress:
  assumes "limit_Read N c rest s = (bytes, rest', ReadMore, s')"
  shows "length rest' \<le> length rest \<and> (0 < cp_arrived c \<longrightarrow> length rest' < length rest)"
  using assms
  by (auto simp: limit_Read_def context_Read_def deadline_Read_def Let_def split: if_splits option.splits body_error.splits)

lemma copy_body_returns: "length (cy_rest y) < arriving cs \<Longrightarrow> copy_body cs y \<noteq> None"
proof (induction cs arbitrary: y)
  case (Cons c cs)
  obtain bytes rest ending s where rd: "limit_Read (cy_limit y) c (cy_rest y) (cy_supported y) = (bytes, rest, ending, s)"
    by (metis prod.exhaust)
  obtain nw ew f fs where w: "append_Write bytes c (cy_file y) (cy_fs y) = ((nw, ew), f, fs)" by (metis prod.exhaust)
  show ?case
  proof (cases ending)
    case ReadMore
    with limit_Read_progress rd Cons.prems have "length rest < arriving cs" by (fastforce simp: arriving_def split: if_splits)
    then have "copy_body cs z \<noteq> None" if "cy_rest z = rest" for z using Cons.IH [of z] that by simp
    with ReadMore rd w show ?thesis by (simp add: Let_def del: not_None_eq split: option.split)
  qed (use rd w in \<open>simp_all add: Let_def del: not_None_eq split: option.split\<close>)
qed (simp add: arriving_def)

lemma patch_write_returns:
  assumes "length (pa_body p) < arriving (pb_rounds a)"
  shows "patch_write t p a current allowed f fs \<noteq> None"
proof -
  let ?y = "\<lparr>cy_written = 0, cy_limit = wrap64 (allowed + 1), cy_rest = pa_body p, cy_supported = False, cy_file = f, cy_fs = fs\<rparr>"
  obtain err y where "copy_body (pb_rounds a) ?y = Some (err, y)" using copy_body_returns [of ?y "pb_rounds a"] assms by auto
  then show ?thesis unfolding patch_write_def by (auto simp: Let_def split: option.split prod.split)
qed

lemma patch_body_returns:
  assumes "length (pa_body p) < arriving (pb_rounds a)"
  shows "patch_body t p a file fs \<noteq> None"
  using patch_write_returns [OF assms]
  by (auto simp: patch_body_def patch_open_def patch_stop_def split: option.split sum.split prod.split)

text \<open>
  C15. A PATCH whose rollback works is all or nothing, and it ends once more reads have delivered
  bytes than the body has. When it ends, either the file is its old content followed by the whole
  body of the request, the body starts at the offset the client named, the new size is within the
  configured limit and a final chunk has reached the announced length; the reply is then 200 with
  the new size, unless closing the file or giving it to the server's user failed. Or the content of
  the file is what it was, the reply is not 200 and the upload is not completed.
\<close>

theorem patch_appends_or_restores:
  assumes "patch_headers env rq = Inr p" and "pb_truncate a = None"
  shows "(length (rq_body rq) < arriving (pb_rounds a) \<longrightarrow> (\<exists>r. patch_body t p a file fs = Some r)) \<and>
    (\<forall>r. patch_body t p a file fs = Some r \<longrightarrow>
     (pt_file r = TFile (content_of file @ rq_body rq) \<and> pa_offset p = int (length (content_of file)) \<and>
      int (length (content_of file @ rq_body rq)) \<le> pa_max p \<and>
      (pt_reply r = Status 200 '''' \<and> pt_offset r = Some (int (length (content_of file @ rq_body rq))) \<and> pt_completed r = pa_complete p \<and>
         (pa_complete p \<longrightarrow> pa_length p = None \<or> pa_length p = Some (int (length (content_of file @ rq_body rq)))) \<or>
       (\<exists>e. pt_reply r = Captured (UpFs e) \<and> (pb_stat a = Some e \<or> pb_close a = Some e \<or> pb_chown a = Some e)) \<and> \<not> pt_completed r)) \<or>
     (content_of (pt_file r) = content_of file \<and> pt_reply r \<noteq> Status 200 '''' \<and> \<not> pt_completed r))"
  (is "_ \<and> (\<forall>r. _ \<longrightarrow> ?P r)")
proof (intro conjI impI allI)
  note h = patch_headers_InrD [OF assms(1)]
  show "\<exists>r. patch_body t p a file fs = Some r" if "length (rq_body rq) < arriving (pb_rounds a)"
    using patch_body_returns that h by force
  let ?c = "int (length (content_of file))"
  show "?P r" if "patch_body t p a file fs = Some r" for r
    using that refl
  proof (cases rule: patch_body_cases)
    case (Written f)
    have al: "0 \<le> patch_allowed p ?c" "?c + patch_allowed p ?c \<le> pa_max p"
      using Written(4,5) by (auto simp: patch_allowed_def split: option.splits)
    with h have "?c + patch_allowed p ?c < max_i64" by (simp add: maxMegabytes_def max_i64_def)
    from patch_write_appends [OF Written(2) _ assms(2) al(1) this] Written(1,3) al(2) h show ?thesis by auto
  qed simp
qed

text \<open>A request that appends two bytes to a file of two and announces that the upload is complete.\<close>

definition plain_round :: "nat \<Rightarrow> copy_round" where
  "plain_round n = \<lparr>cp_ctx = None, cp_deadline = None, cp_arrived = n, cp_eof = True, cp_err = None, cp_seek = None, cp_stored = n, cp_werr = None\<rparr>"

definition plain_answers :: "nat \<Rightarrow> patch_answers" where
  "plain_answers n = \<lparr>pb_lstat = None, pb_mkdir = (\<lambda>_ _. None), pb_open = None, pb_opened = None, pb_rounds = [plain_round n], pb_clear = None,
     pb_truncate = None, pb_stat = None, pb_close = None, pb_chown = None\<rparr>"

definition sample_upload_request :: upload_request where
  "sample_upload_request = \<lparr>rq_token = ''t'', rq_directory = ''/'', rq_file = ''f'',
     rq_header = (\<lambda>n. if n = ''Content-Type'' then ''application/offset+octet-stream''
                      else if n = ''Upload-Offset'' then ''2'' else if n = ''Upload-Length'' then ''4''
                      else if n = ''Upload-Complete'' then ''?1'' else ''''),
     rq_contentLength = 2, rq_body = [3, 4]\<rparr>"

definition sample_upload_env :: upload_env where
  "sample_upload_env = \<lparr>ue_now = 5, ue_deny = \<lparr>dn_boot = 0, dn_jti = (\<lambda>_. None), dn_user = (\<lambda>_. None)\<rparr>, ue_known = (\<lambda>_. True),
     ue_ignored = (\<lambda>_ _. False), ue_limit = 1\<rparr>"

definition sample_params :: patch_params where
  "sample_params = \<lparr>pa_offset = 2, pa_length = Some 4, pa_complete = True, pa_max = 1048576, pa_contentLength = 2, pa_body = [3, 4]\<rparr>"

definition sample_ticket :: upload_ticket where
  "sample_ticket = \<lparr>tk_server = ''s'', tk_unique = ''id'', tk_directory = ''/'', tk_target = ''/f'', tk_patch = Some sample_params\<rparr>"

lemma sample_headers: "patch_headers sample_upload_env sample_upload_request = Inr sample_params"
  by code_simp

definition sample_patched :: patch_result where
  "sample_patched = the (patch_body sample_ticket sample_params (plain_answers 2) (TFile [1, 2]) fs100)"

lemma sample_patched_eq: "patch_body sample_ticket sample_params (plain_answers 2) (TFile [1, 2]) fs100 = Some sample_patched"
  "pt_reply sample_patched = Status 200 ''''"
  by code_simp+

theorem patch_appends_or_restores_witness:
  "patch_body sample_ticket sample_params (plain_answers 2) (TFile [1, 2]) fs100 = Some sample_patched \<and>
   pt_file sample_patched = TFile [1, 2, 3, 4] \<and> pt_offset sample_patched = Some 4 \<and> pt_completed sample_patched"
proof -
  have "pb_truncate (plain_answers 2) = None" by (simp add: plain_answers_def)
  from patch_appends_or_restores [OF sample_headers this, of sample_ticket "TFile [1, 2]" fs100] sample_patched_eq show ?thesis
    by (auto simp: sample_upload_request_def sample_params_def)
qed

section \<open>The first append of a request is not charged\<close>

text \<open>
  \<^verbatim>\<open>quotaFile.Write\<close> asks the descriptor for its position, which is 0 on a file opened for appending;
  it takes the write for one at the start of the file.
\<close>

lemma first_append_unreserved:
  assumes "of_pos f = 0" "0 < length bytes" "int (length bytes) \<le> qf_size (of_quota f)" "qf_size (of_quota f) \<le> max_i64"
    "cp_seek c = None" "cp_stored c = length bytes" "cp_werr c = None"
  shows "append_Write bytes c f fs = ((int (length bytes), None),
    \<lparr>of_content = of_content f @ bytes, of_pos = int (length (of_content f) + length bytes), of_quota = of_quota f\<rparr>, fs)"
proof -
  have "wrap64 (max_i64 - int (length bytes)) = max_i64 - int (length bytes)" "wrap64 (int (length bytes)) = int (length bytes)"
    "wrap64 (int (length bytes) - qf_size (of_quota f)) = int (length bytes) - qf_size (of_quota f)"
    using assms(2-4) by (simp_all add: wrap64_id in_i64_def min_i64_def max_i64_def)
  with assms show ?thesis
    by (simp add: append_Write_def quotaFile_Write_def writeAtLocked_def quotaWriteEnd_def Let_def)
qed

lemma plain_copy:
  assumes "of_pos f = 0" "0 < length body" "int (length body) \<le> qf_size (of_quota f)" "qf_size (of_quota f) \<le> max_i64"
    "length body \<le> 64 * 1024" "int (length body) < limit"
  shows "copy_body [plain_round (length body)] \<lparr>cy_written = 0, cy_limit = limit, cy_rest = body, cy_supported = False, cy_file = f, cy_fs = fs\<rparr> =
    Some (None, \<lparr>cy_written = int (length body), cy_limit = limit - int (length body), cy_rest = [], cy_supported = True,
       cy_file = \<lparr>of_content = of_content f @ body, of_pos = int (length (of_content f) + length body), of_quota = of_quota f\<rparr>, cy_fs = fs\<rparr>)"
proof -
  let ?c = "plain_round (length body)"
  have "append_Write body ?c f fs = ((int (length body), None),
    \<lparr>of_content = of_content f @ body, of_pos = int (length (of_content f) + length body), of_quota = of_quota f\<rparr>, fs)"
    by (rule first_append_unreserved [OF assms(1-4)]) (simp_all add: plain_round_def)
  moreover have "limit_Read limit ?c body False = (body, [], ReadEOF, True)"
    using assms(2,5,6) by (simp add: limit_Read_def context_Read_def deadline_Read_def plain_round_def Let_def)
  moreover have "wrap64 (int (length body)) = int (length body)"
    using assms(3,4) by (simp add: wrap64_id in_i64_def min_i64_def)
  ultimately show ?thesis using assms(2) by simp
qed

lemma plain_answers_simps [simp]:
  "pb_lstat (plain_answers n) = None" "pb_clear (plain_answers n) = None" "pb_stat (plain_answers n) = None"
  "pb_close (plain_answers n) = None" "pb_chown (plain_answers n) = None"
  by (simp_all add: plain_answers_def)


definition full_disk :: filesystem where
  "full_disk = snd (adjustDisk (MaxDisk fs100 - CachedUsage fs100) fs100)"

lemma full_disk_ok: "within_limit full_disk" "CachedUsage full_disk = MaxDisk full_disk" "MaxDisk full_disk = 100"
  by code_simp+

definition chunked_params :: patch_params where
  "chunked_params = \<lparr>pa_offset = 3, pa_length = None, pa_complete = False, pa_max = 1048576, pa_contentLength = - 1, pa_body = [7, 8]\<rparr>"

lemma chunked_params_simps: "pa_body chunked_params = [7, 8]" "pa_offset chunked_params = 3" "pa_length chunked_params = None"
  "pa_contentLength chunked_params = - 1" "pa_max chunked_params = 1048576" "tk_directory sample_ticket = ''/''"
  by (simp_all add: chunked_params_def sample_ticket_def)


end
