(* ===== verification/Upload_System.thy ===== *)
theory Upload_System
  imports Upload_Patch
begin

text \<open>
  The upload routes with many requests at once. A request binds its token, acquires its admission
  and the lock of its file, and works; each of the three is a step, and the steps of different
  requests interleave. The state holds the three registries, the store of one-time tokens, the
  requests between their steps (the deferred releases of each), the files and the disk accounting
  of every server, and a log of the bindings and completions.
\<close>

section \<open>Steps\<close>

datatype upload_log = UBound string string string | UCompleted string

record 'c upload_sys =
  su_locks :: "string list"
  su_adm :: upload_admissions
  su_sessions :: upload_sessions
  su_cache :: 'c
  su_bound :: "(nat \<times> upload_ticket) list"
  su_running :: "(nat \<times> upload_ticket) list"
  su_files :: "string \<Rightarrow> string \<Rightarrow> target_state"
  su_disks :: "string \<Rightarrow> filesystem"
  su_clock :: int
  su_log :: "upload_log list"

datatype upload_event = UBind nat bool upload_env upload_request | UAcquire nat | UWork nat patch_answers

text \<open>The first step of both routes: the checks of the request and the binding.\<close>

definition upload_bind ::
  "upload_payload jwt_api \<Rightarrow> 'c cache_api \<Rightarrow> nat \<Rightarrow> bool \<Rightarrow> upload_env \<Rightarrow> upload_request \<Rightarrow> 'c upload_sys \<Rightarrow> upload_reply option \<times> 'c upload_sys" where
  "upload_bind api cache n head env rq st =
     (case upload_ticket_for api head env rq of
        Inl reply \<Rightarrow> (Some reply, st)
      | Inr (token, t) \<Rightarrow>
          (case bind cache (ue_now env) token (tk_server t) (tk_target t) (su_sessions st, su_cache st) of
             (b, sessions, c) \<Rightarrow>
               let st = st\<lparr>su_sessions := sessions, su_cache := c, su_clock := ue_now env\<rparr>
               in if \<not> b then (Some abortResumableUploadFile, st)
                  else (None, st\<lparr>su_bound := (n, t) # su_bound st,
                                 su_log := su_log st @ [UBound (tk_unique t) (tk_server t) (tk_target t)]\<rparr>)))"

definition upload_admit :: "nat \<Rightarrow> 'c upload_sys \<Rightarrow> upload_reply option \<times> 'c upload_sys" where
  "upload_admit n st =
     (case map_of (su_bound st) n of
        None \<Rightarrow> (None, st)
      | Some t \<Rightarrow>
          (case upload_acquire t (su_locks st, su_adm st) of
             (reply, locks, adm) \<Rightarrow>
               let st = st\<lparr>su_locks := locks, su_adm := adm, su_bound := AList.delete n (su_bound st)\<rparr>
               in (reply, if reply = None then st\<lparr>su_running := (n, t) # su_running st\<rparr> else st)))"

definition upload_leave :: "nat \<Rightarrow> upload_ticket \<Rightarrow> 'c upload_sys \<Rightarrow> 'c upload_sys" where
  "upload_leave n t st =
     (case upload_release t (su_locks st, su_adm st) of
        (locks, adm) \<Rightarrow> st\<lparr>su_locks := locks, su_adm := adm, su_running := AList.delete n (su_running st)\<rparr>)"

text \<open>The rest of \<^verbatim>\<open>headServerUploadFile\<close> and of \<^verbatim>\<open>patchServerUploadFile\<close>: the reply, the offset header and the deferred releases.\<close>

definition head_work :: "nat \<Rightarrow> upload_ticket \<Rightarrow> patch_answers \<Rightarrow> 'c upload_sys \<Rightarrow> (upload_reply \<times> int option) \<times> 'c upload_sys" where
  "head_work n t a st =
     ((case resumableUploadOffset a (su_files st (tk_server t) (tk_target t)) of
         None \<Rightarrow> (abortResumableUploadFile, None)
       | Some off \<Rightarrow> (Status 200 '''', Some off)), upload_leave n t st)"

definition patch_work ::
  "nat \<Rightarrow> upload_ticket \<Rightarrow> patch_params \<Rightarrow> patch_answers \<Rightarrow> 'c upload_sys \<Rightarrow> ((upload_reply \<times> int option) \<times> 'c upload_sys) option" where
  "patch_work n t p a st =
     (let s = tk_server t; f = tk_target t
      in case patch_body t p a (su_files st s f) (su_disks st s) of
           None \<Rightarrow> None
         | Some r \<Rightarrow>
             let st = st\<lparr>su_files := (su_files st)(s := (su_files st s)(f := pt_file r)), su_disks := (su_disks st)(s := pt_fs r)\<rparr>;
                 st = (if pt_completed r
                       then st\<lparr>su_sessions := retire (tk_unique t) s f (su_sessions st), su_log := su_log st @ [UCompleted (tk_unique t)]\<rparr>
                       else st)
             in Some ((pt_reply r, pt_offset r), upload_leave n t st))"

definition upload_step :: "upload_payload jwt_api \<Rightarrow> 'c cache_api \<Rightarrow> 'c upload_sys \<Rightarrow> upload_event \<Rightarrow> 'c upload_sys" where
  "upload_step api cache st e =
     (case e of
        UBind n head env rq \<Rightarrow> snd (upload_bind api cache n head env rq st)
      | UAcquire n \<Rightarrow> snd (upload_admit n st)
      | UWork n a \<Rightarrow>
          (case map_of (su_running st) n of
             None \<Rightarrow> st
           | Some t \<Rightarrow>
               (case tk_patch t of
                  None \<Rightarrow> snd (head_work n t a st)
                | Some p \<Rightarrow> (case patch_work n t p a st of None \<Rightarrow> st | Some (_, st) \<Rightarrow> st))))"

definition no_uploads :: "'c \<Rightarrow> (string \<Rightarrow> string \<Rightarrow> target_state) \<Rightarrow> (string \<Rightarrow> filesystem) \<Rightarrow> 'c upload_sys" where
  "no_uploads c files disks =
     \<lparr>su_locks = [],
      su_adm = newResumableUploadAdmissionRegistry maxConcurrentResumableUploads maxConcurrentResumableUploadsPerServer
                 maxConcurrentResumableUploadsPerToken,
      su_sessions = newResumableUploadSessionRegistry maxResumableUploadSessions maxResumableUploadSessionsPerServer,
      su_cache = c, su_bound = [], su_running = [], su_files = files, su_disks = disks, su_clock = zero_time, su_log = []\<rparr>"

text \<open>Requests have different numbers and the clock does not go back.\<close>

definition upload_event_ok :: "'c upload_sys \<Rightarrow> upload_event \<Rightarrow> bool" where
  "upload_event_ok st e =
     (case e of
        UBind n _ env _ \<Rightarrow> n \<notin> fst ` set (su_bound st) \<and> n \<notin> fst ` set (su_running st) \<and> su_clock st \<le> ue_now env
      | _ \<Rightarrow> True)"

section \<open>The registries describe the requests\<close>

definition patches :: "(nat \<times> upload_ticket) list \<Rightarrow> (string \<times> string) list" where
  "patches xs = map (\<lambda>(_, t). (tk_server t, tk_unique t)) (filter (\<lambda>(_, t). tk_patch t \<noteq> None) xs)"

definition ids_ok :: "(nat \<times> upload_ticket) list \<Rightarrow> (nat \<times> upload_ticket) list \<Rightarrow> bool" where
  "ids_ok bound running \<longleftrightarrow> distinct (map fst (bound @ running))"

lemma ids_ok_simps:
  "ids_ok bound running \<Longrightarrow> distinct (map fst bound) \<and> distinct (map fst running)"
  "ids_ok (ys @ e # zs) running \<Longrightarrow> ids_ok (ys @ zs) running \<and> ids_ok (ys @ zs) (e # running)"
  "ids_ok bound (ys @ e # zs) \<Longrightarrow> ids_ok bound (ys @ zs)"
  "ids_ok bound running \<Longrightarrow> n \<notin> fst ` set bound \<Longrightarrow> n \<notin> fst ` set running \<Longrightarrow> ids_ok ((n, t) # bound) running"
  by (auto simp: ids_ok_def)

definition limits_ok :: "'c upload_sys \<Rightarrow> bool" where
  "limits_ok st \<longleftrightarrow>
     ad_globalLimit (su_adm st) = maxConcurrentResumableUploads \<and> ad_perServerLimit (su_adm st) = maxConcurrentResumableUploadsPerServer \<and>
     ad_perTokenLimit (su_adm st) = maxConcurrentResumableUploadsPerToken \<and>
     sr_globalLimit (su_sessions st) = maxResumableUploadSessions \<and> sr_perServerLimit (su_sessions st) = maxResumableUploadSessionsPerServer"

definition uploads_ok :: "'c upload_sys \<Rightarrow> bool" where
  "uploads_ok st \<longleftrightarrow>
     limits_ok st \<and> zero_time \<le> su_clock st \<and> sessions_ok (su_sessions st) \<and> admissions_ok (patches (su_running st)) (su_adm st) \<and>
     su_locks st = map (lock_key \<circ> snd) (su_running st) \<and> distinct (su_locks st) \<and> length (su_locks st) \<le> maxResumableUploadLocks \<and>
     ids_ok (su_bound st) (su_running st)"

lemma delete_split:
  assumes "map_of xs n = Some t" "distinct (map fst xs)"
  obtains ys zs where "xs = ys @ (n, t) # zs" "AList.delete n xs = ys @ zs"
proof -
  from map_of_SomeD [OF assms(1)] obtain ys zs where "xs = ys @ (n, t) # zs" by (auto simp: in_set_conv_decomp)
  with assms(2) delete_middle [of ys n t zs] that show thesis by simp
qed

lemma upload_acquire_cases:
  assumes "upload_acquire t (locks, adm) = (reply, locks', adm')"
  obtains (Refused) "reply \<noteq> None" "locks' = locks" "adm' = adm"
  | (Undone) adm1 where "reply \<noteq> None" "locks' = locks" "tk_patch t \<noteq> None" "admission_acquire (tk_server t) (tk_unique t) adm = Some adm1"
      "adm' = admission_release (tk_server t) (tk_unique t) adm1"
  | (Head) "reply = None" "tk_patch t = None" "lock_acquire (lock_key t) locks = Some locks'" "adm' = adm"
  | (Patch) "reply = None" "tk_patch t \<noteq> None" "lock_acquire (lock_key t) locks = Some locks'"
      "admission_acquire (tk_server t) (tk_unique t) adm = Some adm'"
proof (cases "tk_patch t")
  case None
  with assms that show thesis by (cases "lock_acquire (lock_key t) locks") (auto simp: upload_acquire_def)
next
  case (Some p)
  show thesis
  proof (cases "admission_acquire (tk_server t) (tk_unique t) adm")
    case None
    with Some assms that(1) show thesis by (auto simp: upload_acquire_def)
  next
    case a: (Some adm1)
    with Some assms that(2,4) show thesis by (cases "lock_acquire (lock_key t) locks") (auto simp: upload_acquire_def)
  qed
qed

lemma admission_limits [simp]:
  "admission_acquire s t r = Some r' \<Longrightarrow> ad_globalLimit r' = ad_globalLimit r \<and> ad_perServerLimit r' = ad_perServerLimit r \<and> ad_perTokenLimit r' = ad_perTokenLimit r"
  "ad_globalLimit (admission_release s t r) = ad_globalLimit r" "ad_perServerLimit (admission_release s t r) = ad_perServerLimit r"
  "ad_perTokenLimit (admission_release s t r) = ad_perTokenLimit r"
  by (auto simp: admission_acquire_def admission_release_def Let_def split: if_splits)

lemma lock_acquireD:
  "lock_acquire k locks = Some locks' \<Longrightarrow> locks' = k # locks \<and> k \<notin> set locks \<and> Suc (length locks) \<le> maxResumableUploadLocks"
  by (auto simp: lock_acquire_def split: if_splits)

lemma upload_admit_ok:
  assumes "uploads_ok st"
  shows "uploads_ok (snd (upload_admit n st))"
proof (cases "map_of (su_bound st) n")
  case None
  with assms show ?thesis by (simp add: upload_admit_def)
next
  case (Some t)
  obtain reply locks adm where acq: "upload_acquire t (su_locks st, su_adm st) = (reply, locks, adm)" by (metis prod_cases3)
  have adm_ok: "admissions_ok (patches (su_running st)) (su_adm st)" using assms by (simp add: uploads_ok_def)
  have ids: "ids_ok (su_bound st) (su_running st)" using assms by (simp add: uploads_ok_def)
  then have "distinct (map fst (su_bound st))" by (simp add: ids_ok_simps)
  with Some obtain ys zs where split: "su_bound st = ys @ (n, t) # zs" "AList.delete n (su_bound st) = ys @ zs" by (rule delete_split)
  have ids': "ids_ok (ys @ zs) (su_running st)" "ids_ok (ys @ zs) ((n, t) # su_running st)" using ids ids_ok_simps(2) by (simp_all add: split(1))
  have new: "patches ((n, t) # su_running st) = (if tk_patch t = None then patches (su_running st) else (tk_server t, tk_unique t) # patches (su_running st))"
    by (auto simp: patches_def)
  from acq show ?thesis
  proof (cases rule: upload_acquire_cases)
    case (Undone adm1)
    note ok1 = admission_acquire_ok [OF adm_ok Undone(4)]
    from admission_release_ok [OF ok1 refl] Undone Some acq assms ids' split(2) show ?thesis
      by (auto simp: upload_admit_def uploads_ok_def limits_ok_def)
  next
    case Head
    with lock_acquireD [OF Head(3)] new Some acq assms ids' split(2) show ?thesis by (auto simp: upload_admit_def uploads_ok_def limits_ok_def)
  next
    case Patch
    with lock_acquireD [OF Patch(3)] new Some acq assms ids' split(2) admission_acquire_ok [OF adm_ok Patch(4)] show ?thesis
      by (auto simp: upload_admit_def uploads_ok_def limits_ok_def)
  qed (use Some acq assms ids' split(2) in \<open>auto simp: upload_admit_def uploads_ok_def limits_ok_def\<close>)
qed

lemma upload_leave_ok:
  assumes "uploads_ok st" "map_of (su_running st) n = Some t"
  shows "uploads_ok (upload_leave n t st)"
proof -
  have ids: "ids_ok (su_bound st) (su_running st)" using assms(1) by (simp add: uploads_ok_def)
  then have "distinct (map fst (su_running st))" by (simp add: ids_ok_simps)
  with assms(2) obtain ys zs where split: "su_running st = ys @ (n, t) # zs" "AList.delete n (su_running st) = ys @ zs" by (rule delete_split)
  have locks: "lock_release (lock_key t) (su_locks st) = map (lock_key \<circ> snd) (ys @ zs)"
    using assms(1) split(1) by (auto simp: uploads_ok_def lock_release_def removeAll_id)
  have adm: "admissions_ok (patches (ys @ zs)) (if tk_patch t = None then su_adm st else admission_release (tk_server t) (tk_unique t) (su_adm st))"
  proof (cases "tk_patch t")
    case None
    with assms(1) split(1) show ?thesis by (simp add: uploads_ok_def patches_def)
  next
    case (Some p)
    then have "mset (patches (su_running st)) = mset ((tk_server t, tk_unique t) # patches (ys @ zs))" by (simp add: split(1) patches_def)
    with admission_release_ok [of "patches (su_running st)"] assms(1) Some show ?thesis by (simp add: uploads_ok_def)
  qed
  have "length (ys @ zs) \<le> maxResumableUploadLocks" "distinct (map (lock_key \<circ> snd) (ys @ zs))"
    using assms(1) by (clarsimp simp: uploads_ok_def split(1))+
  moreover have "ids_ok (su_bound st) (ys @ zs)" using ids ids_ok_simps(3) by (simp add: split(1))
  ultimately show ?thesis
    using locks adm assms(1) by (simp add: upload_leave_def upload_release_def uploads_ok_def limits_ok_def split(2))
qed

lemma upload_bind_ok:
  assumes "uploads_ok st" "upload_event_ok st (UBind n head env rq)"
  shows "uploads_ok (snd (upload_bind api cache n head env rq st))"
proof (cases "upload_ticket_for api head env rq")
  case (Inl e)
  with assms show ?thesis by (simp add: upload_bind_def)
next
  case (Inr tt)
  obtain token t where tt: "tt = (token, t)" by fastforce
  obtain b r c where bd: "bind cache (ue_now env) token (tk_server t) (tk_target t) (su_sessions st, su_cache st) = (b, r, c)" by (metis prod_cases3)
  have "zero_time \<le> ue_now env" "sessions_ok (su_sessions st)" using assms by (auto simp: uploads_ok_def upload_event_ok_def)
  with bind_ok [OF _ _ bd] assms Inr tt bd show ?thesis
    by (auto simp: upload_bind_def uploads_ok_def limits_ok_def upload_event_ok_def Let_def ids_ok_simps(4))
qed

lemma retire_limits [simp]: "sr_globalLimit (retire i s t r) = sr_globalLimit r" "sr_perServerLimit (retire i s t r) = sr_perServerLimit r"
  by (simp_all add: retire_def split: option.split)

lemma upload_step_ok:
  assumes "uploads_ok st" "upload_event_ok st e"
  shows "uploads_ok (upload_step api cache st e)"
proof (cases e)
  case (UWork n a)
  show ?thesis
  proof (cases "map_of (su_running st) n")
    case (Some t)
    have leave: "uploads_ok (upload_leave n t st')"
      if "su_running st' = su_running st" "su_bound st' = su_bound st" "su_locks st' = su_locks st" "su_adm st' = su_adm st"
        "su_clock st' = su_clock st" "su_sessions st' = su_sessions st \<or> su_sessions st' = retire (tk_unique t) (tk_server t) (tk_target t) (su_sessions st)" for st' :: "'a upload_sys"
      by (rule upload_leave_ok) (use that assms(1) Some retire_ok in \<open>auto simp: uploads_ok_def limits_ok_def\<close>)
    show ?thesis
      using UWork Some assms(1) by (auto simp: upload_step_def head_work_def patch_work_def Let_def split: option.split intro!: leave)
  qed (use UWork assms(1) in \<open>simp add: upload_step_def\<close>)
qed (use assms upload_bind_ok upload_admit_ok in \<open>simp_all add: upload_step_def\<close>)

interpretation ups: step_system "upload_step api cache" upload_event_ok uploads_ok
  by unfold_locales (rule upload_step_ok)

lemma no_uploads_ok: "uploads_ok (no_uploads c files disks)"
  by (simp add: uploads_ok_def no_uploads_def limits_ok_def newResumableUploadAdmissionRegistry_def newResumableUploadSessionRegistry_def
      sessions_ok_def admissions_ok_def patches_def expiry_bound_def count_of_def ids_ok_def maxConcurrentResumableUploads_def
      maxConcurrentResumableUploadsPerServer_def maxConcurrentResumableUploadsPerToken_def maxResumableUploadSessions_def
      maxResumableUploadSessionsPerServer_def)

lemma length_filter_mono: "(\<And>x. P x \<Longrightarrow> Q x) \<Longrightarrow> length (filter P xs) \<le> length (filter Q xs)"
  by (induction xs) auto

lemma distinct_map_weaken: "distinct (map f xs) \<Longrightarrow> (\<And>x y. g x = g y \<Longrightarrow> f x = f y) \<Longrightarrow> distinct (map g xs)"
  unfolding distinct_map inj_on_def by blast


section \<open>A token writes one file\<close>

text \<open>\<open>E\<close> gives the expiry of the token with each unique id: the panel gives every token its own id.\<close>

definition expiry_known :: "upload_payload jwt_api \<Rightarrow> (string \<Rightarrow> int) \<Rightarrow> upload_event \<Rightarrow> bool" where
  "expiry_known api E e =
     (case e of
        UBind n head env rq \<Rightarrow>
          (case upload_ticket_for api head env rq of
             Inl _ \<Rightarrow> True
           | Inr (token, _) \<Rightarrow> jp_expires (up_payload token) = Some (E (up_unique token)))
      | _ \<Rightarrow> True)"

definition log_consistent :: "upload_log list \<Rightarrow> bool" where
  "log_consistent L \<longleftrightarrow>
     (\<forall>i s t s' t'. UBound i s t \<in> set L \<and> UBound i s' t' \<in> set L \<longrightarrow> s' = s \<and> t' = t) \<and>
     (\<forall>xs i ys s t. L = xs @ UCompleted i # ys \<longrightarrow> UBound i s t \<notin> set ys)"

lemma log_consistentD:
  "log_consistent L \<Longrightarrow> UBound i s t \<in> set L \<Longrightarrow> UBound i s' t' \<in> set L \<Longrightarrow> s' = s \<and> t' = t"
  "log_consistent (xs @ UCompleted i # ys) \<Longrightarrow> UBound i s t \<notin> set ys"
  unfolding log_consistent_def by blast+

lemma log_consistentI:
  assumes "\<And>i s t s' t'. UBound i s t \<in> set L \<Longrightarrow> UBound i s' t' \<in> set L \<Longrightarrow> s' = s \<and> t' = t"
    "\<And>xs i ys s t. L = xs @ UCompleted i # ys \<Longrightarrow> UBound i s t \<in> set ys \<Longrightarrow> False"
  shows "log_consistent L"
  using assms unfolding log_consistent_def by blast

lemma snoc_split:
  assumes "L @ [e] = xs @ c # ys" "b \<in> set ys"
  obtains zs where "ys = zs @ [e]" "L = xs @ c # zs"
  using assms by (cases ys rule: rev_cases) auto

lemma log_consistent_bound:
  assumes "log_consistent L" "UCompleted i \<notin> set L" "\<And>s' t'. UBound i s' t' \<in> set L \<Longrightarrow> s' = s \<and> t' = t"
  shows "log_consistent (L @ [UBound i s t])"
proof (rule log_consistentI)
  fix xs j ys s' t'
  assume "L @ [UBound i s t] = xs @ UCompleted j # ys" and m: "UBound j s' t' \<in> set ys"
  then obtain zs where zs: "ys = zs @ [UBound i s t]" "L = xs @ UCompleted j # zs" by (rule snoc_split)
  with assms(2) have "j \<noteq> i" by auto
  with m zs have "UBound j s' t' \<in> set zs" by simp
  with log_consistentD(2) assms(1) zs(2) show False by simp
next
  fix j a b a' b'
  assume "UBound j a b \<in> set (L @ [UBound i s t])" "UBound j a' b' \<in> set (L @ [UBound i s t])"
  with assms(3) [of a b] assms(3) [of a' b'] log_consistentD(1) [OF assms(1), of j a b a' b'] show "a' = a \<and> b' = b" by auto
qed

lemma log_consistent_completed:
  assumes "log_consistent L"
  shows "log_consistent (L @ [UCompleted i])"
proof (rule log_consistentI)
  fix xs j ys s t
  assume "L @ [UCompleted i] = xs @ UCompleted j # ys" and m: "UBound j s t \<in> set ys"
  then obtain zs where zs: "ys = zs @ [UCompleted i]" "L = xs @ UCompleted j # zs" by (rule snoc_split)
  with m have "UBound j s t \<in> set zs" by simp
  with log_consistentD(2) assms zs(2) show False by simp
qed (use log_consistentD(1) [OF assms] in auto)

definition session_at :: "'c upload_sys \<Rightarrow> string \<Rightarrow> upload_session option" where
  "session_at st i = map_of (sr_sessions (su_sessions st)) i"

definition binding_kept :: "int \<Rightarrow> int \<Rightarrow> upload_session option \<Rightarrow> string \<Rightarrow> string \<Rightarrow> bool" where
  "binding_kept e clock x s t \<longleftrightarrow> e \<le> clock \<or> (case x of None \<Rightarrow> False | Some x \<Rightarrow> us_consumed x \<or> us_server x = s \<and> us_target x = t)"

definition binding_over :: "int \<Rightarrow> int \<Rightarrow> upload_session option \<Rightarrow> bool" where
  "binding_over e clock x \<longleftrightarrow> e \<le> clock \<or> (case x of None \<Rightarrow> False | Some x \<Rightarrow> us_consumed x)"

definition token_inv :: "(string \<Rightarrow> int) \<Rightarrow> 'c upload_sys \<Rightarrow> bool" where
  "token_inv E st \<longleftrightarrow>
     (\<forall>n t. (n, t) \<in> set (su_bound st) \<union> set (su_running st) \<longrightarrow> UBound (tk_unique t) (tk_server t) (tk_target t) \<in> set (su_log st)) \<and>
     (\<forall>i x. session_at st i = Some x \<longrightarrow> us_expires x = E i) \<and>
     (\<forall>i s t. UBound i s t \<in> set (su_log st) \<longrightarrow> binding_kept (E i) (su_clock st) (session_at st i) s t) \<and>
     (\<forall>i. UCompleted i \<in> set (su_log st) \<longrightarrow> binding_over (E i) (su_clock st) (session_at st i)) \<and>
     log_consistent (su_log st)"

definition unexpired :: "int \<Rightarrow> upload_session option \<Rightarrow> upload_session option" where
  "unexpired now x = (case x of None \<Rightarrow> None | Some y \<Rightarrow> if now < us_expires y then Some y else None)"

lemma session_pruned_iff:
  assumes "sessions_ok r"
  shows "map_of (sr_sessions (pruneExpired now r)) i = Some x \<longleftrightarrow> map_of (sr_sessions r) i = Some x \<and> now < us_expires x"
proof -
  have d: "distinct (map fst (sr_sessions r))" "distinct (map fst (pruned now r))"
    using assms by (auto simp: sessions_ok_def pruned_def distinct_map_filter)
  have s: "sr_sessions (pruneExpired now r) = pruned now r" using pruneExpired_exact [OF assms] by blast
  show ?thesis
    unfolding s map_of_eq_Some_iff [OF d(1)] map_of_eq_Some_iff [OF d(2)] by (auto simp: pruned_def)
qed

lemma unexpired_iff: "unexpired now x = Some y \<longleftrightarrow> x = Some y \<and> now < us_expires y"
  by (cases x) (auto simp: unexpired_def)

lemma session_pruned:
  assumes "sessions_ok r"
  shows "map_of (sr_sessions (pruneExpired now r)) i = unexpired now (map_of (sr_sessions r) i)"
proof (cases "unexpired now (map_of (sr_sessions r) i)")
  case None
  have "map_of (sr_sessions (pruneExpired now r)) i \<noteq> Some y" for y
    using None unexpired_iff [of now "map_of (sr_sessions r) i" y] session_pruned_iff [OF assms, of now i y] by simp
  then have "map_of (sr_sessions (pruneExpired now r)) i = None" by (metis not_None_eq)
  with None show ?thesis by simp
next
  case (Some y)
  then have "map_of (sr_sessions (pruneExpired now r)) i = Some y"
    unfolding unexpired_iff session_pruned_iff [OF assms] .
  with Some show ?thesis by simp
qed

lemma session_retired:
  "map_of (sr_sessions (retire i s t r)) j =
     (case map_of (sr_sessions r) j of
        None \<Rightarrow> None
      | Some x \<Rightarrow> if j = i \<and> \<not> us_consumed x \<and> us_server x = s \<and> us_target x = t then Some (x\<lparr>us_target := '''', us_consumed := True\<rparr>) else Some x)"
  by (auto simp: retire_def AList.update_conv' split: option.split)

lemma ticket_token:
  "upload_ticket_for api head env rq = Inr (token, t) \<Longrightarrow> tk_unique t = up_unique token \<and> tk_server t = up_server token"
  by (auto simp: upload_ticket_for_def rbind_Inr_iff)

lemma kept_later:
  assumes "clock \<le> now" "\<And>y. x = Some y \<Longrightarrow> us_expires y = e"
  shows "binding_kept e clock x s t \<Longrightarrow> binding_kept e now (unexpired now x) s t"
    "binding_over e clock x \<Longrightarrow> binding_over e now (unexpired now x)"
  using assms by (auto simp: binding_kept_def binding_over_def unexpired_def split: option.splits)

lemma token_invD:
  assumes "token_inv E st"
  shows "(n, t) \<in> set (su_bound st) \<union> set (su_running st) \<Longrightarrow> UBound (tk_unique t) (tk_server t) (tk_target t) \<in> set (su_log st)"
    "session_at st i = Some x \<Longrightarrow> us_expires x = E i"
    "UBound i s f \<in> set (su_log st) \<Longrightarrow> binding_kept (E i) (su_clock st) (session_at st i) s f"
    "UCompleted i \<in> set (su_log st) \<Longrightarrow> binding_over (E i) (su_clock st) (session_at st i)"
    "log_consistent (su_log st)"
  using assms unfolding token_inv_def by blast+

lemma token_invI:
  assumes "\<And>n t. (n, t) \<in> set (su_bound st) \<union> set (su_running st) \<Longrightarrow> UBound (tk_unique t) (tk_server t) (tk_target t) \<in> set (su_log st)"
    "\<And>i x. session_at st i = Some x \<Longrightarrow> us_expires x = E i"
    "\<And>i s f. UBound i s f \<in> set (su_log st) \<Longrightarrow> binding_kept (E i) (su_clock st) (session_at st i) s f"
    "\<And>i. UCompleted i \<in> set (su_log st) \<Longrightarrow> binding_over (E i) (su_clock st) (session_at st i)"
    "log_consistent (su_log st)"
  shows "token_inv E st"
  using assms unfolding token_inv_def by blast

text \<open>The clock moves on and the expired sessions are dropped.\<close>

lemma token_inv_pruned:
  assumes inv: "token_inv E st" and ok: "sessions_ok (su_sessions st)" and now: "su_clock st \<le> now"
  shows "token_inv E (st\<lparr>su_sessions := pruneExpired now (su_sessions st), su_cache := c, su_clock := now\<rparr>)"
proof -
  let ?st = "st\<lparr>su_sessions := pruneExpired now (su_sessions st), su_cache := c, su_clock := now\<rparr>"
  have at: "session_at ?st i = unexpired now (session_at st i)" for i
    using session_pruned [OF ok] by (simp add: session_at_def)
  show ?thesis
  proof (rule token_invI)
    show "us_expires x = E i" if "session_at ?st i = Some x" for i x
      using that token_invD(2) [OF inv] unfolding at by (auto simp: unexpired_def split: option.splits if_splits)
    show "binding_kept (E i) (su_clock ?st) (session_at ?st i) s f" if "UBound i s f \<in> set (su_log ?st)" for i s f
      using that kept_later(1) [OF now token_invD(2) [OF inv]] token_invD(3) [OF inv] unfolding at by simp
    show "binding_over (E i) (su_clock ?st) (session_at ?st i)" if "UCompleted i \<in> set (su_log ?st)" for i
      using that kept_later(2) [OF now token_invD(2) [OF inv]] token_invD(4) [OF inv] unfolding at by simp
  qed (use token_invD(1,5) [OF inv] in auto)
qed

text \<open>A request for the token's file is bound; \<open>x\<close> is the session it has afterwards.\<close>

lemma token_inv_bound:
  assumes inv: "token_inv E st" and exp: "su_clock st < E (tk_unique t)"
    and old: "\<And>j. j \<noteq> tk_unique t \<Longrightarrow> map_of (sr_sessions sessions) j = session_at st j"
    and new: "map_of (sr_sessions sessions) (tk_unique t) = Some x" "us_expires x = E (tk_unique t)" "\<not> us_consumed x"
      "us_server x = tk_server t" "us_target x = tk_target t"
    and same: "session_at st (tk_unique t) = None \<or> session_at st (tk_unique t) = Some x"
  shows "token_inv E (st\<lparr>su_sessions := sessions, su_bound := (n, t) # su_bound st,
    su_log := su_log st @ [UBound (tk_unique t) (tk_server t) (tk_target t)]\<rparr>)"
proof -
  let ?i = "tk_unique t"
  have at: "session_at (st\<lparr>su_sessions := sessions, su_bound := b, su_log := l\<rparr>) j = (if j = ?i then Some x else session_at st j)" for j b l
    using old new(1) by (simp add: session_at_def)
  have none: "UCompleted ?i \<notin> set (su_log st)"
    using token_invD(4) [OF inv, of ?i] exp same new(3) by (auto simp: binding_over_def)
  have agree: "s = tk_server t \<and> f = tk_target t" if "UBound ?i s f \<in> set (su_log st)" for s f
    using token_invD(3) [OF inv that] exp same new(3-5) by (auto simp: binding_kept_def)
  show ?thesis
  proof (rule token_invI, goal_cases)
    case (1 m u)
    then show ?case using token_invD(1) [OF inv, of m u] by auto
  next
    case (2 i y)
    then show ?case using token_invD(2) [OF inv, of i y] new(2) by (auto simp: at split: if_splits)
  next
    case (3 i s f)
    then show ?case using token_invD(3) [OF inv, of i s f] agree [of s f] new(3-5) by (auto simp: at binding_kept_def)
  next
    case (4 i)
    then show ?case using token_invD(4) [OF inv, of i] none by (auto simp: at)
  next
    case 5
    then show ?case using log_consistent_bound [OF token_invD(5) [OF inv] none agree] by simp
  qed
qed

lemma upload_bind_token_inv:
  assumes inv: "token_inv E st" and ok: "uploads_ok st" and ev: "upload_event_ok st (UBind n head env rq)" "expiry_known api E (UBind n head env rq)"
  shows "token_inv E (snd (upload_bind api cache n head env rq st))"
proof (cases "upload_ticket_for api head env rq")
  case (Inl e)
  with inv show ?thesis by (simp add: upload_bind_def)
next
  case (Inr tt)
  obtain token t where tt: "tt = (token, t)" by fastforce
  note tk = ticket_token [OF Inr [unfolded tt]]
  obtain b r c where bd: "bind cache (ue_now env) token (tk_server t) (tk_target t) (su_sessions st, su_cache st) = (b, r, c)" by (metis prod_cases3)
  let ?now = "ue_now env"
  let ?p = "st\<lparr>su_sessions := pruneExpired ?now (su_sessions st), su_cache := c, su_clock := ?now\<rparr>"
  have clock: "su_clock st \<le> ?now" and sok: "sessions_ok (su_sessions st)" using ev(1) ok by (auto simp: upload_event_ok_def uploads_ok_def)
  note pinv = token_inv_pruned [OF inv sok clock, of c]
  have step: "snd (upload_bind api cache n head env rq st) =
      (if b then st\<lparr>su_sessions := r, su_cache := c, su_clock := ?now, su_bound := (n, t) # su_bound st,
                    su_log := su_log st @ [UBound (tk_unique t) (tk_server t) (tk_target t)]\<rparr>
       else st\<lparr>su_sessions := r, su_cache := c, su_clock := ?now\<rparr>)"
    using bd by (simp add: upload_bind_def Inr tt Let_def)
  have order: "st\<lparr>su_sessions := r, su_cache := c, su_clock := ?now, su_bound := bs, su_log := l\<rparr> =
      st\<lparr>su_cache := c, su_clock := ?now, su_sessions := r, su_bound := bs, su_log := l\<rparr>" for bs l by (cases st) simp
  have bound: "token_inv E (snd (upload_bind api cache n head env rq st))"
    if "b" "?now < E (tk_unique t)" "\<And>j. j \<noteq> tk_unique t \<Longrightarrow> map_of (sr_sessions r) j = session_at ?p j"
      "map_of (sr_sessions r) (tk_unique t) = Some x" "us_expires x = E (tk_unique t)" "\<not> us_consumed x"
      "us_server x = tk_server t" "us_target x = tk_target t" "session_at ?p (tk_unique t) = None \<or> session_at ?p (tk_unique t) = Some x" for x
    using token_inv_bound [OF pinv _ that(3-9), of n] that(1,2) by (simp add: step order)
  from bd show ?thesis
  proof (cases rule: bind_cases)
    case (Found x)
    have x: "session_at ?p (tk_unique t) = Some x" using Found(1) tk by (simp add: session_at_def)
    show ?thesis
    proof (cases b)
      case True
      have "?now < us_expires x" using Found(1) session_pruned_iff [OF sok, of ?now "up_unique token"] by simp
      moreover have "us_expires x = E (tk_unique t)" by (rule token_invD(2) [OF pinv x])
      ultimately show ?thesis using True Found x tk by (intro bound [of x]) (auto simp: session_at_def)
    qed (use Found(3) pinv step in simp)
  next
    case Refused
    with pinv step show ?thesis by simp
  next
    case (Created e)
    have "e = E (tk_unique t)" using ev(2) Created(5) tk by (simp add: expiry_known_def Inr tt)
    with Created tk show ?thesis
      by (intro bound [of "\<lparr>us_server = tk_server t, us_target = tk_target t, us_expires = e, us_consumed = False\<rparr>"])
        (auto simp: bound_session_def earlier_expiry_def session_at_def AList.update_conv')
  qed
qed

lemma upload_admit_token_inv:
  assumes "token_inv E st"
  shows "token_inv E (snd (upload_admit n st))"
proof (cases "map_of (su_bound st) n")
  case (Some t)
  obtain reply locks adm where acq: "upload_acquire t (su_locks st, su_adm st) = (reply, locks, adm)" by (metis prod_cases3)
  have "(n, t) \<in> set (su_bound st)" by (rule map_of_SomeD [OF Some])
  moreover have "set (AList.delete n (su_bound st)) \<subseteq> set (su_bound st)" by (auto simp: AList.delete_eq)
  ultimately have sub: "set (su_bound (snd (upload_admit n st))) \<union> set (su_running (snd (upload_admit n st))) \<subseteq> set (su_bound st) \<union> set (su_running st)"
    by (auto simp: upload_admit_def Some acq Let_def)
  have same: "su_log (snd (upload_admit n st)) = su_log st" "su_clock (snd (upload_admit n st)) = su_clock st"
    "session_at (snd (upload_admit n st)) i = session_at st i" for i
    by (simp_all add: upload_admit_def Some acq Let_def session_at_def)
  show ?thesis
    using sub token_invD [OF assms] by (intro token_invI) (auto simp only: same Un_iff subset_iff)
qed (use assms in \<open>simp add: upload_admit_def\<close>)

lemma upload_leave_token_inv:
  assumes "token_inv E st"
  shows "token_inv E (upload_leave n t st)"
proof -
  have "set (AList.delete n (su_running st)) \<subseteq> set (su_running st)" by (auto simp: AList.delete_eq)
  then have sub: "set (su_bound (upload_leave n t st)) \<union> set (su_running (upload_leave n t st)) \<subseteq> set (su_bound st) \<union> set (su_running st)"
    by (auto simp: upload_leave_def case_prod_beta)
  have same: "su_log (upload_leave n t st) = su_log st" "su_clock (upload_leave n t st) = su_clock st"
    "session_at (upload_leave n t st) i = session_at st i" for i
    by (simp_all add: upload_leave_def case_prod_beta session_at_def)
  show ?thesis
    using sub token_invD [OF assms] by (intro token_invI) (auto simp only: same Un_iff subset_iff)
qed

lemma token_inv_completed:
  assumes inv: "token_inv E st" and t: "UBound (tk_unique t) (tk_server t) (tk_target t) \<in> set (su_log st)"
  shows "token_inv E (st\<lparr>su_sessions := retire (tk_unique t) (tk_server t) (tk_target t) (su_sessions st), su_log := su_log st @ [UCompleted (tk_unique t)]\<rparr>)"
    (is "token_inv E ?st")
proof -
  let ?i = "tk_unique t"
  have at: "session_at ?st j = (case session_at st j of None \<Rightarrow> None
      | Some x \<Rightarrow> if j = ?i \<and> \<not> us_consumed x \<and> us_server x = tk_server t \<and> us_target x = tk_target t
                  then Some (x\<lparr>us_target := '''', us_consumed := True\<rparr>) else Some x)" for j
    using session_retired [of ?i "tk_server t" "tk_target t"] by (simp add: session_at_def)
  show ?thesis
  proof (rule token_invI, goal_cases)
    case (1 m u)
    then show ?case using token_invD(1) [OF inv, of m u] by auto
  next
    case (2 i y)
    then show ?case using token_invD(2) [OF inv, of i] unfolding at by (auto split: option.splits if_splits)
  next
    case (3 i s f)
    then have "UBound i s f \<in> set (su_log st)" by simp
    from token_invD(3) [OF inv this] show ?case unfolding at by (auto simp: binding_kept_def split: option.splits)
  next
    case (4 i)
    show ?case
    proof (cases "i = ?i")
      case True
      with token_invD(3) [OF inv t] show ?thesis unfolding at by (auto simp: binding_kept_def binding_over_def split: option.splits)
    next
      case False
      with 4 token_invD(4) [OF inv, of i] show ?thesis unfolding at by (auto simp: binding_over_def split: option.splits)
    qed
  next
    case 5
    then show ?case using log_consistent_completed [OF token_invD(5) [OF inv]] by simp
  qed
qed

lemma token_inv_files: "token_inv E (st\<lparr>su_files := f, su_disks := d\<rparr>) \<longleftrightarrow> token_inv E st"
  by (simp add: token_inv_def session_at_def)

lemma upload_step_token_inv:
  assumes "token_inv E st" "uploads_ok st" "upload_event_ok st e" "expiry_known api E e"
  shows "token_inv E (upload_step api cache st e)"
proof (cases e)
  case (UWork n a)
  show ?thesis
  proof (cases "map_of (su_running st) n")
    case (Some t)
    have "UBound (tk_unique t) (tk_server t) (tk_target t) \<in> set (su_log st)"
      using token_invD(1) [OF assms(1), of n t] map_of_SomeD [OF Some] by simp
    then have compl: "token_inv E (upload_leave n t
        (st\<lparr>su_files := f, su_disks := d, su_sessions := retire (tk_unique t) (tk_server t) (tk_target t) (su_sessions st),
            su_log := su_log st @ [UCompleted (tk_unique t)]\<rparr>))" for f d
      using token_inv_completed [of E "st\<lparr>su_files := f, su_disks := d\<rparr>" t] assms(1)
      by (intro upload_leave_token_inv) (simp add: token_inv_files)
    show ?thesis
      using UWork Some assms(1) compl
      by (auto simp: upload_step_def head_work_def patch_work_def Let_def token_inv_files split: option.split intro!: upload_leave_token_inv)
  qed (use UWork assms(1) in \<open>simp add: upload_step_def\<close>)
qed (use assms upload_bind_token_inv upload_admit_token_inv in \<open>simp_all add: upload_step_def\<close>)

interpretation upt: step_system "upload_step api cache" "\<lambda>st e. upload_event_ok st e \<and> expiry_known api E e" "\<lambda>st. uploads_ok st \<and> token_inv E st"
  by unfold_locales (auto intro: upload_step_ok upload_step_token_inv)

text \<open>
  C16. A token writes one file. Tokens with one unique id have one expiry, requests have different
  numbers and the clock does not go back. In any interleaving of requests, all requests that a token
  was accepted for name the same file of the same server, and after an upload with the token has been
  completed it is not accepted again: its session stays until the token has expired.
\<close>

theorem upload_token_one_file:
  assumes "allowed_run (upload_step api cache) (\<lambda>st e. upload_event_ok st e \<and> expiry_known api E e) (no_uploads c files disks) es"
    and "L = su_log (foldl (upload_step api cache) (no_uploads c files disks) es)"
  shows "(\<forall>i s t s' t'. UBound i s t \<in> set L \<and> UBound i s' t' \<in> set L \<longrightarrow> s' = s \<and> t' = t) \<and>
    (\<forall>xs i ys s t. L = xs @ UCompleted i # ys \<longrightarrow> UBound i s t \<notin> set ys)"
proof -
  have "token_inv E (no_uploads c files disks)"
    by (simp add: token_inv_def no_uploads_def session_at_def newResumableUploadSessionRegistry_def log_consistent_def)
  with upt.run_keeps [of "no_uploads c files disks" E api cache es] no_uploads_ok [of c files disks] assms(1)
  have "token_inv E (foldl (upload_step api cache) (no_uploads c files disks) es)" by simp
  from token_invD(5) [OF this] assms(2) show ?thesis by (simp add: log_consistent_def)
qed

text \<open>
  A run with the upload of \<open>Upload_Patch\<close>: the request is bound, admitted and completes the file; a
  second request with the token, admitted before the completion, finds it locked; a third is refused.
\<close>

definition sample_upload_jwt :: "upload_payload jwt_api" where
  "sample_upload_jwt =
     \<lparr>jv_verify = (\<lambda>tok ok. if ok sample_upload then Inr sample_upload else Inl VerifyExp),
      jv_exp_valid = (\<lambda>now e. case e of Some x \<Rightarrow> now < x | None \<Rightarrow> False)\<rparr>"

definition sample_uploads_before :: "(string \<times> int) list upload_sys" where
  "sample_uploads_before = no_uploads [] (\<lambda>_ _. TFile [1, 2]) (\<lambda>_. fs100)"

definition sample_upload_events :: "upload_event list" where
  "sample_upload_events =
     [UBind 1 False sample_upload_env sample_upload_request, UAcquire 1, UBind 2 False sample_upload_env sample_upload_request, UAcquire 2,
      UWork 1 (plain_answers 2), UBind 3 False sample_upload_env sample_upload_request]"

lemma sample_uploads_allowed:
  "allowed_run (upload_step sample_upload_jwt list_cache) (\<lambda>st e. upload_event_ok st e \<and> expiry_known sample_upload_jwt (\<lambda>_. 2 * one_hour) e)
     sample_uploads_before sample_upload_events"
  by code_simp

lemma sample_uploads_log:
  "su_log (foldl (upload_step sample_upload_jwt list_cache) sample_uploads_before sample_upload_events) =
     [UBound ''id'' ''s'' ''/f'', UBound ''id'' ''s'' ''/f'', UCompleted ''id'']"
  by code_simp

lemma sample_uploads_working:
  "patches (su_running (foldl (upload_step sample_upload_jwt list_cache) sample_uploads_before (take 4 sample_upload_events))) = [(''s'', ''id'')]"
  by code_simp

lemma sample_uploads_working_allowed:
  "allowed_run (upload_step sample_upload_jwt list_cache) upload_event_ok sample_uploads_before (take 4 sample_upload_events)"
  by code_simp


theorem upload_token_one_file_witness:
  "UBound ''id'' ''s'' ''/g'' \<notin> set (su_log (foldl (upload_step sample_upload_jwt list_cache) sample_uploads_before sample_upload_events)) \<and>
   su_log (foldl (upload_step sample_upload_jwt list_cache) sample_uploads_before sample_upload_events) \<noteq> []"
  using upload_token_one_file [OF sample_uploads_allowed [unfolded sample_uploads_before_def] refl]
  unfolding sample_uploads_before_def [symmetric] sample_uploads_log
  by (auto dest!: conjunct1 spec [of _ "''id''"])

end
