(* ===== verification/Spec2Isabelle.thy ===== *)
theory Spec2Isabelle
  imports Disk_Writers Ufs_Paths Power_Actions Net_Inbound Collab_Sessions Ws_Events Upload_System
begin

text \<open>
  \<^bold>\<open>The daemon of a game server panel.\<close> The daemon runs the servers of many users as Docker
  containers on one machine. The panel and the users' browsers reach it over HTTP and websockets
  with signed tokens. It confines each server to its directory and disk limit, filters its network
  traffic, starts and stops it, relays its console, and lets users edit and upload files. This
  library models the parts in which the daemon takes decisions of its own and states what makes
  them correct. Paths below are relative to \<^verbatim>\<open>src/\<close>.

  \<^bold>\<open>Foundations.\<close>

  \<^item> \<open>Wings_Prelude\<close>: results with an error, 64-bit integers with wrap-around, loops with an early
    return, and the locales \<open>step_system\<close> and \<open>step_relation\<close>, which carry an invariant from
    one step to every run. Each concurrent component interprets one of them.
  \<^item> \<open>Go_Strings\<close>, \<open>Net_Addr\<close>: what the code uses of Go's \<^verbatim>\<open>strings\<close>, \<^verbatim>\<open>path\<close>, \<^verbatim>\<open>unicode/utf8\<close> and
    \<^verbatim>\<open>net/netip\<close> packages.

  \<^bold>\<open>Files of a server.\<close>

  \<^item> \<open>Disk_Quota\<close> (\<^verbatim>\<open>internal/ufs/fs_quota.go\<close>, \<^verbatim>\<open>server/filesystem/disk_space.go\<close>): the record
    \<open>quota\<close> and the record \<open>filesystem\<close> around it, reservations, releases, removals and disk
    walks. Shown: the usage stays between zero and the limit whatever interleaves; a walk beside
    writers counts the outstanding reservations exactly; the compare-and-swap loop of \<^verbatim>\<open>Quota.Add\<close>
    is one saturating addition.
  \<^item> \<open>Disk_Writers\<close> (\<^verbatim>\<open>quota_file.go\<close>, \<^verbatim>\<open>filesystem.go\<close>, \<^verbatim>\<open>upload.go\<close>, \<^verbatim>\<open>replace.go\<close>): the quota file
    handle and the writers on top of the accounting. Shown: streams and writes move the usage by the
    growth of the file; the directory size counts each inode once; \<^verbatim>\<open>WriteUpload\<close> leaves its growth
    reserved.
  \<^item> \<open>Ufs_Paths\<close> (\<^verbatim>\<open>internal/ufs\<close>: \<^verbatim>\<open>fs_unix.go\<close>, \<^verbatim>\<open>path_unix.go\<close>, \<^verbatim>\<open>mkdir_unix.go\<close>,
    \<^verbatim>\<open>error.go\<close>): path confinement and opening below the base path. Shown: \<^verbatim>\<open>unsafePath\<close> is the
    lexical walk and refuses exactly what leaves the base; \<^verbatim>\<open>safePath\<close> opens only below the root
    without following links; \<^verbatim>\<open>mkdirAll\<close> terminates and creates ancestors only.
  \<^item> \<open>File_Paths\<close> (\<^verbatim>\<open>router/betterfiles_paths.go\<close>, \<^verbatim>\<open>server/filesystem/path.go\<close>): the paths of the
    file routes and the denylist. Shown: accepted paths are canonical and normalising is idempotent.
  \<^item> \<open>Upload_Registry\<close>, \<open>Upload_Patch\<close>, \<open>Upload_System\<close>
    (\<^verbatim>\<open>router/router_resumable_upload.go\<close>): the registries of locked files, admitted requests and
    bound tokens, the two routes, and many requests at once. They use the tokens and the quota
    file handle of the other parts. Shown: a PATCH appends its whole body or restores the file; a
    token serves one file of one server and ends with its upload; all limits and counters hold in
    every interleaving; an upload without a length can pass a full disk's limit.

  \<^bold>\<open>Processes.\<close>

  \<^item> \<open>Power_Lock\<close> (\<^verbatim>\<open>system/locker.go\<close>): the lock as a step relation over its two channels. Shown:
    at most one holder, with timeouts and destruction.
  \<^item> \<open>Power_Actions\<close> (\<^verbatim>\<open>server/power.go\<close>, \<^verbatim>\<open>environment/docker/power.go\<close>, \<^verbatim>\<open>environment.go\<close>,
    \<^verbatim>\<open>server/crash.go\<close>, parts of \<^verbatim>\<open>server.go\<close> and \<^verbatim>\<open>listeners.go\<close>): actions, process states and
    crash detection. Shown: actions hold the lock; a start follows a preflight; the tracked state
    converges; automatic restarts are rate limited; which event orders count as a crash.

  \<^bold>\<open>Network.\<close>

  \<^item> \<open>Net_Policy\<close> (\<^verbatim>\<open>internal/networkpolicy/policy.go\<close>): the policy document, its validation and the
    order of its rules.
  \<^item> \<open>Net_Ruleset\<close> (\<^verbatim>\<open>linux.go\<close>, \<^verbatim>\<open>allocation.go\<close>, \<^verbatim>\<open>icmp.go\<close>, \<^verbatim>\<open>replies.go\<close>): the compiler to
    nftables and the meaning of the emitted chains.
  \<^item> \<open>Net_Filter\<close>, \<open>Net_Inbound\<close>: the two hooks decide as the first matching rule of the accepted
    policy says; every packet gets a verdict; the hooks fail safe.

  \<^bold>\<open>Connections.\<close>

  \<^item> \<open>Ws_Tokens\<close> (\<^verbatim>\<open>router/tokens\<close>, \<^verbatim>\<open>server/websockets.go\<close>, \<^verbatim>\<open>system/context_bag.go\<close>): tokens,
    revocation lists and one-time use. Shown: a one-time token admits once within an hour.
  \<^item> \<open>Ws_Handler\<close> (\<^verbatim>\<open>router/websocket/websocket.go\<close>, \<^verbatim>\<open>limiter.go\<close>, \<^verbatim>\<open>message.go\<close>,
    \<^verbatim>\<open>router/router_server_ws.go\<close>): the messages of a socket as lists of effects. Shown: every effect
    is covered by a live token with its permission; a revoked user has no effect.
  \<^item> \<open>Ws_Events\<close> (\<^verbatim>\<open>system/rate.go\<close>, \<^verbatim>\<open>sink_pool.go\<close>, \<^verbatim>\<open>events/events.go\<close>, \<^verbatim>\<open>listeners.go\<close>,
    \<^verbatim>\<open>server/console.go\<close>): console throttle, channels and event bus. Shown: the bound on console
    lines; a full channel keeps the newest values; two topics never reach a socket.
  \<^item> \<open>Collab_OT\<close>, \<open>Collab_Names\<close>, \<open>Collab_Sessions\<close>
    (\<^verbatim>\<open>router/websocket/betterfiles_collaboration_ot.go\<close>, \<^verbatim>\<open>betterfiles_collaboration.go\<close>): documents
    with their history, names, and the sessions with every handler. Shown: clients converge; the
    broadcast changes are exact; old bases are found; the registry stays well formed; documents
    change only for members that may write; nothing is sent to another server's connections.

  \<^bold>\<open>How state and effects are rendered.\<close> A struct is a record, an error a value of a sum type. A
  handler is one function of the state and of the answers it gets from the kernel, Docker, the
  connection and the clock; the answers are arguments, so the theorems hold for all of them. A
  method that holds its mutex throughout is one step. Third-party packages (signatures, cache, rate
  limiter, operational transformation, gitignore matcher) are records of functions with their
  documented laws as hypotheses, and each such property has a witness with a concrete instance.

  \<^bold>\<open>Bounds.\<close> The walk over nftables chains takes a depth, and \<open>Net_Inbound\<close> shows that two levels
  of calls suffice for every packet. The attempts of the compare-and-swap loop are the list of
  values other goroutines stored, of any length. The loops that read a stream follow the list of
  what the reader delivers; \<open>Upload_Patch\<close> shows that the copy of an upload returns once more reads
  delivered bytes than the body has. The other loops recurse on their data, with a measure where
  the recursion is not structural. Limits such as the 128 operations of a document's history are
  the source's constants.

  \<^bold>\<open>Not modelled.\<close> Parts that are calls to the kernel, Docker, SQL or an HTTP or SFTP client with
  little logic of their own: container creation and statistics, image pulls, applying the nftables
  document and traffic shaping, walking and removing directory trees, archives, backups, transfers,
  installation, import, remote downloads, git and file search, revisions, scheduled jobs and the
  command line. Parts whose logic lies in third-party formats: the configuration file parser and
  the CRDT variant of collaboration. The registry of long-running file operations and the
  permission checks of the SFTP handlers are plain logic and outside the scope of this library.
  What the server's own process does to a file during an upload is not modelled either. Memory
  ordering below mutexes, channels and atomics is Go's memory model and taken as sequential.
\<close>

end
